(* ===== verification/Bgx_Prelude.thy ===== *)
theory Bgx_Prelude
  imports "HOL-Library.Word" "HOL-Library.Sublist" "HOL-Library.Char_ord"
begin

unbundle bit_operations_syntax

text \<open>
  The vocabulary every component shares: bytes and byte strings as Go has them, the few
  functions of Go's standard library that the sources call on byte strings
  (\<open>utf8.RuneStart\<close>, \<open>bytes.HasPrefix\<close>, \<open>bytes.Split\<close>,
  \<open>fmt\<close>'s \<open>%d\<close>), and the generic list lemmas the component proofs use.
  A Go slice is a HOL list; a Go \<open>int\<close> that is a length or an offset is a
  \<^typ>\<open>nat\<close>, and an \<^typ>\<open>int\<close> where the code uses \<open>-1\<close> as a result.
\<close>

named_theorems byte_eval \<open>equations that evaluate byte literals and byte classes\<close>
named_theorems frame_simps \<open>record fields an operation leaves alone\<close>

type_synonym byte = "8 word"
type_synonym bytes = "byte list"

text \<open>Go string literals: \<open>str ''abc''\<close> is \<open>[]byte("abc")\<close> for ASCII text.\<close>

definition str :: "string \<Rightarrow> bytes" where
  "str cs = map of_char cs"

lemma str_Nil [simp, byte_eval]: "str [] = []"
  by (simp add: str_def)

lemma str_Cons [simp, byte_eval]: "str (c # cs) = of_char c # str cs"
  by (simp add: str_def)

lemma length_str [simp]: "length (str cs) = length cs"
  by (simp add: str_def)

lemma str_append: "str (cs @ ds) = str cs @ str ds"
  by (simp add: str_def)

text \<open>\<open>utf8.RuneStart\<close>: the byte is not a UTF-8 continuation byte.\<close>

definition RuneStart :: "byte \<Rightarrow> bool" where
  "RuneStart b \<longleftrightarrow> b AND 0xC0 \<noteq> 0x80"

text \<open>
  A property of a byte is a finite check: it holds of every byte as soon as it holds of the
  256 numerals, which the simplifier evaluates.
\<close>

lemma byte_cases_nat:
  assumes "\<And>n. n < 256 \<Longrightarrow> P (of_nat n :: byte)"
  shows "P b"
proof -
  have "unat b < 256" using unsigned_less [of b] by simp
  from assms [OF this] show "P b" by simp
qed

lemma byte_exhaust: "list_all P (map of_nat [0..<256]) \<Longrightarrow> P (b :: byte)"
  by (rule byte_cases_nat) (auto simp: list_all_iff)

lemma RuneStart_iff: "RuneStart b = (\<not> (0x80 \<le> b \<and> b \<le> 0xBF))"
  by (rule byte_exhaust [where P = "\<lambda>b. RuneStart b = (\<not> (0x80 \<le> b \<and> b \<le> 0xBF))"]) code_simp

text \<open>\<open>bytes.HasPrefix\<close>.\<close>

definition HasPrefix :: "bytes \<Rightarrow> bytes \<Rightarrow> bool" where
  "HasPrefix s p \<longleftrightarrow> take (length p) s = p"

lemma HasPrefix_append [simp]: "HasPrefix (p @ s) p"
  by (simp add: HasPrefix_def)

lemma HasPrefix_Cons [simp]: "HasPrefix (x # s) (y # p) \<longleftrightarrow> x = y \<and> HasPrefix s p"
  by (auto simp: HasPrefix_def)

lemma HasPrefix_Nil [simp]: "HasPrefix s []" "HasPrefix [] (y # p) \<longleftrightarrow> False"
  by (simp_all add: HasPrefix_def)

lemma HasPrefix_iff: "HasPrefix s p \<longleftrightarrow> (\<exists>r. s = p @ r)"
  by (metis HasPrefix_append HasPrefix_def append_take_drop_id)

lemma append_prefix_le: "v @ q = u @ r \<Longrightarrow> length v \<le> length u \<Longrightarrow> \<exists>q'. u = v @ q'"
  using prefix_length_prefix [of v "u @ r" u] by (metis prefixE prefixI)

text \<open>\<open>fmt\<close>'s \<open>%d\<close> of a non-negative integer: its decimal digits.\<close>

fun decimal :: "nat \<Rightarrow> bytes" where
  "decimal n = (if n < 10 then [of_nat (48 + n)]
                else decimal (n div 10) @ [of_nat (48 + n mod 10)])"

declare decimal.simps [simp del]

end
