(* ===== verification/Vtscan.thy ===== *)
theory Vtscan
  imports Bgx_Prelude
begin

text \<open>
  \<open>vtscan/vtscan.go\<close>: the scanner that follows a VT byte stream so that a stream is cut
  only where the parser is at its ground state and no UTF-8 rune is open. The state, one
  function per method, and \<open>SafeCut\<close> as the loop over the buffer that the code runs.
  Lemmas: scanning does not depend on how the stream is chunked, a scanner at ground is the
  fresh scanner, and \<open>SafeCut\<close> returns the largest cut point.
\<close>

section \<open>The scanner and its step\<close>

datatype vstate =
    Ground | Escape | EscapeIntermediate
  | CsiEntry | CsiParam | CsiIntermediate | CsiIgnore
  | DcsEntry | DcsParam | DcsIntermediate | DcsPassthrough | DcsIgnore
  | OscString | StringIgnore

record scanner =
  st :: vstate
  utf8Pending :: nat

definition zeroScanner :: scanner where
  "zeroScanner = \<lparr>st = Ground, utf8Pending = 0\<rparr>"

definition Reset :: "scanner \<Rightarrow> scanner" where
  "Reset s = s\<lparr>st := Ground, utf8Pending := 0\<rparr>"

definition AtGround :: "scanner \<Rightarrow> bool" where
  "AtGround s \<longleftrightarrow> st s = Ground \<and> utf8Pending s = 0"

definition stepGround :: "scanner \<Rightarrow> byte \<Rightarrow> scanner" where
  "stepGround s b =
     (if utf8Pending s > 0 \<and> 0x80 \<le> b \<and> b \<le> 0xBF then s\<lparr>utf8Pending := utf8Pending s - 1\<rparr>
      else
        let s = s\<lparr>utf8Pending := 0\<rparr> in
        if b = 0x1B then s\<lparr>st := Escape\<rparr>
        else if b < 0x80 then s
        else if b < 0xC0 then s
        else if b < 0xE0 then s\<lparr>utf8Pending := 1\<rparr>
        else if b < 0xF0 then s\<lparr>utf8Pending := 2\<rparr>
        else if b < 0xF8 then s\<lparr>utf8Pending := 3\<rparr>
        else s)"

definition stepEscape :: "scanner \<Rightarrow> byte \<Rightarrow> scanner" where
  "stepEscape s b =
     (if b = 0x50 then s\<lparr>st := DcsEntry\<rparr>
      else if b = 0x5B then s\<lparr>st := CsiEntry\<rparr>
      else if b = 0x5D then s\<lparr>st := OscString\<rparr>
      else if b = 0x58 \<or> b = 0x5E \<or> b = 0x5F then s\<lparr>st := StringIgnore\<rparr>
      else if 0x20 \<le> b \<and> b \<le> 0x2F then s\<lparr>st := EscapeIntermediate\<rparr>
      else if 0x30 \<le> b \<and> b \<le> 0x7E then s\<lparr>st := Ground\<rparr>
      else s)"

definition stepCSI :: "scanner \<Rightarrow> byte \<Rightarrow> scanner" where
  "stepCSI s b =
     (if 0x40 \<le> b \<and> b \<le> 0x7E then s\<lparr>st := Ground\<rparr>
      else if 0x20 \<le> b \<and> b \<le> 0x2F then s\<lparr>st := CsiIntermediate\<rparr>
      else if b = 0x3A then s\<lparr>st := CsiIgnore\<rparr>
      else if (0x30 \<le> b \<and> b \<le> 0x39) \<or> b = 0x3B then s\<lparr>st := CsiParam\<rparr>
      else if 0x3C \<le> b \<and> b \<le> 0x3F then
        (if st s = CsiEntry then s\<lparr>st := CsiParam\<rparr> else s\<lparr>st := CsiIgnore\<rparr>)
      else s)"

definition stepCSIIntermediate :: "scanner \<Rightarrow> byte \<Rightarrow> scanner" where
  "stepCSIIntermediate s b =
     (if 0x40 \<le> b \<and> b \<le> 0x7E then s\<lparr>st := Ground\<rparr>
      else if 0x20 \<le> b \<and> b \<le> 0x2F then s
      else if 0x30 \<le> b \<and> b \<le> 0x3F then s\<lparr>st := CsiIgnore\<rparr>
      else s)"

definition stepDCS :: "scanner \<Rightarrow> byte \<Rightarrow> scanner" where
  "stepDCS s b =
     (case st s of
        DcsEntry \<Rightarrow>
          (if 0x20 \<le> b \<and> b \<le> 0x2F then s\<lparr>st := DcsIntermediate\<rparr>
           else if b = 0x3A then s\<lparr>st := DcsIgnore\<rparr>
           else if (0x30 \<le> b \<and> b \<le> 0x39) \<or> (0x3B \<le> b \<and> b \<le> 0x3F) then s\<lparr>st := DcsParam\<rparr>
           else if 0x40 \<le> b \<and> b \<le> 0x7E then s\<lparr>st := DcsPassthrough\<rparr>
           else s)
      | DcsParam \<Rightarrow>
          (if (0x30 \<le> b \<and> b \<le> 0x39) \<or> b = 0x3B then s
           else if b = 0x3A \<or> (0x3C \<le> b \<and> b \<le> 0x3F) then s\<lparr>st := DcsIgnore\<rparr>
           else if 0x20 \<le> b \<and> b \<le> 0x2F then s\<lparr>st := DcsIntermediate\<rparr>
           else if 0x40 \<le> b \<and> b \<le> 0x7E then s\<lparr>st := DcsPassthrough\<rparr>
           else s)
      | DcsIntermediate \<Rightarrow>
          (if 0x20 \<le> b \<and> b \<le> 0x2F then s
           else if 0x30 \<le> b \<and> b \<le> 0x3F then s\<lparr>st := DcsIgnore\<rparr>
           else if 0x40 \<le> b \<and> b \<le> 0x7E then s\<lparr>st := DcsPassthrough\<rparr>
           else s)
      | _ \<Rightarrow> s)"

definition step :: "scanner \<Rightarrow> byte \<Rightarrow> scanner" where
  "step s b =
     (if st s = Ground then stepGround s b
      else if b = 0x18 \<or> b = 0x1A then s\<lparr>st := Ground\<rparr>
      else if b = 0x1B then s\<lparr>st := Escape\<rparr>
      else case st s of
          Escape \<Rightarrow> stepEscape s b
        | EscapeIntermediate \<Rightarrow> if 0x30 \<le> b \<and> b \<le> 0x7E then s\<lparr>st := Ground\<rparr> else s
        | CsiEntry \<Rightarrow> stepCSI s b
        | CsiParam \<Rightarrow> stepCSI s b
        | CsiIntermediate \<Rightarrow> stepCSIIntermediate s b
        | CsiIgnore \<Rightarrow> if 0x40 \<le> b \<and> b \<le> 0x7E then s\<lparr>st := Ground\<rparr> else s
        | DcsEntry \<Rightarrow> stepDCS s b
        | DcsParam \<Rightarrow> stepDCS s b
        | DcsIntermediate \<Rightarrow> stepDCS s b
        | OscString \<Rightarrow> if b = 0x07 then s\<lparr>st := Ground\<rparr> else s
        | _ \<Rightarrow> s)"

primrec Advance :: "scanner \<Rightarrow> bytes \<Rightarrow> scanner" where
  "Advance s [] = s"
| "Advance s (b # p) = Advance (step s b) p"

section \<open>SafeCut\<close>

text \<open>
  The loop of \<open>SafeCut\<close>: \<open>i\<close> is the loop index, \<open>cp\<close> the copied scanner,
  \<open>best\<close> the best offset so far, \<open>-1\<close> when there is none.
\<close>

function safeCutLoop :: "bytes \<Rightarrow> int \<Rightarrow> nat \<Rightarrow> scanner \<Rightarrow> int \<Rightarrow> int" where
  "safeCutLoop buf target i cp best =
     (if i < length buf then
        let cp = step cp (buf ! i); off = i + 1 in
        if int off > target then best
        else if off < length buf \<and> \<not> RuneStart (buf ! off) then
          safeCutLoop buf target (i + 1) cp best
        else safeCutLoop buf target (i + 1) cp (if AtGround cp then int off else best)
      else best)"
  by pat_completeness auto
termination
  by (relation "measure (\<lambda>(buf, target, i, cp, best). length buf - i)") auto

declare safeCutLoop.simps [simp del]

definition SafeCut :: "scanner \<Rightarrow> bytes \<Rightarrow> int \<Rightarrow> int" where
  "SafeCut s buf target =
     (let target = (if target > int (length buf) then int (length buf) else target) in
      if target < 0 then -1
      else safeCutLoop buf target 0 s (if AtGround s then 0 else -1))"

section \<open>Scanning is independent of chunking\<close>

lemma Advance_append [simp]: "Advance s (p @ q) = Advance (Advance s p) q"
  by (induction p arbitrary: s) simp_all

lemma Advance_snoc: "Advance s (p @ [b]) = step (Advance s p) b"
  by simp

lemma Advance_take_Suc:
  "i < length p \<Longrightarrow> Advance s (take (Suc i) p) = step (Advance s (take i p)) (p ! i)"
  by (simp add: take_Suc_conv_app_nth)

lemma AtGround_iff: "AtGround s \<longleftrightarrow> s = zeroScanner"
  by (cases s) (auto simp: AtGround_def zeroScanner_def)

lemma AtGround_zero [simp]: "AtGround zeroScanner"
  by (simp add: AtGround_iff)

lemmas step_defs = step_def stepGround_def stepEscape_def stepCSI_def
  stepCSIIntermediate_def stepDCS_def

text \<open>What every reachable scanner satisfies: an open rune only at the ground state.\<close>

definition scanner_ok :: "scanner \<Rightarrow> bool" where
  "scanner_ok s \<longleftrightarrow> utf8Pending s \<le> 3 \<and> (utf8Pending s > 0 \<longrightarrow> st s = Ground)"

lemma scanner_ok_zero [simp]: "scanner_ok zeroScanner"
  by (simp add: scanner_ok_def zeroScanner_def)

lemma step_ok: "scanner_ok s \<Longrightarrow> scanner_ok (step s b)"
  by (cases "st s") (auto simp: scanner_ok_def step_defs Let_def)

lemma Advance_ok: "scanner_ok s \<Longrightarrow> scanner_ok (Advance s p)"
  by (induction p arbitrary: s) (simp_all add: step_ok)

text \<open>CAN, SUB and the string terminator bring any reachable scanner back to ground.\<close>

lemma step_abort_ground: "scanner_ok s \<Longrightarrow> b = 0x18 \<or> b = 0x1A \<Longrightarrow> AtGround (step s b)"
  by (cases "st s") (auto simp: scanner_ok_def step_def stepGround_def AtGround_def Let_def)

lemma step_ESC: "scanner_ok s \<Longrightarrow> step s 0x1B = \<lparr>st = Escape, utf8Pending = 0\<rparr>"
  by (cases s; cases "st s") (auto simp: scanner_ok_def step_def stepGround_def Let_def)

lemma Advance_ST_ground: "scanner_ok s \<Longrightarrow> AtGround (Advance s [0x1B, 0x5C])"
  by (simp add: step_ESC) (simp add: step_defs AtGround_def)

section \<open>The reference definition of a cut\<close>

definition cutPoint :: "scanner \<Rightarrow> bytes \<Rightarrow> nat \<Rightarrow> bool" where
  "cutPoint s buf n \<longleftrightarrow>
     n \<le> length buf \<and> AtGround (Advance s (take n buf)) \<and>
     (n = 0 \<or> n = length buf \<or> RuneStart (buf ! n))"

primrec bestCutUpto :: "scanner \<Rightarrow> bytes \<Rightarrow> nat \<Rightarrow> int" where
  "bestCutUpto s buf 0 = (if cutPoint s buf 0 then 0 else -1)"
| "bestCutUpto s buf (Suc n) =
     (if cutPoint s buf (Suc n) then int (Suc n) else bestCutUpto s buf n)"

lemma safeCutLoop_best:
  assumes "int i \<le> target" and "target \<le> int (length buf)"
  shows "safeCutLoop buf target i (Advance s (take i buf)) (bestCutUpto s buf i)
         = bestCutUpto s buf (nat target)"
  using assms
proof (induction "length buf - i" arbitrary: i)
  case 0
  then have "i = length buf" and "nat target = i" by auto
  then show ?case by (simp add: safeCutLoop.simps)
next
  case (Suc k)
  then have i: "i < length buf" by simp
  note adv = Advance_take_Suc [OF i, of s]
  show ?case
  proof (cases "int (i + 1) > target")
    case True
    with Suc.prems have "nat target = i" by simp
    with i True show ?thesis by (subst safeCutLoop.simps) (simp add: Let_def)
  next
    case False
    have IH: "safeCutLoop buf target (Suc i) (Advance s (take (Suc i) buf))
        (bestCutUpto s buf (Suc i)) = bestCutUpto s buf (nat target)"
      using Suc.hyps(1) [of "Suc i"] Suc.hyps(2) Suc.prems False by simp
    show ?thesis
      using IH i False
      by (subst safeCutLoop.simps) (auto simp: Let_def adv [symmetric] cutPoint_def)
  qed
qed

lemma bestCutUpto_0: "bestCutUpto s buf 0 = (if AtGround s then 0 else -1)"
  by (simp add: cutPoint_def)

lemma SafeCut_eq_best:
  "SafeCut s buf target =
     (if target < 0 then -1 else bestCutUpto s buf (nat (min target (int (length buf)))))"
proof (cases "target < 0")
  case False
  define t where "t = min target (int (length buf))"
  have "safeCutLoop buf t 0 (Advance s (take 0 buf)) (bestCutUpto s buf 0) = bestCutUpto s buf (nat t)"
    using False by (intro safeCutLoop_best) (auto simp: t_def)
  moreover have "(if target > int (length buf) then int (length buf) else target) = t"
    by (simp add: t_def)
  moreover have "\<not> t < 0" using False by (simp add: t_def)
  ultimately show ?thesis using False
    by (simp add: SafeCut_def bestCutUpto_0 Let_def flip: t_def del: bestCutUpto.simps)
qed (simp add: SafeCut_def)

lemma bestCutUpto_cases:
  obtains (none) "bestCutUpto s buf t = -1" and "\<And>n. n \<le> t \<Longrightarrow> \<not> cutPoint s buf n"
  | (cut) n where "bestCutUpto s buf t = int n" and "n \<le> t" and "cutPoint s buf n"
      and "\<And>m. m \<le> t \<Longrightarrow> cutPoint s buf m \<Longrightarrow> m \<le> n"
proof (induction t arbitrary: thesis)
  case 0
  then show ?case by (cases "cutPoint s buf 0") auto
next
  case (Suc t)
  show ?case
  proof (cases "cutPoint s buf (Suc t)")
    case True
    then show ?thesis by (intro Suc.prems(2) [of "Suc t"]) auto
  next
    case False
    show ?thesis
    proof (rule Suc.IH)
      assume "bestCutUpto s buf t = -1" "\<And>n. n \<le> t \<Longrightarrow> \<not> cutPoint s buf n"
      with False show ?thesis by (intro Suc.prems(1)) (auto simp: le_Suc_eq)
    next
      fix n assume "bestCutUpto s buf t = int n" "n \<le> t" "cutPoint s buf n"
        "\<And>m. m \<le> t \<Longrightarrow> cutPoint s buf m \<Longrightarrow> m \<le> n"
      with False show ?thesis by (intro Suc.prems(2) [of n]) (auto simp: le_Suc_eq)
    qed
  qed
qed

text \<open>
  C11. \<open>SafeCut\<close> returns the largest offset at or before the target at which consuming the
  buffer leaves the parser at ground and on a rune boundary, and \<open>-1\<close> exactly when there
  is no such offset.
\<close>

theorem SafeCut_largest:
  assumes "0 \<le> target"
  shows "(SafeCut s buf target = -1 \<and> (\<forall>n. int n \<le> target \<longrightarrow> \<not> cutPoint s buf n)) \<or>
    (\<exists>n. SafeCut s buf target = int n \<and> int n \<le> target \<and> cutPoint s buf n \<and>
       (\<forall>m. int m \<le> target \<longrightarrow> cutPoint s buf m \<longrightarrow> m \<le> n))"
proof -
  define t where "t = nat (min target (int (length buf)))"
  have eq: "SafeCut s buf target = bestCutUpto s buf t"
    using assms by (simp add: SafeCut_eq_best t_def)
  have le: "n \<le> t \<longleftrightarrow> int n \<le> target" if "cutPoint s buf n" for n
    using assms that by (auto simp: t_def cutPoint_def)
  have tt: "int t \<le> target" using assms by (simp add: t_def)
  show ?thesis
  proof (cases rule: bestCutUpto_cases [of s buf t])
    case none
    then show ?thesis using eq le by (intro disjI1) auto
  next
    case (cut n)
    have "\<forall>m. int m \<le> target \<longrightarrow> cutPoint s buf m \<longrightarrow> m \<le> n" using cut(4) le by blast
    then show ?thesis using cut(1-3) eq le [OF cut(3)] by (intro disjI2 exI [of _ n]) simp
  qed
qed

theorem SafeCut_largest_witness:
  "(0::int) \<le> 4 \<and>
   ((SafeCut zeroScanner (str ''ab'' @ [0x1B, 0x5B]) 4 = -1 \<and>
      (\<forall>n. int n \<le> 4 \<longrightarrow> \<not> cutPoint zeroScanner (str ''ab'' @ [0x1B, 0x5B]) n)) \<or>
    (\<exists>n. SafeCut zeroScanner (str ''ab'' @ [0x1B, 0x5B]) 4 = int n \<and> int n \<le> 4 \<and>
       cutPoint zeroScanner (str ''ab'' @ [0x1B, 0x5B]) n \<and>
       (\<forall>m. int m \<le> 4 \<longrightarrow> cutPoint zeroScanner (str ''ab'' @ [0x1B, 0x5B]) m \<longrightarrow> m \<le> n)))"
proof -
  have "(0::int) \<le> 4" by simp
  from this SafeCut_largest [OF this] show ?thesis by (rule conjI)
qed

text \<open>
  CAN, SUB and the string terminator resynchronise the scanner: whatever bytes came
  before, it is at ground after them.
\<close>

theorem Advance_resynchronises:
  "AtGround (Advance zeroScanner (p @ [0x18])) \<and> AtGround (Advance zeroScanner (p @ [0x1A])) \<and>
   AtGround (Advance zeroScanner (p @ [0x1B, 0x5C]))"
proof -
  have ok: "scanner_ok (Advance zeroScanner p)" by (simp add: Advance_ok)
  then show ?thesis using Advance_ST_ground [OF ok] by (simp add: step_abort_ground)
qed

lemma AtGround_make [simp]: "AtGround \<lparr>st = x, utf8Pending = n\<rparr> \<longleftrightarrow> x = Ground \<and> n = 0"
  by (simp add: AtGround_def)

section \<open>Terminal text as tokens\<close>

text \<open>\<open>quiet s p\<close>: no prefix of \<open>p\<close> but the empty one takes \<open>s\<close> to ground.\<close>

primrec quiet :: "scanner \<Rightarrow> bytes \<Rightarrow> bool" where
  "quiet s [] = True"
| "quiet s (b # p) = (\<not> AtGround (step s b) \<and> quiet (step s b) p)"

lemma quiet_append [simp]: "quiet s (p @ q) \<longleftrightarrow> quiet s p \<and> quiet (Advance s p) q"
  by (induction p arbitrary: s) auto

lemma quiet_take: "quiet s p \<Longrightarrow> 0 < n \<Longrightarrow> n \<le> length p \<Longrightarrow> \<not> AtGround (Advance s (take n p))"
proof (induction p arbitrary: s n)
  case (Cons b p)
  then show ?case by (cases n; cases "n = 1") auto
qed simp

text \<open>A closed set of non-ground states that the bytes of a payload never leave.\<close>

definition stays :: "vstate set \<Rightarrow> byte set \<Rightarrow> bool" where
  "stays S B \<longleftrightarrow> Ground \<notin> S \<and>
     (\<forall>s b. st s \<in> S \<and> utf8Pending s = 0 \<and> b \<in> B \<longrightarrow>
        st (step s b) \<in> S \<and> utf8Pending (step s b) = 0)"

lemma stays_run:
  assumes "stays S B" "st s \<in> S" "utf8Pending s = 0" "set p \<subseteq> B"
  shows "quiet s p \<and> st (Advance s p) \<in> S \<and> utf8Pending (Advance s p) = 0"
  using assms(2-4)
proof (induction p arbitrary: s)
  case (Cons b p)
  have "st (step s b) \<in> S" "utf8Pending (step s b) = 0"
    using assms(1) Cons.prems by (auto simp: stays_def)
  moreover have "\<not> AtGround (step s b)"
    using assms(1) calculation by (auto simp: stays_def AtGround_def)
  ultimately show ?case using Cons by simp
qed simp

definition tokenBytes :: "bytes \<Rightarrow> bool" where
  "tokenBytes t \<longleftrightarrow> t \<noteq> [] \<and> RuneStart (hd t) \<and> quiet zeroScanner (butlast t) \<and>
     AtGround (Advance zeroScanner t)"

text \<open>UTF-8 encoding of a code point.\<close>

definition utf8 :: "nat \<Rightarrow> bytes" where
  "utf8 c =
     (if c < 0x80 then [of_nat c]
      else if c < 0x800 then [of_nat (0xC0 + c div 64), of_nat (0x80 + c mod 64)]
      else if c < 0x10000 then
        [of_nat (0xE0 + c div 4096), of_nat (0x80 + c div 64 mod 64), of_nat (0x80 + c mod 64)]
      else
        [of_nat (0xF0 + c div 262144), of_nat (0x80 + c div 4096 mod 64),
         of_nat (0x80 + c div 64 mod 64), of_nat (0x80 + c mod 64)])"

datatype token =
    Rune nat
  | EscSeq bytes byte
  | CsiSeq bytes byte
  | DcsSeq bytes
  | OscBel bytes
  | OscSt bytes
  | StrSeq byte bytes

fun render :: "token \<Rightarrow> bytes" where
  "render (Rune c) = utf8 c"
| "render (EscSeq p f) = 0x1B # p @ [f]"
| "render (CsiSeq p f) = 0x1B # 0x5B # p @ [f]"
| "render (DcsSeq p) = 0x1B # 0x50 # p @ [0x1B, 0x5C]"
| "render (OscBel p) = 0x1B # 0x5D # p @ [0x07]"
| "render (OscSt p) = 0x1B # 0x5D # p @ [0x1B, 0x5C]"
| "render (StrSeq k p) = 0x1B # k # p @ [0x1B, 0x5C]"

abbreviation payload :: "bytes \<Rightarrow> bool" where
  "payload p \<equiv> set p \<inter> {0x18, 0x1A, 0x1B} = {}"

fun token_ok :: "token \<Rightarrow> bool" where
  "token_ok (Rune c) = (c < 0x110000 \<and> c \<noteq> 0x1B)"
| "token_ok (EscSeq p f) = ((\<forall>b\<in>set p. 0x20 \<le> b \<and> b \<le> 0x2F) \<and> 0x30 \<le> f \<and> f \<le> 0x7E \<and>
     (p = [] \<longrightarrow> f \<notin> {0x50, 0x58, 0x5B, 0x5D, 0x5E, 0x5F}))"
| "token_ok (CsiSeq p f) = ((\<forall>b\<in>set p. 0x20 \<le> b \<and> b \<le> 0x3F) \<and> 0x40 \<le> f \<and> f \<le> 0x7E)"
| "token_ok (DcsSeq p) = payload p"
| "token_ok (OscBel p) = (payload p \<and> 0x07 \<notin> set p)"
| "token_ok (OscSt p) = (payload p \<and> 0x07 \<notin> set p)"
| "token_ok (StrSeq k p) = (payload p \<and> k \<in> {0x58, 0x5E, 0x5F})"

lemma of_nat_byte_le: "m < 256 \<Longrightarrow> n < 256 \<Longrightarrow> (of_nat m :: byte) \<le> of_nat n \<longleftrightarrow> m \<le> n"
  by (simp add: word_le_nat_alt unat_of_nat)
lemma of_nat_byte_less: "m < 256 \<Longrightarrow> n < 256 \<Longrightarrow> (of_nat m :: byte) < of_nat n \<longleftrightarrow> m < n"
  by (simp add: word_less_nat_alt unat_of_nat)
lemma byte_numeral_le:
  "m < 256 \<Longrightarrow> numeral k < (256::nat) \<Longrightarrow> (of_nat m :: byte) \<le> numeral k \<longleftrightarrow> m \<le> numeral k"
  "m < 256 \<Longrightarrow> numeral k < (256::nat) \<Longrightarrow> numeral k \<le> (of_nat m :: byte) \<longleftrightarrow> numeral k \<le> m"
  "m < 256 \<Longrightarrow> numeral k < (256::nat) \<Longrightarrow> (of_nat m :: byte) < numeral k \<longleftrightarrow> m < numeral k"
  using of_nat_byte_le [of m "numeral k"] of_nat_byte_le [of "numeral k" m] of_nat_byte_less [of m "numeral k"]
  by simp_all
lemma byte_numeral_eq:
  "m < 256 \<Longrightarrow> numeral k < (256::nat) \<Longrightarrow> (of_nat m :: byte) = numeral k \<longleftrightarrow> m = numeral k"
  using of_nat_byte_le [of m "numeral k"] of_nat_byte_le [of "numeral k" m] by (metis of_nat_numeral order_antisym_conv order_refl)
lemmas byte_numeral = byte_numeral_le byte_numeral_eq

lemma token_Rune:
  assumes "c < 0x110000" "c \<noteq> 0x1B" shows "tokenBytes (utf8 c)"
proof -
  have z: "step zeroScanner b = stepGround zeroScanner b" for b by (simp add: step_def zeroScanner_def)
  consider "c < 0x80" | "0x80 \<le> c" "c < 0x800" | "0x800 \<le> c" "c < 0x10000" | "0x10000 \<le> c" by linarith
  then show ?thesis
  proof cases
    case 1
    then show ?thesis using assms
      by (simp add: tokenBytes_def utf8_def RuneStart_iff step_def stepGround_def zeroScanner_def AtGround_def byte_numeral)
  next
    case 2
    have "c div 64 < 32" "c mod 64 < 64" "2 \<le> c div 64" using 2 by auto
    then show ?thesis using 2
      by (simp del: of_nat_add add: tokenBytes_def utf8_def RuneStart_iff step_def stepGround_def zeroScanner_def AtGround_def byte_numeral)
  next
    case 3
    have "c div 4096 < 16" "c mod 64 \<le> 63" "c div 64 mod 64 \<le> 63" using 3 by auto
    then show ?thesis using 3
      by (simp del: of_nat_add add: tokenBytes_def utf8_def RuneStart_iff step_def stepGround_def zeroScanner_def AtGround_def byte_numeral)
  next
    case 4
    have "c div 262144 < 5" "c mod 64 \<le> 63" "c div 64 mod 64 \<le> 63" "c div 4096 mod 64 \<le> 63" using assms by auto
    then show ?thesis using 4
      by (simp del: of_nat_add add: tokenBytes_def utf8_def RuneStart_iff step_def stepGround_def zeroScanner_def AtGround_def byte_numeral)
  qed
qed


text \<open>An escape sequence: an introducer, a payload that stays off ground, a terminator.\<close>

lemma tokenBytes_seq:
  assumes S: "stays S (set p)" and "st s \<in> S" "utf8Pending s = 0"
    and s: "s = Advance zeroScanner (0x1B # intro)" and q: "quiet (step zeroScanner 0x1B) intro"
    and f: "\<And>x. st x \<in> S \<Longrightarrow> utf8Pending x = 0 \<Longrightarrow>
       quiet x (butlast fin) \<and> AtGround (Advance x fin)"
    and "fin \<noteq> []"
  shows "tokenBytes (0x1B # intro @ p @ fin)"
proof -
  have run: "quiet s p" "st (Advance s p) \<in> S" "utf8Pending (Advance s p) = 0"
    using stays_run [OF S assms(2,3)] by auto
  note f = f [OF run(2,3)]
  have "\<not> AtGround (step zeroScanner 0x1B)" by (simp add: step_ESC AtGround_def)
  then show ?thesis
    using run f q \<open>fin \<noteq> []\<close> unfolding tokenBytes_def
    by (simp add: RuneStart_iff butlast_append s)
qed

lemma staysI:
  assumes "Ground \<notin> S"
    and "\<And>x b. x \<in> S \<Longrightarrow> b \<in> B \<Longrightarrow> st (step \<lparr>st = x, utf8Pending = 0\<rparr> b) \<in> S \<and>
        utf8Pending (step \<lparr>st = x, utf8Pending = 0\<rparr> b) = 0"
  shows "stays S B"
  unfolding stays_def
proof (intro conjI allI impI, goal_cases)
  case (2 s b)
  then show ?case using assms(2) [of "st s" b] by (cases s) simp
next
  case (3 s b)
  then show ?case using assms(2) [of "st s" b] by (cases s) simp
qed (fact assms(1))

lemma not_above: "b \<le> c \<Longrightarrow> c < d \<Longrightarrow> \<not> d \<le> b" for b c d :: byte
  by simp

lemma stays_csi:
  assumes "\<forall>b\<in>set p. 0x20 \<le> b \<and> b \<le> 0x3F"
  shows "stays {CsiEntry, CsiParam, CsiIntermediate, CsiIgnore} (set p)"
proof (rule staysI)
  fix x b assume x: "x \<in> {CsiEntry, CsiParam, CsiIntermediate, CsiIgnore}" and "b \<in> set p"
  then have b: "0x20 \<le> b" "b \<le> 0x3F" using assms by auto
  have "\<not> 0x40 \<le> b" by (rule not_above [OF b(2)]) simp
  moreover have "b \<noteq> 0x18" "b \<noteq> 0x1A" "b \<noteq> 0x1B" using b by auto
  ultimately show "st (step \<lparr>st = x, utf8Pending = 0\<rparr> b) \<in> {CsiEntry, CsiParam, CsiIntermediate, CsiIgnore}
    \<and> utf8Pending (step \<lparr>st = x, utf8Pending = 0\<rparr> b) = 0"
    using x by (elim insertE; simp add: step_def stepCSI_def stepCSIIntermediate_def)
qed simp

lemma step_escInt:
  assumes "st x \<in> {Escape, EscapeIntermediate}" "0x20 \<le> b" "b \<le> 0x2F"
  shows "step x b = x\<lparr>st := EscapeIntermediate\<rparr>"
proof -
  have "\<not> 0x30 \<le> b" by (rule not_above [OF assms(3)]) simp
  moreover have "b \<noteq> 0x18" "b \<noteq> 0x1A" "b \<noteq> 0x1B" "b \<noteq> 0x50" "b \<noteq> 0x5B"
    "b \<noteq> 0x5D" "b \<noteq> 0x58" "b \<noteq> 0x5E" "b \<noteq> 0x5F" using assms by auto
  ultimately show ?thesis using assms by (cases x) (auto simp: step_def stepEscape_def)
qed

lemma stays_esc:
  assumes "\<forall>b\<in>set p. 0x20 \<le> b \<and> b \<le> 0x2F"
  shows "stays {EscapeIntermediate} (set p)"
  using assms by (intro staysI) (auto simp: step_escInt)

lemma stays_dcs:
  assumes "payload p"
  shows "stays {DcsEntry, DcsParam, DcsIntermediate, DcsPassthrough, DcsIgnore} (set p)"
proof (rule staysI)
  fix x b assume x: "x \<in> {DcsEntry, DcsParam, DcsIntermediate, DcsPassthrough, DcsIgnore}"
    and "b \<in> set p"
  then have "b \<noteq> 0x18" "b \<noteq> 0x1A" "b \<noteq> 0x1B" using assms by auto
  with x show "st (step \<lparr>st = x, utf8Pending = 0\<rparr> b)
      \<in> {DcsEntry, DcsParam, DcsIntermediate, DcsPassthrough, DcsIgnore}
    \<and> utf8Pending (step \<lparr>st = x, utf8Pending = 0\<rparr> b) = 0"
    by (elim insertE; simp add: step_def stepDCS_def)
qed simp

lemma stays_osc:
  assumes "payload p" "0x07 \<notin> set p" shows "stays {OscString} (set p)"
proof (rule staysI)
  fix x b assume x: "x \<in> {OscString}" and "b \<in> set p"
  then have "b \<noteq> 0x18" "b \<noteq> 0x1A" "b \<noteq> 0x1B" "b \<noteq> 0x07" using assms by auto
  with x show "st (step \<lparr>st = x, utf8Pending = 0\<rparr> b) \<in> {OscString}
    \<and> utf8Pending (step \<lparr>st = x, utf8Pending = 0\<rparr> b) = 0"
    by (simp add: step_def)
qed simp

lemma stays_str:
  assumes "payload p" shows "stays {StringIgnore} (set p)"
proof (rule staysI)
  fix x b assume x: "x \<in> {StringIgnore}" and "b \<in> set p"
  then have "b \<noteq> 0x18" "b \<noteq> 0x1A" "b \<noteq> 0x1B" using assms by auto
  with x show "st (step \<lparr>st = x, utf8Pending = 0\<rparr> b) \<in> {StringIgnore}
    \<and> utf8Pending (step \<lparr>st = x, utf8Pending = 0\<rparr> b) = 0"
    by (simp add: step_def)
qed simp

text \<open>The string terminator closes every string state.\<close>

lemma ST_closes:
  "st x \<noteq> Ground \<Longrightarrow> utf8Pending x = 0 \<Longrightarrow>
     quiet x (butlast [0x1B, 0x5C]) \<and> AtGround (Advance x [0x1B, 0x5C])"
  using Advance_ST_ground [of x] by (simp add: scanner_ok_def step_ESC AtGround_def)

lemma final_csi:
  "st x \<in> {CsiEntry, CsiParam, CsiIntermediate, CsiIgnore} \<Longrightarrow> utf8Pending x = 0 \<Longrightarrow>
     0x40 \<le> f \<Longrightarrow> f \<le> 0x7E \<Longrightarrow> AtGround (step x f)"
  by (auto simp: step_def stepCSI_def stepCSIIntermediate_def AtGround_def)

lemma final_escInt:
  "st x = EscapeIntermediate \<Longrightarrow> utf8Pending x = 0 \<Longrightarrow> 0x30 \<le> f \<Longrightarrow> f \<le> 0x7E \<Longrightarrow> AtGround (step x f)"
  by (auto simp: step_def AtGround_def)

lemma step_intro:
  "step zeroScanner 0x1B = \<lparr>st = Escape, utf8Pending = 0\<rparr>"
  "step \<lparr>st = Escape, utf8Pending = 0\<rparr> 0x5B = \<lparr>st = CsiEntry, utf8Pending = 0\<rparr>"
  "step \<lparr>st = Escape, utf8Pending = 0\<rparr> 0x50 = \<lparr>st = DcsEntry, utf8Pending = 0\<rparr>"
  "step \<lparr>st = Escape, utf8Pending = 0\<rparr> 0x5D = \<lparr>st = OscString, utf8Pending = 0\<rparr>"
  "k \<in> {0x58, 0x5E, 0x5F} \<Longrightarrow>
     step \<lparr>st = Escape, utf8Pending = 0\<rparr> k = \<lparr>st = StringIgnore, utf8Pending = 0\<rparr>"
  by (auto simp: step_ESC) (simp_all add: step_def stepEscape_def)

lemma token_EscSeq: "token_ok (EscSeq p f) \<Longrightarrow> tokenBytes (render (EscSeq p f))"
proof (cases p)
  case Nil
  assume "token_ok (EscSeq p f)"
  with Nil have f: "0x30 \<le> f" "f \<le> 0x7E" "f \<notin> {0x50, 0x58, 0x5B, 0x5D, 0x5E, 0x5F}" by auto
  have "\<not> f \<le> 0x2F" using f(1) not_above [of f "0x2F" "0x30"] by auto
  moreover have "f \<noteq> 0x18" "f \<noteq> 0x1A" "f \<noteq> 0x1B" using f by auto
  ultimately show ?thesis using Nil f
    by (simp add: tokenBytes_def RuneStart_iff step_intro) (auto simp: AtGround_def step_def stepEscape_def)
next
  case (Cons b q)
  assume "token_ok (EscSeq p f)"
  then show ?thesis
    using Cons tokenBytes_seq [where S = "{EscapeIntermediate}" and p = q and intro = "[b]" and fin = "[f]"]
    by (simp add: step_intro step_escInt stays_esc final_escInt)
qed

lemma tokenBytes_render: "token_ok t \<Longrightarrow> tokenBytes (render t)"
proof (cases t)
  case (Rune c)
  then show "token_ok t \<Longrightarrow> ?thesis" by (simp add: token_Rune)
next
  case (EscSeq p f)
  then show "token_ok t \<Longrightarrow> ?thesis" using token_EscSeq by blast
next
  case (CsiSeq p f)
  then show "token_ok t \<Longrightarrow> ?thesis"
    using tokenBytes_seq [OF stays_csi [of p], where intro = "[0x5B]" and fin = "[f]"]
    by (simp add: step_intro final_csi)
next
  case (DcsSeq p)
  then show "token_ok t \<Longrightarrow> ?thesis"
    using tokenBytes_seq [OF stays_dcs [of p], where intro = "[0x50]" and fin = "[0x1B, 0x5C]"] ST_closes
    by (force simp: step_intro AtGround_def)
next
  case (OscBel p)
  then show "token_ok t \<Longrightarrow> ?thesis"
    using tokenBytes_seq [OF stays_osc [of p], where intro = "[0x5D]" and fin = "[0x07]"]
    by (simp add: step_intro AtGround_def) (simp add: step_def)
next
  case (OscSt p)
  then show "token_ok t \<Longrightarrow> ?thesis"
    using tokenBytes_seq [OF stays_osc [of p], where intro = "[0x5D]" and fin = "[0x1B, 0x5C]"] ST_closes
    by (force simp: step_intro AtGround_def)
next
  case (StrSeq k p)
  then show "token_ok t \<Longrightarrow> ?thesis"
    using tokenBytes_seq [OF stays_str [of p], where intro = "[k]" and fin = "[0x1B, 0x5C]"] ST_closes
    by (force simp: step_intro AtGround_def)
qed

section \<open>Cuts of a token stream\<close>

lemma tokens_ground: "\<forall>t\<in>set ts. tokenBytes t \<Longrightarrow> Advance zeroScanner (concat ts) = zeroScanner"
  by (induction ts) (auto simp: tokenBytes_def AtGround_iff)

lemma quiet_butlast_take:
  assumes "quiet s (butlast t)" "0 < n" "n < length t"
  shows "\<not> AtGround (Advance s (take n t))"
proof -
  have "take n t = take n (butlast t)" using assms(3) by (simp add: take_butlast)
  then show ?thesis using quiet_take [OF assms(1), of n] assms by simp
qed

text \<open>Between two tokens, and nowhere else, the scanner is at ground.\<close>

lemma ground_prefix_tokens:
  assumes "\<forall>t\<in>set ts. tokenBytes t" "n \<le> length (concat ts)"
    "AtGround (Advance zeroScanner (take n (concat ts)))"
  shows "\<exists>k\<le>length ts. n = length (concat (take k ts))"
  using assms
proof (induction ts arbitrary: n)
  case (Cons t ts)
  have t: "quiet zeroScanner (butlast t)" "Advance zeroScanner t = zeroScanner"
    using Cons.prems(1) by (auto simp: tokenBytes_def AtGround_iff)
  show ?case
  proof (cases "n < length t")
    case True
    then have "n = 0" using quiet_butlast_take [OF t(1), of n] Cons.prems(3) by auto
    then show ?thesis by (intro exI [of _ 0]) simp
  next
    case False
    moreover have "n - length t \<le> length (concat ts)" using Cons.prems(2) by simp
    ultimately obtain k where "k \<le> length ts" "n - length t = length (concat (take k ts))"
      using Cons.IH [of "n - length t"] Cons.prems t by auto
    then show ?thesis using False by (intro exI [of _ "Suc k"]) auto
  qed
qed simp

lemma cutPoint_tokens:
  assumes "\<forall>t\<in>set ts. tokenBytes t"
  shows "cutPoint zeroScanner (concat ts) n \<longleftrightarrow> (\<exists>k\<le>length ts. n = length (concat (take k ts)))"
proof
  assume "cutPoint zeroScanner (concat ts) n"
  then show "\<exists>k\<le>length ts. n = length (concat (take k ts))"
    using ground_prefix_tokens [OF assms] by (auto simp: cutPoint_def)
next
  assume "\<exists>k\<le>length ts. n = length (concat (take k ts))"
  then obtain k where k: "k \<le> length ts" "n = length (concat (take k ts))" by blast
  have split: "concat ts = concat (take k ts) @ concat (drop k ts)"
    by (metis append_take_drop_id concat_append)
  then have pre: "take n (concat ts) = concat (take k ts)" using k by simp
  have g: "Advance zeroScanner (take n (concat ts)) = zeroScanner"
    unfolding pre using assms by (intro tokens_ground) (meson in_set_takeD)
  have "n = length (concat ts) \<or> RuneStart (concat ts ! n)"
  proof (cases "drop k ts")
    case Nil
    then show ?thesis using split k by simp
  next
    case (Cons t us)
    then have "t \<in> set ts" by (metis in_set_dropD list.set_intros(1))
    then have "t \<noteq> []" "RuneStart (hd t)" using assms by (auto simp: tokenBytes_def)
    then show ?thesis using split k Cons by (auto simp: nth_append hd_conv_nth)
  qed
  then show "cutPoint zeroScanner (concat ts) n"
    using g split k by (simp add: cutPoint_def)
qed

text \<open>
  C12. On well-formed terminal output (runes, escape, control, device-control, operating-system
  and string sequences in any order) \<open>SafeCut\<close> cuts between two tokens, and at the last
  token that still ends at or before the target.
\<close>

theorem SafeCut_token_boundary:
  assumes "\<forall>t\<in>set ts. token_ok t" and "target \<le> length (concat (map render ts))"
  shows "\<exists>k\<le>length ts.
     SafeCut zeroScanner (concat (map render ts)) (int target)
       = int (length (concat (map render (take k ts)))) \<and>
     length (concat (map render (take k ts))) \<le> target \<and>
     (k < length ts \<longrightarrow> target < length (concat (map render (take (Suc k) ts))))"
proof -
  define us where "us = map render ts"
  have us: "\<forall>t\<in>set us. tokenBytes t" using assms(1) by (auto simp: us_def tokenBytes_render)
  note cp = cutPoint_tokens [OF us]
  have m: "map render (take j ts) = take j us" for j by (simp add: us_def take_map)
  have eq: "SafeCut zeroScanner (concat us) (int target) = bestCutUpto zeroScanner (concat us) target"
    using assms(2) by (simp add: SafeCut_eq_best us_def min_def)
  show ?thesis
  proof (cases rule: bestCutUpto_cases [of zeroScanner "concat us" target])
    case none
    then show ?thesis using none(2) [of 0] cp [of 0] by force
  next
    case (cut n)
    then obtain k where k: "k \<le> length ts" "n = length (concat (take k us))"
      using cp by (auto simp: us_def)
    have "target < length (concat (take (Suc k) us))" if "k < length ts"
    proof (rule ccontr)
      assume "\<not> target < length (concat (take (Suc k) us))"
      moreover have "Suc k \<le> length us" using that by (simp add: us_def)
      then have "cutPoint zeroScanner (concat us) (length (concat (take (Suc k) us)))"
        unfolding cp by blast
      ultimately have "length (concat (take (Suc k) us)) \<le> n" using cut(4) by simp
      moreover have "us ! k \<noteq> []" using us that by (auto simp: us_def tokenBytes_def)
      ultimately show False using k that by (simp add: take_Suc_conv_app_nth us_def)
    qed
    moreover have "SafeCut zeroScanner (concat us) (int target) = int (length (concat (take k us)))"
      by (simp only: eq cut(1) k(2))
    moreover have "length (concat (take k us)) \<le> target" using cut(2) unfolding k(2) .
    ultimately show ?thesis using k(1) unfolding m us_def [symmetric] by blast
  qed
qed

definition demo_tokens :: "token list" where
  "demo_tokens = [Rune 0x20AC, CsiSeq (str ''1;2'') 0x48, OscSt (str ''0;t'')]"

theorem SafeCut_token_boundary_witness:
  "\<exists>k\<le>length demo_tokens.
     SafeCut zeroScanner (concat (map render demo_tokens)) (int 10)
       = int (length (concat (map render (take k demo_tokens)))) \<and>
     length (concat (map render (take k demo_tokens))) \<le> 10 \<and>
     (k < length demo_tokens \<longrightarrow> 10 < length (concat (map render (take (Suc k) demo_tokens))))"
  by (rule SafeCut_token_boundary [of demo_tokens 10]) (simp_all add: demo_tokens_def utf8_def)

end
