(* ===== verification/Vt.thy ===== *)
theory Vt
  imports Vtscan
begin

text \<open>
  \<open>vt/vt.go\<close>: the terminal a session keeps beside its output. libghostty is third-party code:
  its terminal is a state of any type \<open>'g\<close>, its calls the fields of a record \<open>ghostty\<close>, an
  argument of every definition that makes them. Everything the package does itself is modelled:
  the write loop that cuts the input around complete sequences and samples the cursor, the
  tracking of the active screen and of the modes, the stop at a screen switch, snapshots and mode
  sequences. Lemmas: tracking does not depend on how the output is split, a stop at a switch
  resumes where a plain write would be, and a replayed snapshot brings the modes into agreement.
\<close>

section \<open>Terminals\<close>

datatype vt_error = VtError string

record 'g ghostty =
  VTWrite :: "'g \<Rightarrow> bytes \<Rightarrow> 'g"
  CursorX :: "'g \<Rightarrow> 16 word option"
  CursorY :: "'g \<Rightarrow> 16 word option"
  gResize :: "'g \<Rightarrow> 16 word \<Rightarrow> 16 word \<Rightarrow> vt_error + 'g"
  Format :: "'g \<Rightarrow> vt_error + bytes"
  NewTerminal :: "16 word \<Rightarrow> 16 word \<Rightarrow> vt_error + 'g"

record savedCursor =
  cx :: "16 word"
  cy :: "16 word"
  cok :: bool

definition noCursor :: savedCursor where "noCursor = \<lparr>cx = 0, cy = 0, cok = False\<rparr>"

record 'g terminal =
  gterm :: 'g
  scan :: scanner
  writtenRows :: "16 word"
  seqBuf :: bytes
  alt :: bool
  modes :: "nat \<rightharpoonup> bool"
  primarySaved :: savedCursor

definition SnapshotPrefix :: bytes where
  "SnapshotPrefix = 0x1B # str ''[?1049l'' @ 0x1B # str ''[2J'' @ 0x1B # str ''[H''"

definition trackedModes :: "nat list" where
  "trackedModes = [1, 25, 1000, 1002, 1003, 1004, 1006, 2004]"

definition maxTrackedSequence :: nat where "maxTrackedSequence = 64"

definition initialModes :: "nat \<rightharpoonup> bool" where
  "initialModes = (\<lambda>m. if m \<in> set trackedModes then Some (m = 25) else None)"

definition resetModes :: "'g terminal \<Rightarrow> 'g terminal" where
  "resetModes t = t\<lparr>alt := False, primarySaved := noCursor, modes := initialModes\<rparr>"

definition newTerminal :: "'g ghostty \<Rightarrow> 16 word \<Rightarrow> 16 word \<Rightarrow> vt_error + 'g terminal" where
  "newTerminal G cols rows =
     (case NewTerminal G cols rows of
        Inl e \<Rightarrow> Inl e
      | Inr g \<Rightarrow> Inr (resetModes \<lparr>gterm = g, scan = zeroScanner, writtenRows = 0, seqBuf = [],
                        alt = False, modes = Map.empty, primarySaved = noCursor\<rparr>))"

section \<open>Tracking a completed sequence\<close>

text \<open>\<open>bytes.Split\<close> at a one-byte separator.\<close>

fun splitByte :: "byte \<Rightarrow> bytes \<Rightarrow> bytes list" where
  "splitByte c [] = [[]]"
| "splitByte c (b # s) =
     (if b = c then [] # splitByte c s
      else (case splitByte c s of [] \<Rightarrow> [[b]] | w # ws \<Rightarrow> (b # w) # ws))"

fun decimalDigits :: "bytes \<Rightarrow> nat \<Rightarrow> nat option" where
  "decimalDigits [] n = Some n"
| "decimalDigits (c # s) n =
     (if c < 0x30 \<or> c > 0x39 then None else decimalDigits s (n * 10 + unat (c - 0x30)))"

definition parseModeParam :: "bytes \<Rightarrow> nat option" where
  "parseModeParam param =
     (if length param = 0 \<or> length param > 5 then None else decimalDigits param 0)"

definition sampleCursor :: "'g ghostty \<Rightarrow> 'g terminal \<Rightarrow> savedCursor" where
  "sampleCursor G t =
     (case CursorX G (gterm t) of
        None \<Rightarrow> noCursor
      | Some x \<Rightarrow>
          (case CursorY G (gterm t) of
             None \<Rightarrow> noCursor
           | Some y \<Rightarrow> \<lparr>cx = x, cy = y, cok = True\<rparr>))"

definition applyMode :: "'g ghostty \<Rightarrow> bool \<Rightarrow> 'g terminal \<Rightarrow> nat \<Rightarrow> 'g terminal" where
  "applyMode G on t n =
     (if n = 1049 then
        (if on \<and> \<not> alt t then t\<lparr>primarySaved := sampleCursor G t, alt := on\<rparr>
         else if \<not> on then t\<lparr>primarySaved := noCursor, alt := on\<rparr>
         else t\<lparr>alt := on\<rparr>)
      else if n = 47 \<or> n = 1047 then t\<lparr>alt := on\<rparr>
      else if n \<in> dom (modes t) then t\<lparr>modes := (modes t)(n \<mapsto> on)\<rparr>
      else t)"

fun applyParams :: "'g ghostty \<Rightarrow> bool \<Rightarrow> bytes list \<Rightarrow> 'g terminal \<Rightarrow> 'g terminal" where
  "applyParams G on [] t = t"
| "applyParams G on (param # ps) t =
     (case parseModeParam param of
        None \<Rightarrow> applyParams G on ps t
      | Some n \<Rightarrow> applyParams G on ps (applyMode G on t n))"

definition trackSequence :: "'g ghostty \<Rightarrow> 'g terminal \<Rightarrow> bytes \<Rightarrow> 'g terminal \<times> bool" where
  "trackSequence G t s =
     (if length s < 2 \<or> s ! 0 \<noteq> 0x1B then (t, False)
      else if length s = 2 \<and> s ! 1 = 0x63 then (resetModes t, alt t)
      else if length s < 5 \<or> s ! 1 \<noteq> 0x5B \<or> s ! 2 \<noteq> 0x3F then (t, False)
      else
        let final = s ! (length s - 1) in
        if final \<noteq> 0x68 \<and> final \<noteq> 0x6C then (t, False)
        else
          let t' = applyParams G (final = 0x68) (splitByte 0x3B (take (length s - 1 - 3) (drop 3 s))) t in
          (t', alt t' \<noteq> alt t))"

section \<open>Writing\<close>

text \<open>The closure \<open>flush\<close>: the terminal and \<open>start\<close> after it.\<close>

definition flushTo :: "'g ghostty \<Rightarrow> bytes \<Rightarrow> 'g terminal \<Rightarrow> nat \<Rightarrow> nat \<Rightarrow> 'g terminal \<times> nat" where
  "flushTo G p t start stop =
     (if start = stop then (t, start)
      else
        let t = t\<lparr>gterm := VTWrite G (gterm t) (take (stop - start) (drop start p))\<rparr> in
        case CursorY G (gterm t) of
          None \<Rightarrow> (t, stop)
        | Some row \<Rightarrow>
            (if row + 1 > writtenRows t then (t\<lparr>writtenRows := row + 1\<rparr>, stop) else (t, stop)))"

definition isControl :: "byte \<Rightarrow> bool" where "isControl b \<longleftrightarrow> b < 0x20 \<or> b = 0x7F"

text \<open>
  The body of the loop of \<open>write\<close> up to the advance of the scanner: the byte joins the
  sequence in progress.
\<close>

definition nextSeq :: "bool \<Rightarrow> bytes \<Rightarrow> byte \<Rightarrow> bytes" where
  "nextSeq wasGround s b =
     (let s = (if wasGround \<or> b = 0x1B then [] else s) in
      if length s < maxTrackedSequence then s @ [b] else s)"

definition noteByte :: "'g terminal \<Rightarrow> byte \<Rightarrow> 'g terminal" where
  "noteByte t b =
     t\<lparr>seqBuf := nextSeq (AtGround (scan t)) (seqBuf t) b, scan := Advance (scan t) [b]\<rparr>"

function writeLoop :: "'g ghostty \<Rightarrow> bytes \<Rightarrow> bool \<Rightarrow> nat \<Rightarrow> nat \<Rightarrow> int \<Rightarrow> 'g terminal \<Rightarrow>
    'g terminal \<times> nat \<times> nat \<times> bool" where
  "writeLoop G p stopOnSwitch i start seqStart t =
     (if i < length p then
        let b = p ! i;
            wasGround = AtGround (scan t);
            control = isControl b;
            (t, start) = (if wasGround \<and> (b = 0x1B \<or> control) then flushTo G p t start i else (t, start));
            seqStart = (if wasGround \<or> b = 0x1B then int i else seqStart);
            t = noteByte t b;
            sequenceEnded = (\<not> wasGround \<and> AtGround (scan t));
            groundControl = (wasGround \<and> control \<and> b \<noteq> 0x1B);
            (t, switched) = (if sequenceEnded then trackSequence G t (seqBuf t) else (t, False)) in
        if sequenceEnded \<and> switched \<and> stopOnSwitch then
          (fst (flushTo G p t start (i + 1)), nat (max seqStart 0), i + 1, True)
        else
          let (t, start) = (if sequenceEnded \<or> groundControl then flushTo G p t start (i + 1) else (t, start)) in
          writeLoop G p stopOnSwitch (i + 1) start seqStart t
      else (fst (flushTo G p t start (length p)), length p, length p, False))"
  by pat_completeness auto
termination
  by (relation "measure (\<lambda>(G, p, s, i, st, q, t). length p - i)") auto

declare writeLoop.simps [simp del]

definition writeTerminal :: "'g ghostty \<Rightarrow> 'g terminal \<Rightarrow> bytes \<Rightarrow> bool \<Rightarrow> 'g terminal \<times> nat \<times> nat \<times> bool" where
  "writeTerminal G t p stopOnSwitch = writeLoop G p stopOnSwitch 0 0 (-1) t"

definition TWrite :: "'g ghostty \<Rightarrow> 'g terminal \<Rightarrow> bytes \<Rightarrow> 'g terminal" where
  "TWrite G t p = fst (writeTerminal G t p False)"

definition WriteUntilScreenSwitch :: "'g ghostty \<Rightarrow> 'g terminal \<Rightarrow> bytes \<Rightarrow> 'g terminal \<times> nat \<times> nat \<times> bool" where
  "WriteUntilScreenSwitch G t p = writeTerminal G t p True"

definition TResize :: "'g ghostty \<Rightarrow> 'g terminal \<Rightarrow> 16 word \<Rightarrow> 16 word \<Rightarrow> vt_error + 'g terminal" where
  "TResize G t cols rows =
     (case gResize G (gterm t) cols rows of
        Inl e \<Rightarrow> Inl e
      | Inr g \<Rightarrow> Inr (t\<lparr>gterm := g, writtenRows := (if writtenRows t > rows then rows else writtenRows t)\<rparr>))"

section \<open>Snapshots\<close>

definition csi :: "string \<Rightarrow> bytes" where "csi s = 0x1B # 0x5B # str s"

text \<open>\<open>"\x1b[%d;%dH"\<close> of the saved cursor; the additions are those of \<open>uint16\<close>.\<close>

definition cursorTo :: "savedCursor \<Rightarrow> bytes" where
  "cursorTo c = csi [] @ decimal (unat (cy c + 1)) @ str '';'' @ decimal (unat (cx c + 1)) @ str ''H''"

definition modeSequence :: "nat \<Rightarrow> bool \<Rightarrow> bytes" where
  "modeSequence m on = csi ''?'' @ decimal m @ (if on then str ''h'' else str ''l'')"

definition modeSequences :: "'g terminal \<Rightarrow> bytes" where
  "modeSequences t = concat (map (\<lambda>m. modeSequence m (modes t m = Some True)) trackedModes)"

definition TSnapshot :: "'g ghostty \<Rightarrow> 'g terminal \<Rightarrow> 'g terminal \<times> (vt_error + bytes)" where
  "TSnapshot G t =
     (let b = SnapshotPrefix @ csi ''0m'';
          t = (if alt t then t\<lparr>gterm := VTWrite G (gterm t) (csi ''?47l'')\<rparr> else t);
          primary = Format G (gterm t);
          t = (if alt t then t\<lparr>gterm := VTWrite G (gterm t) (csi ''?47h'')\<rparr> else t) in
      case primary of
        Inl e \<Rightarrow> (t, Inl e)
      | Inr primary \<Rightarrow>
          let b = b @ primary in
          if alt t then
            let b = (if cok (primarySaved t) then b @ cursorTo (primarySaved t) else b);
                b = b @ csi ''?1049h'' @ csi ''2J'' @ csi ''H'' @ csi ''0m'' in
            case Format G (gterm t) of
              Inl e \<Rightarrow> (t, Inl e)
            | Inr altDump \<Rightarrow> (t, Inr (b @ altDump @ modeSequences t))
          else (t, Inr (b @ modeSequences t)))"

text \<open>\<open>dumpScreen\<close>: making the formatter and its output are one answer of the emulator.\<close>

definition dumpScreen :: "'g ghostty \<Rightarrow> 'g terminal \<Rightarrow> vt_error + bytes" where
  "dumpScreen G t = Format G (gterm t)"

definition DumpScreen :: "'g ghostty \<Rightarrow> 'g terminal \<Rightarrow> vt_error + bytes" where "DumpScreen = dumpScreen"
definition ModeSequences :: "'g terminal \<Rightarrow> bytes" where "ModeSequences = modeSequences"
definition AltScreen :: "'g terminal \<Rightarrow> bool" where "AltScreen t = alt t"
definition WrittenRows :: "'g terminal \<Rightarrow> 16 word" where "WrittenRows t = writtenRows t"

definition DumpPrimaryScreen :: "'g ghostty \<Rightarrow> 'g terminal \<Rightarrow> 'g terminal \<times> (vt_error + bytes)" where
  "DumpPrimaryScreen G t =
     (if \<not> alt t then (t, Format G (gterm t))
      else
        let t = t\<lparr>gterm := VTWrite G (gterm t) (csi ''?47l'')\<rparr>;
            primary = Format G (gterm t);
            t = t\<lparr>gterm := VTWrite G (gterm t) (csi ''?47h'')\<rparr> in
        case primary of
          Inl e \<Rightarrow> (t, Inl e)
        | Inr primary \<Rightarrow> (t, Inr (if cok (primarySaved t) then primary @ cursorTo (primarySaved t) else primary)))"

section \<open>The tracked part of a terminal\<close>

text \<open>What the package follows itself, without libghostty.\<close>

record core =
  kScan :: scanner
  kSeq :: bytes
  kAlt :: bool
  kModes :: "nat \<rightharpoonup> bool"

definition coreOf :: "'g terminal \<Rightarrow> core" where
  "coreOf t = \<lparr>kScan = scan t, kSeq = seqBuf t, kAlt = alt t, kModes = modes t\<rparr>"

type_synonym screen = "bool \<times> (nat \<rightharpoonup> bool)"

definition setMode :: "bool \<Rightarrow> nat \<Rightarrow> screen \<Rightarrow> screen" where
  "setMode on n = (\<lambda>(a, m).
     if n = 1049 \<or> n = 47 \<or> n = 1047 then (on, m)
     else if n \<in> dom m then (a, m(n \<mapsto> on)) else (a, m))"

fun setParams :: "bool \<Rightarrow> bytes list \<Rightarrow> screen \<Rightarrow> screen" where
  "setParams on [] s = s"
| "setParams on (p # ps) s =
     (case parseModeParam p of None \<Rightarrow> setParams on ps s | Some n \<Rightarrow> setParams on ps (setMode on n s))"

definition trackScreen :: "bytes \<Rightarrow> screen \<Rightarrow> screen" where
  "trackScreen s = (\<lambda>(a, m).
     if length s < 2 \<or> s ! 0 \<noteq> 0x1B then (a, m)
     else if length s = 2 \<and> s ! 1 = 0x63 then (False, initialModes)
     else if length s < 5 \<or> s ! 1 \<noteq> 0x5B \<or> s ! 2 \<noteq> 0x3F then (a, m)
     else
       let final = s ! (length s - 1) in
       if final \<noteq> 0x68 \<and> final \<noteq> 0x6C then (a, m)
       else setParams (final = 0x68) (splitByte 0x3B (take (length s - 1 - 3) (drop 3 s))) (a, m))"

definition stepCore :: "core \<Rightarrow> byte \<Rightarrow> core" where
  "stepCore k b =
     (case (if \<not> AtGround (kScan k) \<and> AtGround (step (kScan k) b)
            then trackScreen (nextSeq (AtGround (kScan k)) (kSeq k) b) (kAlt k, kModes k)
            else (kAlt k, kModes k)) of
        (a, m) \<Rightarrow> \<lparr>kScan = step (kScan k) b, kSeq = nextSeq (AtGround (kScan k)) (kSeq k) b,
                    kAlt = a, kModes = m\<rparr>)"

lemma applyMode_core:
  "(alt (applyMode G on t n), modes (applyMode G on t n)) = setMode on n (alt t, modes t) \<and>
   scan (applyMode G on t n) = scan t \<and> seqBuf (applyMode G on t n) = seqBuf t \<and>
   gterm (applyMode G on t n) = gterm t \<and> writtenRows (applyMode G on t n) = writtenRows t"
  by (simp add: applyMode_def setMode_def)

lemma applyParams_core:
  "(alt (applyParams G on ps t), modes (applyParams G on ps t)) = setParams on ps (alt t, modes t) \<and>
   scan (applyParams G on ps t) = scan t \<and> seqBuf (applyParams G on ps t) = seqBuf t \<and>
   gterm (applyParams G on ps t) = gterm t \<and> writtenRows (applyParams G on ps t) = writtenRows t"
proof (induction ps arbitrary: t)
  case (Cons p ps)
  then show ?case using applyMode_core [of G on t]
    by (auto split: option.split)
qed simp

lemma trackSequence_core:
  assumes "trackSequence G t s = (t', sw)"
  shows "(alt t', modes t') = trackScreen s (alt t, modes t) \<and> scan t' = scan t \<and> seqBuf t' = seqBuf t \<and>
    gterm t' = gterm t \<and> writtenRows t' = writtenRows t \<and> sw = (alt t' \<noteq> alt t)"
proof -
  define final where "final = s ! (length s - 1)"
  define ps where "ps = splitByte 0x3B (take (length s - 1 - 3) (drop 3 s))"
  define A where "A \<longleftrightarrow> length s < 2 \<or> s ! 0 \<noteq> 0x1B"
  define B where "B \<longleftrightarrow> length s = 2 \<and> s ! 1 = 0x63"
  define C where "C \<longleftrightarrow> length s < 5 \<or> s ! 1 \<noteq> 0x5B \<or> s ! 2 \<noteq> 0x3F"
  define D where "D \<longleftrightarrow> final \<noteq> 0x68 \<and> final \<noteq> 0x6C"
  note ap = applyParams_core [of G "final = 0x68" ps t]
  have "trackSequence G t s =
     (if A then (t, False) else if B then (resetModes t, alt t) else if C then (t, False)
      else if D then (t, False)
      else (applyParams G (final = 0x68) ps t, alt (applyParams G (final = 0x68) ps t) \<noteq> alt t))"
    by (simp add: trackSequence_def Let_def final_def ps_def A_def B_def C_def D_def)
  moreover have "trackScreen s (alt t, modes t) =
     (if A then (alt t, modes t) else if B then (False, initialModes) else if C then (alt t, modes t)
      else if D then (alt t, modes t)
      else setParams (final = 0x68) ps (alt t, modes t))"
    by (simp add: trackScreen_def Let_def final_def ps_def A_def B_def C_def D_def)
  ultimately show ?thesis using assms ap by (simp add: resetModes_def split: if_splits)
qed

lemma flushTo_frame:
  assumes "flushTo G p t start stop = (t', start')"
  shows "coreOf t' = coreOf t \<and> start' = stop \<and> primarySaved t' = primarySaved t \<and>
    gterm t' = (if start = stop then gterm t else VTWrite G (gterm t) (take (stop - start) (drop start p)))"
  using assms by (auto simp: flushTo_def coreOf_def Let_def split: option.splits if_splits)

text \<open>A stream parser: what libghostty does does not depend on how its input is cut.\<close>

definition streaming :: "'g ghostty \<Rightarrow> bool" where
  "streaming G \<longleftrightarrow> (\<forall>g. VTWrite G g [] = g) \<and>
     (\<forall>g p q. VTWrite G (VTWrite G g p) q = VTWrite G g (p @ q))"

section \<open>The write loop\<close>

text \<open>One round of the loop, whether it stops at a switch or not.\<close>

definition loopBody :: "'g ghostty \<Rightarrow> bytes \<Rightarrow> nat \<Rightarrow> nat \<Rightarrow> int \<Rightarrow> 'g terminal \<Rightarrow>
    'g terminal \<times> nat \<times> int \<times> bool" where
  "loopBody G p i start seqStart t =
     (let b = p ! i;
          wasGround = AtGround (scan t);
          (t, start) = (if wasGround \<and> (b = 0x1B \<or> isControl b) then flushTo G p t start i else (t, start));
          seqStart = (if wasGround \<or> b = 0x1B then int i else seqStart);
          t = noteByte t b;
          sequenceEnded = (\<not> wasGround \<and> AtGround (scan t));
          (t, switched) = (if sequenceEnded then trackSequence G t (seqBuf t) else (t, False));
          (t, start) = (if sequenceEnded \<or> wasGround \<and> isControl b \<and> b \<noteq> 0x1B
                        then flushTo G p t start (i + 1) else (t, start)) in
      (t, start, seqStart, switched))"

lemma flushTo_snd: "snd (flushTo G p t start stop) = stop"
  using flushTo_frame [of G p t start stop] by (cases "flushTo G p t start stop") simp

lemma writeLoop_body:
  assumes "i < length p"
  shows "writeLoop G p stopOn i start q t =
    (case loopBody G p i start q t of (t1, start1, q1, sw) \<Rightarrow>
       if sw \<and> stopOn then (t1, nat (max q1 0), i + 1, True)
       else writeLoop G p stopOn (i + 1) start1 q1 t1)"
  using assms
  by (subst writeLoop.simps) (simp add: loopBody_def Let_def split_beta)

lemma writeLoop_end:
  "\<not> i < length p \<Longrightarrow>
    writeLoop G p stopOn i start q t = (fst (flushTo G p t start (length p)), length p, length p, False)"
  by (subst writeLoop.simps) simp

lemma take_drop_step:
  assumes "start \<le> m" "m \<le> n" "n \<le> length p"
  shows "take (m - start) (drop start p) @ take (n - m) (drop m p) = take (n - start) (drop start p)"
proof -
  have "take (n - start) (drop start p) = take ((m - start) + (n - m)) (drop start p)" using assms by simp
  then show ?thesis using assms by (simp only: take_add drop_drop) simp
qed

lemma loopBody_props:
  assumes "loopBody G p i start q t = (t1, start1, q1, sw)" "i < length p" "start \<le> i"
  shows "coreOf t1 = stepCore (coreOf t) (p ! i)" and "start1 \<le> i + 1" and "sw = (alt t1 \<noteq> alt t)"
    and "sw \<Longrightarrow> start1 = i + 1" and "q \<le> int i \<Longrightarrow> q1 \<le> int i"
    and "streaming G \<Longrightarrow> VTWrite G (gterm t1) (take (i + 1 - start1) (drop start1 p)) =
           VTWrite G (gterm t) (take (i + 1 - start) (drop start p))"
proof -
  define b where "b = p ! i"
  define g where "g = AtGround (scan t)"
  obtain ta sa where a: "(if g \<and> (b = 0x1B \<or> isControl b) then flushTo G p t start i else (t, start)) = (ta, sa)"
    by fastforce
  define tb where "tb = noteByte ta b"
  define se where "se \<longleftrightarrow> \<not> g \<and> AtGround (scan tb)"
  obtain tc swc where c: "(if se then trackSequence G tb (seqBuf tb) else (tb, False)) = (tc, swc)"
    by fastforce
  obtain td sd where d: "(if se \<or> g \<and> isControl b \<and> b \<noteq> 0x1B then flushTo G p tc sa (i + 1) else (tc, sa)) = (td, sd)"
    by fastforce
  have r: "t1 = td" "start1 = sd" "sw = swc" "q1 = (if g \<or> b = 0x1B then int i else q)"
    using assms(1) a c [unfolded tb_def] d
    by (simp_all add: loopBody_def Let_def b_def [symmetric] g_def [symmetric] se_def [symmetric, unfolded tb_def])
  have A: "coreOf ta = coreOf t" "sa = start \<or> sa = i"
      "gterm ta = (if sa = start then gterm t else VTWrite G (gterm t) (take (sa - start) (drop start p)))"
    using a flushTo_frame [of G p t start i ta sa] by (auto split: if_splits)
  have sa: "start \<le> sa" "sa \<le> i" using A(2) assms(3) by auto
  have fa: "scan ta = scan t" "seqBuf ta = seqBuf t" "alt ta = alt t" "modes ta = modes t"
    using A(1) by (simp_all add: coreOf_def)
  have B: "scan tb = step (scan t) b" "alt tb = alt t" "modes tb = modes t" "gterm tb = gterm ta"
      "seqBuf tb = nextSeq g (seqBuf t) b"
    by (simp_all add: tb_def noteByte_def fa g_def)
  have C: "coreOf tc = stepCore (coreOf t) b" "gterm tc = gterm ta" "swc = (alt tc \<noteq> alt t)"
  proof -
    have S: "stepCore (coreOf t) b =
        (case if se then trackScreen (seqBuf tb) (alt t, modes t) else (alt t, modes t) of
           (a, m) \<Rightarrow> \<lparr>kScan = scan tb, kSeq = seqBuf tb, kAlt = a, kModes = m\<rparr>)"
      by (simp add: stepCore_def coreOf_def B(1,5) se_def g_def)
    have T: "(alt tc, modes tc) = (if se then trackScreen (seqBuf tb) (alt t, modes t) else (alt t, modes t)) \<and>
        scan tc = scan tb \<and> seqBuf tc = seqBuf tb \<and> gterm tc = gterm tb \<and> swc = (alt tc \<noteq> alt t)"
      using c trackSequence_core [of G tb "seqBuf tb" tc swc] B(2,3) by (cases se) auto
    obtain a m where am: "(if se then trackScreen (seqBuf tb) (alt t, modes t) else (alt t, modes t)) = (a, m)"
      by (rule prod.exhaust)
    show "coreOf tc = stepCore (coreOf t) b" using T unfolding S am by (simp add: coreOf_def)
    show "gterm tc = gterm ta" "swc = (alt tc \<noteq> alt t)" using T B(4) by simp_all
  qed
  have swse: "swc \<Longrightarrow> se" using c by (auto split: if_splits)
  have D: "coreOf td = coreOf tc" "sd = sa \<or> sd = i + 1" "se \<Longrightarrow> sd = i + 1"
      "gterm td = (if sd = sa then gterm tc else VTWrite G (gterm tc) (take (sd - sa) (drop sa p)))"
    using d flushTo_frame [of G p tc sa "i + 1" td sd] sa(2) by (auto split: if_splits)
  have sd: "sa \<le> sd" "sd \<le> i + 1" using D(2) sa by auto
  have altd: "alt td = alt tc" using D(1) by (simp add: coreOf_def)
  show "coreOf t1 = stepCore (coreOf t) (p ! i)" using C(1) D(1) r(1) by (simp add: b_def)
  show "start1 \<le> i + 1" using sd(2) r(2) by simp
  show "sw = (alt t1 \<noteq> alt t)" using C(3) r altd by simp
  show "sw \<Longrightarrow> start1 = i + 1" using swse D(3) r by simp
  show "q \<le> int i \<Longrightarrow> q1 \<le> int i" using r(4) by simp
  assume st: "streaming G"
  have w: "VTWrite G (VTWrite G g x) y = VTWrite G g (x @ y)" "VTWrite G g [] = g" for g x y
    using st by (simp_all add: streaming_def)
  have ga: "gterm ta = VTWrite G (gterm t) (take (sa - start) (drop start p))" using A(3) w(2) by simp
  have gd: "gterm td = VTWrite G (gterm ta) (take (sd - sa) (drop sa p))" using D(4) C(2) w(2) by simp
  have "VTWrite G (gterm td) (take (i + 1 - sd) (drop sd p)) =
      VTWrite G (gterm ta) (take (i + 1 - sa) (drop sa p))"
    using gd w(1) take_drop_step [OF sd, of p] assms(2) by simp
  also have "\<dots> = VTWrite G (gterm t) (take (i + 1 - start) (drop start p))"
    using ga w(1) take_drop_step [OF sa(1), of "i + 1" p] sa(2) assms(2) by simp
  finally show "VTWrite G (gterm t1) (take (i + 1 - start1) (drop start1 p)) =
           VTWrite G (gterm t) (take (i + 1 - start) (drop start p))" using r by simp
qed

lemma writeLoop_plain:
  assumes "i \<le> length p" "start \<le> i"
  shows "coreOf (fst (writeLoop G p False i start q t)) = foldl stepCore (coreOf t) (drop i p) \<and>
    (streaming G \<longrightarrow> gterm (fst (writeLoop G p False i start q t)) = VTWrite G (gterm t) (drop start p))"
  using assms
proof (induction "length p - i" arbitrary: i start q t)
  case 0
  then have i: "i = length p" by simp
  obtain t' s' where f: "flushTo G p t start (length p) = (t', s')" by fastforce
  show ?case using flushTo_frame [OF f] f i by (auto simp: writeLoop_end streaming_def)
next
  case (Suc d)
  then have i: "i < length p" by simp
  obtain t1 start1 q1 sw where b: "loopBody G p i start q t = (t1, start1, q1, sw)" by (metis prod_cases4)
  note B = loopBody_props [OF b i Suc.prems(2)]
  have d: "d = length p - (i + 1)" "i + 1 \<le> length p" using Suc.hyps(2) by simp_all
  have w: "writeLoop G p False i start q t = writeLoop G p False (i + 1) start1 q1 t1"
    by (simp add: writeLoop_body [OF i] b)
  have "gterm (fst (writeLoop G p False i start q t)) = VTWrite G (gterm t) (drop start p)" if st: "streaming G"
  proof -
    have v: "VTWrite G g (x @ y) = VTWrite G (VTWrite G g x) y" for g x y
      using st by (simp add: streaming_def)
    have s: "drop s p = take (i + 1 - s) (drop s p) @ drop (i + 1) p" if "s \<le> i + 1" for s
      using take_drop_step [OF that d(2), of p] d(2) by simp
    have "gterm (fst (writeLoop G p False i start q t)) = VTWrite G (gterm t1) (drop start1 p)"
      using Suc.hyps(1) [OF d B(2)] st unfolding w by blast
    also have "\<dots> = VTWrite G (VTWrite G (gterm t1) (take (i + 1 - start1) (drop start1 p))) (drop (i + 1) p)"
      by (subst s [OF B(2)]) (rule v)
    also have "\<dots> = VTWrite G (VTWrite G (gterm t) (take (i + 1 - start) (drop start p))) (drop (i + 1) p)"
      unfolding B(6) [OF st] ..
    also have "\<dots> = VTWrite G (gterm t) (drop start p)"
      using s [of start] Suc.prems(2) v by (metis trans_le_add1)
    finally show ?thesis .
  qed
  then show ?case using Suc.hyps(1) [OF d B(2)] B(1) unfolding w
    by (simp add: Cons_nth_drop_Suc [OF i, symmetric])
qed

lemma TWrite_core: "coreOf (TWrite G t p) = foldl stepCore (coreOf t) p"
  using writeLoop_plain [of 0 p 0 G "-1" t] by (simp add: TWrite_def writeTerminal_def)

lemma TWrite_term: "streaming G \<Longrightarrow> gterm (TWrite G t p) = VTWrite G (gterm t) p"
  using writeLoop_plain [of 0 p 0 G "-1" t] by (simp add: TWrite_def writeTerminal_def)

text \<open>
  C33. What a terminal knows does not depend on how the output reaches it: writing two pieces one
  after the other leaves the emulator, the scanner, the sequence in progress, the active screen
  and the modes as writing them at once, wherever the cut falls.
\<close>

theorem TWrite_chunking:
  assumes "streaming G"
  shows "gterm (TWrite G (TWrite G t p) q) = gterm (TWrite G t (p @ q)) \<and>
    scan (TWrite G (TWrite G t p) q) = scan (TWrite G t (p @ q)) \<and>
    alt (TWrite G (TWrite G t p) q) = alt (TWrite G t (p @ q)) \<and>
    modes (TWrite G (TWrite G t p) q) = modes (TWrite G t (p @ q))"
proof -
  have "coreOf (TWrite G (TWrite G t p) q) = coreOf (TWrite G t (p @ q))" by (simp add: TWrite_core)
  moreover have "gterm (TWrite G (TWrite G t p) q) = gterm (TWrite G t (p @ q))"
    using assms by (simp add: TWrite_term) (simp add: streaming_def)
  ultimately show ?thesis by (simp add: coreOf_def)
qed

section \<open>Stopping at a screen switch\<close>

lemma flushTo_prefix:
  "stop \<le> n \<Longrightarrow> flushTo G (take n p) t start stop = flushTo G p t start stop"
proof -
  assume "stop \<le> n"
  then have "take (stop - start) (drop start (take n p)) = take (stop - start) (drop start p)"
    by (simp add: drop_take min_def)
  then show ?thesis by (simp add: flushTo_def)
qed

lemma loopBody_prefix:
  assumes "i < n" shows "loopBody G (take n p) i start q t = loopBody G p i start q t"
proof -
  have f: "flushTo G (take n p) u s i = flushTo G p u s i"
    "flushTo G (take n p) u s (i + 1) = flushTo G p u s (i + 1)" for u s
    using assms by (simp_all add: flushTo_prefix)
  show ?thesis unfolding loopBody_def f nth_take [OF assms] ..
qed

definition altAfter :: "core \<Rightarrow> bytes \<Rightarrow> bool" where
  "altAfter k p = kAlt (foldl stepCore k p)"

lemma altAfter_simps [simp]: "altAfter k [] = kAlt k" "altAfter k (b # p) = altAfter (stepCore k b) p"
  by (simp_all add: altAfter_def)

lemma kAlt_coreOf [simp]: "kAlt (coreOf t) = alt t"
  by (simp add: coreOf_def)

lemma writeLoop_stop:
  assumes "writeLoop G p True i start q t = (t', before, consumed, sw)"
    and "i \<le> length p" "start \<le> i" "q \<le> int i"
  shows "t' = fst (writeLoop G (take consumed p) False i start q t) \<and>
    before \<le> consumed \<and> i \<le> consumed \<and> consumed \<le> length p \<and> sw = (alt t' \<noteq> alt t) \<and>
    (if sw then i < consumed else consumed = length p) \<and>
    (\<forall>n < consumed - i. altAfter (coreOf t) (take n (drop i p)) = alt t)"
  using assms
proof (induction "length p - i" arbitrary: i start q t)
  case 0
  then have "i = length p" by simp
  moreover obtain u s where "flushTo G p t start (length p) = (u, s)" by fastforce
  ultimately show ?case using 0 flushTo_frame [of G p t start "length p" u s]
    by (auto simp: writeLoop_end coreOf_def)
next
  case (Suc d)
  then have i: "i < length p" by simp
  obtain t1 start1 q1 sw1 where b: "loopBody G p i start q t = (t1, start1, q1, sw1)" by (metis prod_cases4)
  note B = loopBody_props [OF b i Suc.prems(3)]
  have alt1: "kAlt (stepCore (coreOf t) (p ! i)) = alt t1" using B(1) by (metis kAlt_coreOf)
  show ?case
  proof (cases sw1)
    case True
    then have r: "t' = t1" "before = nat (max q1 0)" "consumed = i + 1" "sw"
      using Suc.prems(1) by (simp_all add: writeLoop_body [OF i] b)
    have "writeLoop G (take (i + 1) p) False i start q t = writeLoop G (take (i + 1) p) False (i + 1) (i + 1) q1 t1"
      using i B(4) True b by (simp add: writeLoop_body loopBody_prefix)
    also have "fst \<dots> = t1" using i by (simp add: writeLoop_end flushTo_def)
    finally have "t' = fst (writeLoop G (take consumed p) False i start q t)" using r by simp
    moreover have "nat (max q1 0) \<le> i + 1" using B(5) Suc.prems(4) by simp
    moreover have "sw = (alt t' \<noteq> alt t)" using B(3) True r by simp
    moreover have "\<forall>n < consumed - i. altAfter (coreOf t) (take n (drop i p)) = alt t" using r(3) by simp
    ultimately show ?thesis using r i by simp
  next
    case False
    then have w: "writeLoop G p True (i + 1) start1 q1 t1 = (t', before, consumed, sw)"
      using Suc.prems(1) by (simp add: writeLoop_body [OF i] b)
    have IH: "t' = fst (writeLoop G (take consumed p) False (i + 1) start1 q1 t1) \<and>
        before \<le> consumed \<and> i + 1 \<le> consumed \<and> consumed \<le> length p \<and> sw = (alt t' \<noteq> alt t1) \<and>
        (if sw then i + 1 < consumed else consumed = length p) \<and>
        (\<forall>n < consumed - (i + 1). altAfter (coreOf t1) (take n (drop (i + 1) p)) = alt t1)"
    proof (rule Suc.hyps(1) [OF _ w])
      show "d = length p - (i + 1)" "i + 1 \<le> length p" using Suc.hyps(2) by simp_all
      show "start1 \<le> i + 1" by (rule B(2))
      show "q1 \<le> int (i + 1)" using B(5) [OF Suc.prems(4)] by simp
    qed
    then have IHs: "t' = fst (writeLoop G (take consumed p) False (i + 1) start1 q1 t1)"
        "before \<le> consumed" "i + 1 \<le> consumed" "consumed \<le> length p" "sw = (alt t' \<noteq> alt t1)"
        "if sw then i + 1 < consumed else consumed = length p"
        "\<forall>n < consumed - (i + 1). altAfter (coreOf t1) (take n (drop (i + 1) p)) = alt t1"
      by blast+
    have e: "alt t1 = alt t" using B(3) False by simp
    have W: "writeLoop G (take consumed p) False i start q t = writeLoop G (take consumed p) False (i + 1) start1 q1 t1"
    proof -
      have "i < consumed" "consumed \<le> length p" using IHs(3,4) by simp_all
      then show ?thesis using i b by (subst writeLoop_body) (simp_all add: loopBody_prefix)
    qed
    have "t' = fst (writeLoop G (take consumed p) False i start q t)"
      by (rule trans [OF IHs(1) arg_cong [where f = fst, OF W [symmetric]]])
    moreover have "\<forall>n < consumed - i. altAfter (coreOf t) (take n (drop i p)) = alt t"
    proof (intro allI impI)
      fix n assume n: "n < consumed - i"
      show "altAfter (coreOf t) (take n (drop i p)) = alt t"
      proof (cases n)
        case (Suc m)
        then show ?thesis using n IHs(7) e i B(1)
          by (simp add: Cons_nth_drop_Suc [OF i, symmetric])
      qed simp
    qed
    moreover have "i \<le> consumed" "if sw then i < consumed else consumed = length p"
      using IHs(3,6) by (simp_all split: if_splits)
    ultimately show ?thesis using IHs(2,4,5) unfolding e by blast
  qed
qed

text \<open>
  \<open>WriteUntilScreenSwitch\<close> consumes the input exactly up to the first byte that
  completes a switch: the terminal is as after a plain write of what was consumed, the screen is
  the other one, no shorter prefix switches, and without a switch everything is consumed.
\<close>

theorem WriteUntilScreenSwitch_first:
  assumes "WriteUntilScreenSwitch G t p = (t', before, consumed, switched)"
  shows "t' = TWrite G t (take consumed p) \<and> before \<le> consumed \<and> consumed \<le> length p \<and>
    switched = (alt t' \<noteq> alt t) \<and> (if switched then 0 < consumed else consumed = length p) \<and>
    (\<forall>n < consumed. alt (TWrite G t (take n p)) = alt t)"
proof -
  have a: "alt (TWrite G t r) = altAfter (coreOf t) r" for r
    using TWrite_core [of G t r] by (metis altAfter_def kAlt_coreOf)
  have "t' = fst (writeLoop G (take consumed p) False 0 0 (-1) t) \<and>
    before \<le> consumed \<and> 0 \<le> consumed \<and> consumed \<le> length p \<and> switched = (alt t' \<noteq> alt t) \<and>
    (if switched then 0 < consumed else consumed = length p) \<and>
    (\<forall>n < consumed - 0. altAfter (coreOf t) (take n (drop 0 p)) = alt t)"
    by (rule writeLoop_stop) (use assms in \<open>simp_all add: WriteUntilScreenSwitch_def writeTerminal_def\<close>)
  then show ?thesis unfolding a drop_0 diff_zero unfolding TWrite_def writeTerminal_def by blast
qed

section \<open>Replaying a snapshot\<close>

text \<open>
  \<open>does p f\<close>: on a terminal at ground the bytes \<open>p\<close> end at ground and change the tracked
  screen and modes by \<open>f\<close>.
\<close>

definition screenOf :: "core \<Rightarrow> screen" where "screenOf k = (kAlt k, kModes k)"

definition does :: "bytes \<Rightarrow> (screen \<Rightarrow> screen) \<Rightarrow> bool" where
  "does p f \<longleftrightarrow> (\<forall>k. kScan k = zeroScanner \<longrightarrow>
     kScan (foldl stepCore k p) = zeroScanner \<and> screenOf (foldl stepCore k p) = f (screenOf k))"

lemma does_append: "does p f \<Longrightarrow> does q g \<Longrightarrow> does (p @ q) (g \<circ> f)"
  by (simp add: does_def)

lemma does_Nil: "does [] id"
  by (simp add: does_def)

text \<open>What the formatter emits: text, attributes and cursor movement, but no mode changes.\<close>

definition neutral :: "bytes \<Rightarrow> bool" where "neutral p \<longleftrightarrow> does p id"

lemma kScan_foldl: "kScan (foldl stepCore k p) = Advance (kScan k) p"
  by (induction p arbitrary: k) (simp_all add: stepCore_def split: prod.split)

text \<open>Inside a sequence nothing is tracked; the bytes since its escape are collected.\<close>

lemma inside_sequence:
  fixes k :: core
  assumes "quiet (kScan k) p" "\<not> AtGround (kScan k)" "0x1B \<notin> set p"
    "length (kSeq k) + length p \<le> maxTrackedSequence"
  shows "screenOf (foldl stepCore k p) = screenOf k \<and> kSeq (foldl stepCore k p) = kSeq k @ p"
  using assms
proof (induction p arbitrary: k)
  case (Cons b p)
  have s: "screenOf (stepCore k b) = screenOf k" "kSeq (stepCore k b) = kSeq k @ [b]"
    "kScan (stepCore k b) = step (kScan k) b"
    using Cons.prems by (auto simp: stepCore_def screenOf_def nextSeq_def)
  show ?case using Cons.IH [of "stepCore k b"] Cons.prems s by simp
qed simp

lemma does_sequence:
  assumes "tokenBytes t" "t = 0x1B # p @ [f]" "0x1B \<notin> set (p @ [f])" "length t \<le> maxTrackedSequence"
  shows "does t (trackScreen t)"
  unfolding does_def
proof (intro allI impI conjI)
  fix k :: core assume k: "kScan k = zeroScanner"
  have q: "quiet zeroScanner (0x1B # p)" "AtGround (Advance zeroScanner t)"
    using assms(1,2) by (simp_all add: tokenBytes_def butlast_append)
  then show "kScan (foldl stepCore k t) = zeroScanner" by (simp add: kScan_foldl k AtGround_iff)
  define k1 where "k1 = stepCore k 0x1B"
  have k1: "kScan k1 = step zeroScanner 0x1B" "kSeq k1 = [0x1B]" "screenOf k1 = screenOf k"
    using k by (simp_all add: k1_def stepCore_def nextSeq_def maxTrackedSequence_def screenOf_def)
  define k2 where "k2 = foldl stepCore k1 p"
  have k2: "screenOf k2 = screenOf k" "kSeq k2 = 0x1B # p"
    using inside_sequence [of k1 p] k1 q(1) assms(2-4) by (auto simp: k2_def)
  have sc: "kScan k2 = Advance zeroScanner (0x1B # p)" by (simp add: k2_def kScan_foldl k1)
  have "\<not> AtGround (kScan k2)"
    unfolding sc using quiet_take [OF q(1), of "length (0x1B # p)"] by simp
  moreover have "AtGround (step (kScan k2) f)" unfolding sc using q(2) assms(2) by simp
  ultimately have "screenOf (stepCore k2 f) = trackScreen t (screenOf k)"
    using k2 assms(2-4) by (auto simp: stepCore_def screenOf_def nextSeq_def split: prod.split)
  then show "screenOf (foldl stepCore k t) = trackScreen t (screenOf k)"
    using assms(2) by (simp add: k2_def k1_def)
qed


text \<open>A control sequence without an escape in it, and what it does to screen and modes.\<close>

lemma does_csi:
  assumes "\<forall>b\<in>set p. 0x20 \<le> b \<and> b \<le> 0x3F" "0x40 \<le> f" "f \<le> 0x7E" "length p \<le> 61"
  shows "does (0x1B # 0x5B # p @ [f]) (trackScreen (0x1B # 0x5B # p @ [f]))"
proof (rule does_sequence [where p = "0x5B # p"])
  show "tokenBytes (0x1B # 0x5B # p @ [f])" using tokenBytes_render [of "CsiSeq p f"] assms(1-3) by simp
  have "\<not> (0x20 \<le> (0x1B::byte))" "\<not> (0x40 \<le> (0x1B::byte))" by simp_all
  then show "0x1B \<notin> set ((0x5B # p) @ [f])" using assms(1,2) by auto
  show "length (0x1B # 0x5B # p @ [f]) \<le> maxTrackedSequence" using assms(4) by (simp add: maxTrackedSequence_def)
qed simp

lemma does_other_csi:
  assumes "\<forall>b\<in>set p. 0x20 \<le> b \<and> b \<le> 0x3F" "0x40 \<le> f" "f \<le> 0x7E" "length p \<le> 61"
    "f \<noteq> 0x68 \<and> f \<noteq> 0x6C"
  shows "does (0x1B # 0x5B # p @ [f]) id"
proof -
  have "trackScreen (0x1B # 0x5B # p @ [f]) = id" using assms(5) by (auto simp: trackScreen_def nth_append)
  then show ?thesis using does_csi [OF assms(1-4)] by simp
qed

lemma does_mode_csi:
  assumes "\<forall>b\<in>set p. 0x30 \<le> b \<and> b \<le> 0x39" "length p \<le> 5" "p \<noteq> []" "parseModeParam p = Some n"
  shows "does (0x1B # 0x5B # 0x3F # p @ [if on then 0x68 else 0x6C]) (setMode on n)"
proof -
  have sp: "splitByte 0x3B q = [q]" if "set q \<subseteq> set p" for q using that
    by (induction q) (use assms(1) in auto)
  have "\<forall>b\<in>set (0x3F # p). 0x20 \<le> b \<and> b \<le> 0x3F"
    using assms(1) by (auto intro: order.trans [of _ "0x30"] order.trans [of _ "0x39"])
  then have "does (0x1B # 0x5B # (0x3F # p) @ [if on then 0x68 else 0x6C])
      (trackScreen (0x1B # 0x5B # (0x3F # p) @ [if on then 0x68 else 0x6C]))"
    by (rule does_csi) (use assms(2) in auto)
  moreover have "trackScreen (0x1B # 0x5B # (0x3F # p) @ [if on then 0x68 else 0x6C]) = setMode on n"
    using sp [of p] assms(3,4) by (auto simp: trackScreen_def nth_append fun_eq_iff)
  ultimately show ?thesis by simp
qed

lemma decimal_digits: "b \<in> set (decimal n) \<Longrightarrow> 0x30 \<le> b \<and> b \<le> 0x39"
proof (induction n rule: decimal.induct)
  case (1 n)
  have d: "(0x30 :: byte) \<le> of_nat (48 + m) \<and> of_nat (48 + m) \<le> (0x39 :: byte)" if "m < 10" for m
    using that by (simp add: word_le_nat_alt unat_of_nat del: of_nat_add)
  show ?case
  proof (cases "n < 10")
    case True
    then show ?thesis using 1 d [OF True] by (subst (asm) (2) decimal.simps) (simp del: of_nat_add)
  next
    case False
    then show ?thesis using 1 d [of "n mod 10"] by (subst (asm) (2) decimal.simps) (auto simp del: of_nat_add)
  qed
qed

lemma length_decimal: "n < 10 ^ Suc k \<Longrightarrow> length (decimal n) \<le> Suc k"
proof (induction k arbitrary: n)
  case 0
  then show ?case by (simp add: decimal.simps)
next
  case (Suc k)
  then have "n div 10 < 10 ^ Suc k" by (simp add: less_mult_imp_div_less mult.commute)
  from Suc.IH [OF this] show ?case by (subst decimal.simps) simp
qed

lemma does_cursorTo: "does (cursorTo c) id"
proof -
  define x where "x = unat (cx c + 1)"
  define y where "y = unat (cy c + 1)"
  have l: "length (decimal x) \<le> Suc 4" "length (decimal y) \<le> Suc 4"
    using unsigned_less [of "cx c + 1", where ?'a = nat] unsigned_less [of "cy c + 1", where ?'a = nat]
    by (intro length_decimal; simp add: x_def y_def)+
  have "0x20 \<le> b \<and> b \<le> 0x3F" if "(0x30::byte) \<le> b \<and> b \<le> 0x3B" for b
    using that by (auto intro: order.trans [of _ "0x30"] order.trans [of _ "0x3B"])
  moreover have "b \<le> 0x39 \<Longrightarrow> b \<le> (0x3B :: byte)" for b by (rule order.trans [of _ "0x39"]) simp_all
  ultimately have "\<forall>b\<in>set (decimal y @ 0x3B # decimal x). 0x20 \<le> b \<and> b \<le> 0x3F"
    using decimal_digits by auto
  then have "does (0x1B # 0x5B # (decimal y @ 0x3B # decimal x) @ [0x48]) id"
    by (rule does_other_csi) (use l in auto)
  then show ?thesis by (simp add: cursorTo_def csi_def x_def y_def)
qed

lemma trackedModes_decimal:
  "m \<in> set trackedModes \<Longrightarrow>
    parseModeParam (decimal m) = Some m \<and> length (decimal m) \<le> 5 \<and> decimal m \<noteq> [] \<and>
    m \<noteq> 47 \<and> m \<noteq> 1047 \<and> m \<noteq> 1049"
  unfolding trackedModes_def
  by (simp, elim disjE) (simp_all add: decimal.simps [of "numeral k" for k] decimal.simps [of 0] decimal.simps [of "Suc 0"] parseModeParam_def)

lemma does_modeSequence:
  "m \<in> set trackedModes \<Longrightarrow> does (modeSequence m on) (setMode on m)"
  using does_mode_csi [of "decimal m" m on] decimal_digits [of _ m] trackedModes_decimal [of m]
  by (auto simp: modeSequence_def csi_def)

lemma does_modeSequences:
  "set ms \<subseteq> set trackedModes \<Longrightarrow>
    does (concat (map (\<lambda>m. modeSequence m (on m)) ms)) (fold (\<lambda>m. setMode (on m) m) ms)"
  by (induction ms) (auto simp: does_Nil intro!: does_append does_modeSequence)

lemma fold_setMode:
  assumes "set ms \<subseteq> set trackedModes" "dom M = set trackedModes"
  shows "fold (\<lambda>m. setMode (on m) m) ms (a, M) = (a, \<lambda>m. if m \<in> set ms then Some (on m) else M m)"
  using assms
proof (induction ms arbitrary: M)
  case (Cons m ms)
  have "setMode (on m) m (a, M) = (a, M(m \<mapsto> on m))"
    using Cons.prems trackedModes_decimal [of m] by (auto simp: setMode_def)
  moreover have "dom (M(m \<mapsto> on m)) = set trackedModes" using Cons.prems by auto
  ultimately show ?case using Cons by (auto simp: fun_eq_iff)
qed simp

text \<open>The mode table always has exactly the tracked modes.\<close>

lemma dom_initialModes: "dom initialModes = set trackedModes"
  by (auto simp: initialModes_def split: if_splits)

lemma dom_setMode: "dom (snd s) = D \<Longrightarrow> dom (snd (setMode on n s)) = D"
  by (auto simp: setMode_def split: prod.splits)

lemma dom_setParams: "dom (snd s) = D \<Longrightarrow> dom (snd (setParams on ps s)) = D"
  by (induction ps arbitrary: s) (auto simp: dom_setMode split: option.split)

lemma dom_trackScreen: "dom (snd s) = set trackedModes \<Longrightarrow> dom (snd (trackScreen p s)) = set trackedModes"
  by (cases s) (auto simp: trackScreen_def Let_def dom_initialModes dom_setParams)

lemma dom_foldl: "dom (kModes k) = set trackedModes \<Longrightarrow> dom (kModes (foldl stepCore k p)) = set trackedModes"
proof (induction p arbitrary: k)
  case (Cons b p)
  have "dom (kModes (stepCore k b)) = set trackedModes"
    using dom_trackScreen [of "(kAlt k, kModes k)" "nextSeq False (kSeq k) b"] Cons.prems
    by (cases "trackScreen (nextSeq False (kSeq k) b) (kAlt k, kModes k)")
      (simp add: stepCore_def)
  then show ?case using Cons.IH by simp
qed simp

lemma newTerminal_core:
  "newTerminal G c r = Inr t \<Longrightarrow> coreOf t = \<lparr>kScan = zeroScanner, kSeq = [], kAlt = False, kModes = initialModes\<rparr>"
  by (auto simp: newTerminal_def resetModes_def coreOf_def split: sum.splits)

lemma dom_modes_reachable:
  assumes "newTerminal G c r = Inr t" shows "dom (modes (TWrite G t p)) = set trackedModes"
proof -
  have "modes (TWrite G t p) = kModes (foldl stepCore (coreOf t) p)"
    using TWrite_core [of G t p] by (metis coreOf_def core.select_convs(4))
  then show ?thesis using dom_foldl [of "coreOf t" p] newTerminal_core [OF assms] by (simp add: dom_initialModes)
qed


lemma does_prefix: "does (SnapshotPrefix @ csi ''0m'') (\<lambda>(a, m). (False, m))"
proof -
  have 1: "does (csi ''?1049l'') (setMode False 1049)"
    using does_mode_csi [of "str ''1049''" 1049 False] by (simp add: csi_def parseModeParam_def)
  have 2: "does (csi ''2J'') id" "does (csi ''H'') id" "does (csi ''0m'') id"
    using does_other_csi [of "str ''2''" "0x4A"] does_other_csi [of "[]" "0x48"] does_other_csi [of "str ''0''" "0x6D"]
    by (simp_all add: csi_def)
  have "does (csi ''?1049l'' @ csi ''2J'' @ csi ''H'' @ csi ''0m'') (setMode False 1049)"
    using does_append [OF 1 does_append [OF 2(1) does_append [OF 2(2,3)]]] by simp
  then show ?thesis by (simp add: SnapshotPrefix_def csi_def setMode_def split_def)
qed

lemma does_enterAlt: "does (csi ''?1049h'' @ csi ''2J'' @ csi ''H'' @ csi ''0m'') (\<lambda>(a, m). (True, m))"
proof -
  have 1: "does (csi ''?1049h'') (setMode True 1049)"
    using does_mode_csi [of "str ''1049''" 1049 True] by (simp add: csi_def parseModeParam_def)
  have 2: "does (csi ''2J'') id" "does (csi ''H'') id" "does (csi ''0m'') id"
    using does_other_csi [of "str ''2''" "0x4A"] does_other_csi [of "[]" "0x48"] does_other_csi [of "str ''0''" "0x6D"]
    by (simp_all add: csi_def)
  show ?thesis
    using does_append [OF 1 does_append [OF 2(1) does_append [OF 2(2,3)]]] by (simp add: setMode_def split_def)
qed

lemma TSnapshot_core:
  "TSnapshot G t = (t', r) \<Longrightarrow> coreOf t' = coreOf t \<and> writtenRows t' = writtenRows t \<and> primarySaved t' = primarySaved t"
  by (auto simp: TSnapshot_def coreOf_def Let_def split: sum.splits if_splits)

lemma does_TSnapshot:
  assumes "\<And>g d. Format G g = Inr d \<Longrightarrow> neutral d" "TSnapshot G t = (t', Inr s)"
  shows "does s (\<lambda>(a, m). fold (\<lambda>n. setMode (modes t n = Some True) n) trackedModes (alt t, m))"
proof -
  let ?M = "fold (\<lambda>n. setMode (modes t n = Some True) n) trackedModes"
  have ms: "does (modeSequences t) ?M"
    using does_modeSequences [of trackedModes "\<lambda>n. modes t n = Some True"] by (simp add: modeSequences_def)
  show ?thesis
  proof (cases "alt t")
    case False
    then obtain d where d: "Format G (gterm t) = Inr d" "s = SnapshotPrefix @ csi ''0m'' @ d @ modeSequences t"
      using assms(2) by (auto simp: TSnapshot_def Let_def split: sum.splits)
    have "does d id" using assms(1) [OF d(1)] by (simp add: neutral_def)
    from does_append [OF does_prefix does_append [OF this ms]] show ?thesis
      using False by (simp add: d(2) comp_def split_def)
  next
    case True
    define u where "u = t\<lparr>gterm := VTWrite G (VTWrite G (gterm t) (csi ''?47l'')) (csi ''?47h'')\<rparr>"
    define c where "c = (if cok (primarySaved t) then cursorTo (primarySaved t) else [])"
    obtain d e where d: "Format G (VTWrite G (gterm t) (csi ''?47l'')) = Inr d" "Format G (gterm u) = Inr e"
      and s: "s = (SnapshotPrefix @ csi ''0m'') @ d @ c @ (csi ''?1049h'' @ csi ''2J'' @ csi ''H'' @ csi ''0m'') @ e @ modeSequences t"
      using assms(2) True
      by (auto simp: TSnapshot_def Let_def c_def u_def modeSequences_def split: sum.splits if_splits)
    have n: "does d id" "does e id" "does c id"
      using assms(1) d does_cursorTo does_Nil by (auto simp: neutral_def c_def)
    show ?thesis unfolding s
      using does_append [OF does_prefix does_append [OF n(1) does_append [OF n(3)
          does_append [OF does_enterAlt does_append [OF n(2) ms]]]]] True
      by (simp add: comp_def split_def)
  qed
qed

text \<open>
  A snapshot replayed on a terminal in any state it can be in between two sequences leaves
  that terminal on the session's screen with the session's modes, at a sequence boundary, and
  taking it leaves what the session's own terminal tracks untouched. The formatter is only
  assumed to emit text, attributes and cursor movement.
\<close>

theorem Snapshot_replays_modes:
  assumes "\<forall>g d. Format G g = Inr d \<longrightarrow> neutral d"
    and "newTerminal G c r = Inr t0" and "t = TWrite G t0 p"
    and "newTerminal H c' r' = Inr u0" and "u = TWrite H u0 q" and "AtGround (scan u)"
    and "TSnapshot G t = (t', Inr s)"
  shows "alt (TWrite H u s) = alt t \<and> modes (TWrite H u s) = modes t \<and> AtGround (scan (TWrite H u s)) \<and>
    alt t' = alt t \<and> modes t' = modes t \<and> scan t' = scan t"
proof -
  have dt: "dom (modes t) = set trackedModes" "dom (modes u) = set trackedModes"
    using dom_modes_reachable [OF assms(2)] dom_modes_reachable [OF assms(4)] assms(3,5) by simp_all
  have "kScan (coreOf u) = zeroScanner" using assms(6) by (simp add: coreOf_def AtGround_iff)
  then have "kScan (coreOf (TWrite H u s)) = zeroScanner"
    "screenOf (coreOf (TWrite H u s)) = fold (\<lambda>n. setMode (modes t n = Some True) n) trackedModes (alt t, modes u)"
    using does_TSnapshot [OF assms(1) [rule_format] assms(7)] unfolding does_def TWrite_core
    by (auto simp: screenOf_def coreOf_def split_def)
  moreover have "(\<lambda>n. if n \<in> set trackedModes then Some (modes t n = Some True) else modes u n) = modes t"
  proof
    fix n show "(if n \<in> set trackedModes then Some (modes t n = Some True) else modes u n) = modes t n"
      using dt by (cases "modes t n"; cases "n \<in> dom (modes t)"; cases "n \<in> dom (modes u)") (auto simp: domIff)
  qed
  ultimately show ?thesis
    using fold_setMode [of trackedModes "modes u" "\<lambda>n. modes t n = Some True" "alt t"] dt TSnapshot_core [OF assms(7)]
    by (simp add: screenOf_def coreOf_def AtGround_iff)
qed

section \<open>Witnesses\<close>

text \<open>An emulator that only remembers its input, with a formatter that prints nothing.\<close>

definition recorder :: "bytes ghostty" where
  "recorder = \<lparr>VTWrite = (\<lambda>g p. g @ p), CursorX = (\<lambda>g. Some 0), CursorY = (\<lambda>g. Some 0),
     gResize = (\<lambda>g c r. Inr g), Format = (\<lambda>g. Inr []), NewTerminal = (\<lambda>c r. Inr [])\<rparr>"

definition recorderTerminal :: "bytes terminal" where
  "recorderTerminal = resetModes \<lparr>gterm = [], scan = zeroScanner, writtenRows = 0, seqBuf = [],
     alt = False, modes = Map.empty, primarySaved = noCursor\<rparr>"

lemma recorder_streaming: "streaming recorder"
  by (simp add: streaming_def recorder_def)

lemma recorder_neutral: "\<forall>g d. Format recorder g = Inr d \<longrightarrow> neutral d"
  by (simp add: recorder_def neutral_def does_Nil)

lemma recorder_new: "newTerminal recorder 80 24 = Inr recorderTerminal"
  by (simp add: newTerminal_def recorder_def recorderTerminal_def)

lemma TWrite_Nil [simp]: "TWrite G t [] = t"
  by (simp add: TWrite_def writeTerminal_def writeLoop_end flushTo_def)

theorem TWrite_chunking_witness:
  "gterm (TWrite recorder (TWrite recorder recorderTerminal (csi ''?10'')) (str ''49h'')) =
     gterm (TWrite recorder recorderTerminal (csi ''?10'' @ str ''49h'')) \<and>
   scan (TWrite recorder (TWrite recorder recorderTerminal (csi ''?10'')) (str ''49h'')) =
     scan (TWrite recorder recorderTerminal (csi ''?10'' @ str ''49h'')) \<and>
   alt (TWrite recorder (TWrite recorder recorderTerminal (csi ''?10'')) (str ''49h'')) =
     alt (TWrite recorder recorderTerminal (csi ''?10'' @ str ''49h'')) \<and>
   modes (TWrite recorder (TWrite recorder recorderTerminal (csi ''?10'')) (str ''49h'')) =
     modes (TWrite recorder recorderTerminal (csi ''?10'' @ str ''49h''))"
  by (rule TWrite_chunking [OF recorder_streaming])

definition demoSwitch :: "bytes terminal \<times> nat \<times> nat \<times> bool" where
  "demoSwitch = WriteUntilScreenSwitch recorder recorderTerminal (str ''ab'' @ csi ''?1049h'' @ str ''cd'')"

lemma alt_TWrite: "alt (TWrite G t p) = kAlt (foldl stepCore (coreOf t) p)"
  using TWrite_core [of G t p] by (metis kAlt_coreOf)

lemma recorderTerminal_core:
  "coreOf recorderTerminal = \<lparr>kScan = zeroScanner, kSeq = [], kAlt = False, kModes = initialModes\<rparr>"
  by (rule newTerminal_core [OF recorder_new])

theorem WriteUntilScreenSwitch_first_witness:
  "fst demoSwitch = TWrite recorder recorderTerminal (take (fst (snd (snd demoSwitch))) (str ''ab'' @ csi ''?1049h'' @ str ''cd'')) \<and>
   fst (snd demoSwitch) \<le> fst (snd (snd demoSwitch)) \<and>
   fst (snd (snd demoSwitch)) \<le> length (str ''ab'' @ csi ''?1049h'' @ str ''cd'') \<and>
   snd (snd (snd demoSwitch)) = (alt (fst demoSwitch) \<noteq> alt recorderTerminal)"
proof -
  have "WriteUntilScreenSwitch recorder recorderTerminal (str ''ab'' @ csi ''?1049h'' @ str ''cd'') =
    (fst demoSwitch, fst (snd demoSwitch), fst (snd (snd demoSwitch)), snd (snd (snd demoSwitch)))"
    by (simp add: demoSwitch_def)
  from WriteUntilScreenSwitch_first [OF this] show ?thesis by (elim conjE, intro conjI)
qed

theorem Snapshot_replays_modes_witness:
  "alt (TWrite recorder recorderTerminal (SnapshotPrefix @ csi ''0m'' @ modeSequences recorderTerminal)) = alt recorderTerminal \<and>
   modes (TWrite recorder recorderTerminal (SnapshotPrefix @ csi ''0m'' @ modeSequences recorderTerminal)) = modes recorderTerminal"
proof -
  have t: "recorderTerminal = TWrite recorder recorderTerminal []" by simp
  have g: "AtGround (scan recorderTerminal)" "alt recorderTerminal = False"
    by (simp_all add: recorderTerminal_def resetModes_def)
  have "TSnapshot recorder recorderTerminal =
      (recorderTerminal, Inr (SnapshotPrefix @ csi ''0m'' @ modeSequences recorderTerminal))"
    by (simp add: TSnapshot_def g(2) Let_def recorder_def)
  from Snapshot_replays_modes [OF recorder_neutral recorder_new t recorder_new t g(1) this]
  show ?thesis by blast
qed

end
