(* ===== verification/Frame.thy ===== *)
theory Frame
  imports Bgx_Prelude
begin

text \<open>
  \<open>daemon/frame.go\<close>: the tagged, length-prefixed frames that an attach connection carries
  in both directions, and the window-size payload. A writer is a state with a \<open>Write\<close>
  function (\<open>io.Writer\<close>), a reader the bytes still to come together with the error the
  stream ends in (\<open>io.Reader\<close>). Lemmas: what is written is read back, frame by frame and
  whatever follows; a read never returns more than the cap; a size survives its encoding.
\<close>

section \<open>Constants and the header\<close>

type_synonym FrameTag = byte

definition FrameInput :: FrameTag where "FrameInput = 0"
definition FrameOutput :: FrameTag where "FrameOutput = 1"
definition FrameResize :: FrameTag where "FrameResize = 2"
definition FrameDetach :: FrameTag where "FrameDetach = 3"
definition FrameEnded :: FrameTag where "FrameEnded = 4"

lemmas frame_tag_defs = FrameInput_def FrameOutput_def FrameResize_def FrameDetach_def FrameEnded_def

definition maxFrameLen :: "32 word" where
  "maxFrameLen = push_bit 20 16"

definition frameHeaderLen :: nat where
  "frameHeaderLen = 5"

record ResizePayload =
  Rows :: "16 word"
  Cols :: "16 word"

text \<open>\<open>binary.BigEndian\<close>.\<close>

definition PutUint16 :: "16 word \<Rightarrow> bytes" where
  "PutUint16 v = [ucast (drop_bit 8 v), ucast v]"

definition Uint16 :: "byte \<Rightarrow> byte \<Rightarrow> 16 word" where
  "Uint16 b0 b1 = ucast b1 OR push_bit 8 (ucast b0)"

definition PutUint32 :: "32 word \<Rightarrow> bytes" where
  "PutUint32 v = [ucast (drop_bit 24 v), ucast (drop_bit 16 v), ucast (drop_bit 8 v), ucast v]"

definition Uint32 :: "byte \<Rightarrow> byte \<Rightarrow> byte \<Rightarrow> byte \<Rightarrow> 32 word" where
  "Uint32 b0 b1 b2 b3 =
     ucast b3 OR push_bit 8 (ucast b2) OR push_bit 16 (ucast b1) OR push_bit 24 (ucast b0)"

section \<open>Writing and reading frames\<close>

datatype io_error = EOF | ErrUnexpectedEOF | TooLarge "32 word" | IOError string

text \<open>
  \<open>Write\<close> takes the writer's state and the bytes and returns the new state and the error,
  if any. The length is converted to \<open>uint32\<close> as the code does, so it wraps.
\<close>

definition frameHeader :: "FrameTag \<Rightarrow> bytes \<Rightarrow> bytes" where
  "frameHeader tag payload = tag # PutUint32 (of_nat (length payload))"

definition WriteFrame ::
    "('w \<Rightarrow> bytes \<Rightarrow> 'w \<times> io_error option) \<Rightarrow> 'w \<Rightarrow> FrameTag \<Rightarrow> bytes \<Rightarrow> 'w \<times> io_error option" where
  "WriteFrame Write w tag payload =
     (let hdr = frameHeader tag payload in
      case Write w hdr of
        (w, Some err) \<Rightarrow> (w, Some err)
      | (w, None) \<Rightarrow>
          if length payload > 0 then
            (case Write w payload of
               (w, Some err) \<Rightarrow> (w, Some err)
             | (w, None) \<Rightarrow> (w, None))
          else (w, None))"

record reader =
  rest :: bytes
  endErr :: io_error

text \<open>
  \<open>io.ReadFull\<close>: exactly \<open>n\<close> bytes, or the error of the stream, where an end of file
  after a partial read is \<open>ErrUnexpectedEOF\<close>.
\<close>

definition ReadFull :: "reader \<Rightarrow> nat \<Rightarrow> reader \<times> (io_error + bytes)" where
  "ReadFull r n =
     (if n \<le> length (rest r) then (r\<lparr>rest := drop n (rest r)\<rparr>, Inr (take n (rest r)))
      else (r\<lparr>rest := []\<rparr>,
            Inl (if endErr r = EOF \<and> rest r \<noteq> [] then ErrUnexpectedEOF else endErr r)))"

definition ReadFrame :: "reader \<Rightarrow> reader \<times> (io_error + FrameTag \<times> bytes)" where
  "ReadFrame r =
     (case ReadFull r frameHeaderLen of
        (r, Inl err) \<Rightarrow> (r, Inl err)
      | (r, Inr hdr) \<Rightarrow>
          let n = Uint32 (hdr ! 1) (hdr ! 2) (hdr ! 3) (hdr ! 4) in
          if n > maxFrameLen then (r, Inl (TooLarge n))
          else if n = 0 then (r, Inr (hdr ! 0, []))
          else
            case ReadFull r (unat n) of
              (r, Inl err) \<Rightarrow> (r, Inl err)
            | (r, Inr buf) \<Rightarrow> (r, Inr (hdr ! 0, buf)))"

section \<open>Window sizes\<close>

definition EncodeResize :: "16 word \<Rightarrow> 16 word \<Rightarrow> bytes" where
  "EncodeResize rows cols = PutUint16 rows @ PutUint16 cols"

definition DecodeResize :: "bytes \<Rightarrow> ResizePayload option" where
  "DecodeResize b =
     (if length b \<noteq> 4 then None
      else Some \<lparr>Rows = Uint16 (b ! 0) (b ! 1), Cols = Uint16 (b ! 2) (b ! 3)\<rparr>)"

section \<open>Round trips\<close>

lemma Uint16_Put [simp]: "Uint16 (ucast (drop_bit 8 v)) (ucast v) = v"
  unfolding Uint16_def by (rule bit_word_eqI) (auto simp: bit_simps)

lemma byte_bit_ge: "8 \<le> n \<Longrightarrow> \<not> bit (b :: byte) n"
  using bit_imp_le_length [of b n] by auto

lemma Put_Uint16 [simp]: "PutUint16 (Uint16 a b) = [a, b]"
  unfolding Uint16_def PutUint16_def
  by (auto intro!: bit_word_eqI simp: bit_simps byte_bit_ge)

lemma Uint32_Put [simp]:
  "Uint32 (ucast (drop_bit 24 v)) (ucast (drop_bit 16 v)) (ucast (drop_bit 8 v)) (ucast v) = v"
proof (rule bit_word_eqI)
  fix n assume "n < LENGTH(32)"
  then consider "n < 8" | "8 \<le> n" "n < 16" | "16 \<le> n" "n < 24" | "24 \<le> n" "n < 32" by force
  then show "bit (Uint32 (ucast (drop_bit 24 v)) (ucast (drop_bit 16 v)) (ucast (drop_bit 8 v)) (ucast v)) n
    = bit v n"
    by cases (auto simp: Uint32_def bit_simps)
qed

lemma maxFrameLen_eq: "maxFrameLen = 16777216"
  by (simp add: maxFrameLen_def)

lemma unat_len: "n \<le> unat maxFrameLen \<Longrightarrow> unat (of_nat n :: 32 word) = n"
  by (simp add: maxFrameLen_eq unat_of_nat)

lemma length_frameHeader: "length (frameHeader tag p) = frameHeaderLen"
  by (simp add: frameHeader_def PutUint32_def frameHeaderLen_def)

lemma frameHeader_nth:
  "frameHeader tag p ! 0 = tag"
  "Uint32 (frameHeader tag p ! Suc 0) (frameHeader tag p ! 2) (frameHeader tag p ! 3) (frameHeader tag p ! 4)
     = of_nat (length p)"
  by (simp_all add: frameHeader_def PutUint32_def)

text \<open>The bytes of one frame, and a writer that never fails and collects what it is given.\<close>

definition frameBytes :: "FrameTag \<Rightarrow> bytes \<Rightarrow> bytes" where
  "frameBytes tag p = frameHeader tag p @ p"

definition appendWriter :: "bytes \<Rightarrow> bytes \<Rightarrow> bytes \<times> io_error option" where
  "appendWriter w p = (w @ p, None)"

lemma WriteFrame_append: "WriteFrame appendWriter w tag p = (w @ frameBytes tag p, None)"
  by (simp add: WriteFrame_def appendWriter_def frameBytes_def Let_def)

lemma ReadFull_exact: "length p = n \<Longrightarrow> ReadFull \<lparr>rest = p @ q, endErr = e\<rparr> n = (\<lparr>rest = q, endErr = e\<rparr>, Inr p)"
  by (simp add: ReadFull_def)

lemma of_nat_len_0: "n \<le> unat maxFrameLen \<Longrightarrow> (of_nat n :: 32 word) = 0 \<longleftrightarrow> n = 0"
  using unat_len [of n] by (auto simp: unat_eq_zero)

lemma ReadFrame_frameBytes:
  assumes "length p \<le> unat maxFrameLen"
  shows "ReadFrame \<lparr>rest = frameBytes tag p @ q, endErr = e\<rparr> = (\<lparr>rest = q, endErr = e\<rparr>, Inr (tag, p))"
proof -
  have n: "\<not> (of_nat (length p) :: 32 word) > maxFrameLen"
    using assms by (simp add: word_less_nat_alt unat_len)
  show ?thesis
    using n assms ReadFull_exact [OF length_frameHeader, of tag p "p @ q" e]
      ReadFull_exact [of p "length p" q e]
    by (cases "p = []") (simp_all add: ReadFrame_def frameBytes_def frameHeader_nth unat_len of_nat_len_0 Let_def)
qed

text \<open>The loop of both ends: frames are read until the stream errs.\<close>

lemma ReadFrame_Inr_shorter:
  "ReadFrame r = (r', Inr x) \<Longrightarrow> length (rest r') < length (rest r)"
  by (auto simp: ReadFrame_def ReadFull_def frameHeaderLen_def Let_def split: if_splits)

function readFrames :: "reader \<Rightarrow> (FrameTag \<times> bytes) list \<times> io_error" where
  "readFrames r =
     (case ReadFrame r of
        (r', Inl e) \<Rightarrow> ([], e)
      | (r', Inr x) \<Rightarrow> (let (xs, e) = readFrames r' in (x # xs, e)))"
  by pat_completeness auto
termination
  by (relation "measure (\<lambda>r. length (rest r))") (auto dest: ReadFrame_Inr_shorter [OF sym])

declare readFrames.simps [simp del]

lemma readFrames_empty: "readFrames \<lparr>rest = [], endErr = e\<rparr> = ([], e)"
  by (subst readFrames.simps) (auto simp: ReadFrame_def ReadFull_def frameHeaderLen_def)

lemma readFrames_frameBytes:
  assumes "\<forall>(tag, p)\<in>set fs. length p \<le> unat maxFrameLen"
  shows "readFrames \<lparr>rest = concat (map (\<lambda>(tag, p). frameBytes tag p) fs), endErr = e\<rparr> = (fs, e)"
  using assms
proof (induction fs)
  case Nil
  then show ?case by (simp add: readFrames_empty)
next
  case (Cons f fs)
  obtain tag p where f: "f = (tag, p)" by (cases f)
  have "length p \<le> unat maxFrameLen" using Cons.prems f by simp
  from ReadFrame_frameBytes [OF this, of tag "concat (map (\<lambda>(tag, p). frameBytes tag p) fs)" e]
  show ?case using Cons f by (subst readFrames.simps) simp
qed

definition writeFrames :: "(FrameTag \<times> bytes) list \<Rightarrow> bytes" where
  "writeFrames fs = foldl (\<lambda>w (tag, p). fst (WriteFrame appendWriter w tag p)) [] fs"

lemma writeFrames_eq: "writeFrames fs = concat (map (\<lambda>(tag, p). frameBytes tag p) fs)"
proof -
  have "foldl (\<lambda>w (tag, p). fst (WriteFrame appendWriter w tag p)) w fs
      = w @ concat (map (\<lambda>(tag, p). frameBytes tag p) fs)" for w
    by (induction fs arbitrary: w) (auto simp: WriteFrame_append)
  then show ?thesis by (simp add: writeFrames_def)
qed

text \<open>
  C25. A stream of frames is read back as it was written: reading until the stream ends returns
  exactly the frames written, tag and payload, in order, and then the end of file, whatever
  the payloads contain (up to the 16 MiB cap on one payload).
\<close>

theorem frames_roundtrip:
  assumes "\<forall>(tag, p)\<in>set fs. length p \<le> unat maxFrameLen"
  shows "readFrames \<lparr>rest = writeFrames fs, endErr = EOF\<rparr> = (fs, EOF)"
  using readFrames_frameBytes [OF assms] by (simp add: writeFrames_eq)

theorem frames_roundtrip_witness:
  "readFrames \<lparr>rest = writeFrames [(FrameOutput, str ''hi''), (FrameEnded, [])], endErr = EOF\<rparr>
     = ([(FrameOutput, str ''hi''), (FrameEnded, [])], EOF)"
  by (rule frames_roundtrip) (simp add: maxFrameLen_eq)

lemma ReadFrame_oversize:
  assumes "unat maxFrameLen < length p" "length p < 2 ^ 32"
  shows "ReadFrame \<lparr>rest = frameBytes tag p @ q, endErr = e\<rparr>
    = (\<lparr>rest = p @ q, endErr = e\<rparr>, Inl (TooLarge (of_nat (length p))))"
proof -
  have "unat (of_nat (length p) :: 32 word) = length p"
    using assms(2) by (simp add: unat_of_nat)
  then have "(of_nat (length p) :: 32 word) > maxFrameLen"
    using assms(1) by (simp add: word_less_nat_alt)
  then show ?thesis
    using ReadFull_exact [OF length_frameHeader, of tag p "p @ q" e]
    by (simp add: ReadFrame_def frameBytes_def frameHeader_nth Let_def)
qed

text \<open>
  The reader bounds what a peer can make it allocate: a frame that is returned has at most
  \<open>maxFrameLen\<close> payload bytes, and a frame written with more is refused after its header,
  without reading the payload.
\<close>

theorem ReadFrame_cap:
  "(ReadFrame r = (r', Inr (tag, p)) \<longrightarrow> length p \<le> unat maxFrameLen) \<and>
   (unat maxFrameLen < length p \<and> length p < 2 ^ 32 \<longrightarrow>
      ReadFrame \<lparr>rest = fst (WriteFrame appendWriter [] tag p), endErr = e\<rparr>
        = (\<lparr>rest = p, endErr = e\<rparr>, Inl (TooLarge (of_nat (length p)))))"
proof (intro conjI impI)
  assume "ReadFrame r = (r', Inr (tag, p))"
  then show "length p \<le> unat maxFrameLen"
    by (auto simp: ReadFrame_def ReadFull_def Let_def word_less_nat_alt not_less split: if_splits)
next
  assume "unat maxFrameLen < length p \<and> length p < 2 ^ 32"
  then show "ReadFrame \<lparr>rest = fst (WriteFrame appendWriter [] tag p), endErr = e\<rparr>
      = (\<lparr>rest = p, endErr = e\<rparr>, Inl (TooLarge (of_nat (length p))))"
    using ReadFrame_oversize [of p tag "[]" e] by (simp add: WriteFrame_append)
qed

theorem ReadFrame_cap_witness:
  "ReadFrame \<lparr>rest = [1, 0, 0, 0, 1, 7], endErr = EOF\<rparr>
     = (\<lparr>rest = [], endErr = EOF\<rparr>, Inr (FrameOutput, [7])) \<and>
   length [7 :: byte] \<le> unat maxFrameLen \<and>
   ReadFrame \<lparr>rest = fst (WriteFrame appendWriter [] FrameOutput (replicate 16777217 0)), endErr = EOF\<rparr>
     = (\<lparr>rest = replicate 16777217 0, endErr = EOF\<rparr>, Inl (TooLarge (of_nat 16777217)))"
proof -
  have r: "ReadFrame \<lparr>rest = [1, 0, 0, 0, 1, 7], endErr = EOF\<rparr>
     = (\<lparr>rest = [], endErr = EOF\<rparr>, Inr (FrameOutput, [7]))"
    by code_simp
  moreover have "length [7 :: byte] \<le> unat maxFrameLen"
    using ReadFrame_cap [of "\<lparr>rest = [1, 0, 0, 0, 1, 7], endErr = EOF\<rparr>"
        "\<lparr>rest = [], endErr = EOF\<rparr>" FrameOutput "[7]"] r by blast
  moreover have "unat maxFrameLen < length (replicate 16777217 (0 :: byte)) \<and>
      length (replicate 16777217 (0 :: byte)) < 2 ^ 32"
    by (simp add: maxFrameLen_eq)
  ultimately show ?thesis
    using ReadFrame_cap [of _ _ FrameOutput "replicate 16777217 0" EOF]
    by (metis length_replicate)
qed

lemma Decode_Encode: "DecodeResize (EncodeResize r c) = Some \<lparr>Rows = r, Cols = c\<rparr>"
  by (simp add: DecodeResize_def EncodeResize_def PutUint16_def)

lemma length4: "length b = 4 \<Longrightarrow> b = [b ! 0, b ! 1, b ! 2, b ! 3]"
  by (auto simp: numeral_eq_Suc length_Suc_conv)

text \<open>
  A window size survives its encoding, and \<open>DecodeResize\<close> accepts nothing else: a payload
  decodes to a size exactly when it is that size's encoding (so an empty payload, the request
  for a size, decodes to none).
\<close>

theorem DecodeResize_iff:
  "DecodeResize b = Some rp \<longleftrightarrow> b = EncodeResize (Rows rp) (Cols rp)"
proof
  assume a: "DecodeResize b = Some rp"
  then have l: "length b = 4" by (simp add: DecodeResize_def split: if_splits)
  then have "rp = \<lparr>Rows = Uint16 (b ! 0) (b ! 1), Cols = Uint16 (b ! 2) (b ! 3)\<rparr>"
    using a by (simp add: DecodeResize_def)
  then show "b = EncodeResize (Rows rp) (Cols rp)"
    using length4 [OF l] by (simp add: EncodeResize_def)
qed (simp add: Decode_Encode)

end
