(* ===== verification/Backend.thy ===== *)
theory Backend
  imports Bgx_Prelude
begin

text \<open>
  \<open>scrollback/backend.go\<close>: where a store keeps its chunks. The Go interface
  \<open>backend\<close> is the datatype of its two implementations, a handle (\<open>any\<close> in the code)
  the datatype of the two dynamic types the implementations return. The file system behind the
  disk backend is a map from paths to contents and a script of coming faults: each call consumes
  one entry, \<open>Some k\<close> fails it (a write after \<open>k\<close> bytes), \<open>None\<close> and the empty
  script let it run. The locale \<open>chunk_backend\<close> is the contract the store relies on; both
  implementations are shown to keep it by one interpretation.
\<close>

section \<open>Handles, errors and the file system\<close>

datatype sb_error = OSError string | NotExist bytes | HandleType | UnknownStorage string | ZstdError

datatype chunkHandle = HBytes bytes | HPath bytes

record diskBackend =
  dir :: bytes
  seq :: nat
  files :: "bytes \<rightharpoonup> bytes"
  faults :: "nat option list"

definition nextFault :: "diskBackend \<Rightarrow> diskBackend \<times> nat option" where
  "nextFault d =
     (case faults d of [] \<Rightarrow> (d, None) | f # fs \<Rightarrow> (d\<lparr>faults := fs\<rparr>, f))"

definition osWriteFile :: "diskBackend \<Rightarrow> bytes \<Rightarrow> bytes \<Rightarrow> diskBackend \<times> sb_error option" where
  "osWriteFile d name data =
     (case nextFault d of
        (d, Some k) \<Rightarrow> (d\<lparr>files := (files d)(name \<mapsto> take k data)\<rparr>, Some (OSError ''write''))
      | (d, None) \<Rightarrow> (d\<lparr>files := (files d)(name \<mapsto> data)\<rparr>, None))"

definition osReadFile :: "diskBackend \<Rightarrow> bytes \<Rightarrow> diskBackend \<times> (sb_error + bytes)" where
  "osReadFile d name =
     (case nextFault d of
        (d, Some k) \<Rightarrow> (d, Inl (OSError ''read''))
      | (d, None) \<Rightarrow>
          (case files d name of None \<Rightarrow> (d, Inl (NotExist name)) | Some data \<Rightarrow> (d, Inr data)))"

definition osRemove :: "diskBackend \<Rightarrow> bytes \<Rightarrow> diskBackend \<times> sb_error option" where
  "osRemove d name =
     (case nextFault d of
        (d, Some k) \<Rightarrow> (d, Some (OSError ''remove''))
      | (d, None) \<Rightarrow>
          (if name \<in> dom (files d) then (d\<lparr>files := (files d)(name := None)\<rparr>, None)
           else (d, Some (NotExist name))))"

section \<open>The two backends\<close>

text \<open>\<open>filepath.Join(b.dir, fmt.Sprintf("chunk-%d", b.seq))\<close>\<close>

definition chunkName :: "bytes \<Rightarrow> nat \<Rightarrow> bytes" where
  "chunkName d n = d @ str ''/chunk-'' @ decimal n"

definition diskPut :: "diskBackend \<Rightarrow> bytes \<Rightarrow> diskBackend \<times> (sb_error + chunkHandle)" where
  "diskPut b data =
     (let name = chunkName (dir b) (seq b) in
      case osWriteFile b name data of
        (b, Some err) \<Rightarrow> (b, Inl err)
      | (b, None) \<Rightarrow> (b\<lparr>seq := seq b + 1\<rparr>, Inr (HPath name)))"

definition diskGet :: "diskBackend \<Rightarrow> chunkHandle \<Rightarrow> diskBackend \<times> (sb_error + bytes)" where
  "diskGet b h =
     (case h of HPath path \<Rightarrow> osReadFile b path | HBytes _ \<Rightarrow> (b, Inl HandleType))"

definition diskDrop :: "diskBackend \<Rightarrow> chunkHandle \<Rightarrow> diskBackend \<times> sb_error option" where
  "diskDrop b h =
     (case h of HPath path \<Rightarrow> osRemove b path | HBytes _ \<Rightarrow> (b, Some HandleType))"

text \<open>\<open>os.RemoveAll(b.dir)\<close>: every file the directory holds goes.\<close>

definition diskClose :: "diskBackend \<Rightarrow> diskBackend \<times> sb_error option" where
  "diskClose b =
     (case nextFault b of
        (b, Some k) \<Rightarrow> (b, Some (OSError ''removeall''))
      | (b, None) \<Rightarrow>
          (b\<lparr>files := (\<lambda>p. if HasPrefix p (dir b @ str ''/'') then None else files b p)\<rparr>, None))"

definition memoryGet :: "chunkHandle \<Rightarrow> sb_error + bytes" where
  "memoryGet h = (case h of HBytes data \<Rightarrow> Inr data | HPath _ \<Rightarrow> Inl HandleType)"

datatype backend = Memory | Disk diskBackend

definition put :: "backend \<Rightarrow> bytes \<Rightarrow> backend \<times> (sb_error + chunkHandle)" where
  "put b data =
     (case b of
        Memory \<Rightarrow> (Memory, Inr (HBytes data))
      | Disk d \<Rightarrow> (case diskPut d data of (d, r) \<Rightarrow> (Disk d, r)))"

definition get :: "backend \<Rightarrow> chunkHandle \<Rightarrow> backend \<times> (sb_error + bytes)" where
  "get b h =
     (case b of
        Memory \<Rightarrow> (Memory, memoryGet h)
      | Disk d \<Rightarrow> (case diskGet d h of (d, r) \<Rightarrow> (Disk d, r)))"

definition dropChunk :: "backend \<Rightarrow> chunkHandle \<Rightarrow> backend \<times> sb_error option" where
  "dropChunk b h =
     (case b of
        Memory \<Rightarrow> (Memory, None)
      | Disk d \<Rightarrow> (case diskDrop d h of (d, r) \<Rightarrow> (Disk d, r)))"

definition closeBackend :: "backend \<Rightarrow> backend \<times> sb_error option" where
  "closeBackend b =
     (case b of
        Memory \<Rightarrow> (Memory, None)
      | Disk d \<Rightarrow> (case diskClose d of (d, r) \<Rightarrow> (Disk d, r)))"

section \<open>Configuration\<close>

record Config =
  HeadSize :: int
  TailSize :: int
  CompressionBacklogSize :: int
  Storage :: string
  StoragePath :: bytes

text \<open>
  \<open>os.MkdirAll\<close> and \<open>os.MkdirTemp\<close> are calls into the operating system: what they
  answer is an argument, as is \<open>os.TempDir()\<close>.
\<close>

definition newDiskBackend ::
    "bytes \<Rightarrow> (bytes \<Rightarrow> sb_error option) \<Rightarrow> (bytes \<Rightarrow> sb_error + bytes) \<Rightarrow> (bytes \<rightharpoonup> bytes) \<Rightarrow> nat option list \<Rightarrow>
     bytes \<Rightarrow> sb_error + diskBackend" where
  "newDiskBackend tempDir mkdirAll mkdirTemp fs script path =
     (let base = (if path = [] then tempDir else path) in
      case mkdirAll base of
        Some err \<Rightarrow> Inl err
      | None \<Rightarrow>
          (case mkdirTemp base of
             Inl err \<Rightarrow> Inl err
           | Inr d \<Rightarrow> Inr \<lparr>dir = d, seq = 0, files = fs, faults = script\<rparr>))"

text \<open>The choice \<open>New\<close> makes of the backend.\<close>

definition selectBackend :: "(bytes \<Rightarrow> sb_error + diskBackend) \<Rightarrow> Config \<Rightarrow> sb_error + backend" where
  "selectBackend newDisk cfg =
     (if Storage cfg = '''' \<or> Storage cfg = ''memory'' then Inr Memory
      else if Storage cfg = ''disk'' then
        (case newDisk (StoragePath cfg) of Inl err \<Rightarrow> Inl err | Inr db \<Rightarrow> Inr (Disk db))
      else Inl (UnknownStorage (Storage cfg)))"

section \<open>The contract\<close>

text \<open>
  \<open>holds b hs\<close>: the backend holds, for every handle of \<open>hs\<close>, the payload paired with it.
  Payloads survive every operation on other chunks, failed operations included.
\<close>

locale chunk_backend =
  fixes put' :: "'b \<Rightarrow> bytes \<Rightarrow> 'b \<times> ('e + 'h)"
    and get' :: "'b \<Rightarrow> 'h \<Rightarrow> 'b \<times> ('e + bytes)"
    and drop' :: "'b \<Rightarrow> 'h \<Rightarrow> 'b \<times> 'e option"
    and holds :: "'b \<Rightarrow> ('h \<times> bytes) list \<Rightarrow> bool"
  assumes put_ok: "holds b hs \<Longrightarrow> put' b d = (b', Inr h) \<Longrightarrow> holds b' (hs @ [(h, d)])"
    and put_err: "holds b hs \<Longrightarrow> put' b d = (b', Inl e) \<Longrightarrow> holds b' hs"
    and get_holds: "holds b hs \<Longrightarrow> get' b h = (b', r) \<Longrightarrow> holds b' hs"
    and get_ok: "holds b hs \<Longrightarrow> (h, d) \<in> set hs \<Longrightarrow> get' b h = (b', Inr x) \<Longrightarrow> x = d"
    and drop_holds: "holds b (hs @ (h, d) # ks) \<Longrightarrow> drop' b h = (b', er) \<Longrightarrow> holds b' (hs @ ks)"

lemma unat_digit: "n < 10 \<Longrightarrow> unat (of_nat (48 + n) :: byte) = 48 + n"
  by (simp add: unat_of_nat del: of_nat_add)

lemma undecimal: "foldl (\<lambda>v b. v * 10 + (unat b - 48)) 0 (decimal n) = n"
proof (induction n rule: decimal.induct)
  case (1 n)
  show ?case
  proof (cases "n < 10")
    case True
    then show ?thesis using unat_digit [of n] by (subst decimal.simps) (simp del: of_nat_add)
  next
    case False
    then show ?thesis using 1 unat_digit [of "n mod 10"]
      by (subst decimal.simps) (simp del: of_nat_add)
  qed
qed

lemma decimal_inj: "decimal m = decimal n \<longleftrightarrow> m = n"
  by (metis undecimal)

lemma chunkName_inj: "chunkName d m = chunkName d n \<longleftrightarrow> m = n"
  by (simp add: chunkName_def decimal_inj)

text \<open>The payloads each backend keeps.\<close>

definition diskHolds :: "diskBackend \<Rightarrow> (chunkHandle \<times> bytes) list \<Rightarrow> bool" where
  "diskHolds b hs \<longleftrightarrow> distinct (map fst hs) \<and>
     (\<forall>(h, d)\<in>set hs. \<exists>n < seq b. h = HPath (chunkName (dir b) n) \<and> files b (chunkName (dir b) n) = Some d)"

definition holds :: "backend \<Rightarrow> (chunkHandle \<times> bytes) list \<Rightarrow> bool" where
  "holds b hs = (case b of Memory \<Rightarrow> \<forall>(h, d)\<in>set hs. h = HBytes d | Disk b \<Rightarrow> diskHolds b hs)"

lemma nextFault_frame [frame_simps]:
  "nextFault d = (d', f) \<Longrightarrow> dir d' = dir d \<and> seq d' = seq d \<and> files d' = files d"
  by (auto simp: nextFault_def split: list.splits)

lemma diskHoldsD:
  "diskHolds b hs \<Longrightarrow> (h, d) \<in> set hs \<Longrightarrow>
    \<exists>n < seq b. h = HPath (chunkName (dir b) n) \<and> files b (chunkName (dir b) n) = Some d"
  by (force simp: diskHolds_def)

lemma diskHolds_frame:
  "dir d' = dir d \<Longrightarrow> seq d' = seq d \<Longrightarrow> files d' = files d \<Longrightarrow> diskHolds d' hs = diskHolds d hs"
  by (simp add: diskHolds_def)

lemma diskHolds_write:
  assumes "diskHolds d hs" "dir d' = dir d" "seq d \<le> seq d'"
    "files d' = (files d)(chunkName (dir d) (seq d) \<mapsto> x)"
  shows "diskHolds d' hs"
  unfolding diskHolds_def
proof (intro conjI ballI, goal_cases)
  case (2 hd)
  then obtain n where "n < seq d" "fst hd = HPath (chunkName (dir d) n)"
      "files d (chunkName (dir d) n) = Some (snd hd)"
    using assms(1) by (fastforce simp: diskHolds_def)
  then show ?case using assms by (auto simp: chunkName_inj split_beta intro!: exI [of _ n])
qed (use assms in \<open>simp add: diskHolds_def\<close>)

lemma diskPut_holds:
  assumes "diskHolds b hs" "diskPut b d = (b', r)"
  shows "case r of Inl e \<Rightarrow> diskHolds b' hs | Inr h \<Rightarrow> diskHolds b' (hs @ [(h, d)])"
proof (cases "nextFault b")
  case (Pair c f)
  have c: "dir c = dir b" "seq c = seq b" "files c = files b" using nextFault_frame [OF Pair] by auto
  show ?thesis
  proof (cases f)
    case None
    have new: "HPath (chunkName (dir b) (seq b)) \<notin> fst ` set hs"
    proof
      assume "HPath (chunkName (dir b) (seq b)) \<in> fst ` set hs"
      then obtain n where "n < seq b" "HPath (chunkName (dir b) (seq b)) = HPath (chunkName (dir b) n)"
        using assms(1) by (auto simp: diskHolds_def)
      then show False by (simp add: chunkName_inj)
    qed
    have b': "b' = c\<lparr>files := (files b)(chunkName (dir b) (seq b) \<mapsto> d), seq := seq b + 1\<rparr>"
      "r = Inr (HPath (chunkName (dir b) (seq b)))"
      using assms(2) Pair None c by (auto simp: diskPut_def osWriteFile_def Let_def)
    have "diskHolds b' hs"
      by (rule diskHolds_write [OF assms(1), where x = d]) (simp_all add: b'(1) c)
    moreover have "dir b' = dir b" "seq b' = Suc (seq b)"
      "files b' (chunkName (dir b) (seq b)) = Some d" by (simp_all add: b'(1) c)
    ultimately show ?thesis using new unfolding b'(2) by (auto simp: diskHolds_def)
  next
    case (Some k)
    then have "b' = c\<lparr>files := (files b)(chunkName (dir b) (seq b) \<mapsto> take k d)\<rparr>" "r = Inl (OSError ''write'')"
      using assms(2) Pair c by (auto simp: diskPut_def osWriteFile_def Let_def)
    then show ?thesis
      using diskHolds_write [OF assms(1), of b' "take k d"] by (simp add: c)
  qed
qed

lemma diskGet_holds:
  assumes "diskHolds b hs" "diskGet b h = (b', r)"
  shows "diskHolds b' hs" and "(h, d) \<in> set hs \<Longrightarrow> r = Inr x \<Longrightarrow> x = d"
proof -
  have c: "dir b' = dir b \<and> seq b' = seq b \<and> files b' = files b"
    using assms(2)
    by (auto simp: diskGet_def osReadFile_def dest!: nextFault_frame split: chunkHandle.splits prod.splits option.splits)
  then show "diskHolds b' hs" using assms(1) by (simp add: diskHolds_def)
  assume "(h, d) \<in> set hs" "r = Inr x"
  then obtain n where "h = HPath (chunkName (dir b) n)" "files b (chunkName (dir b) n) = Some d"
    using assms(1) by (auto simp: diskHolds_def)
  then show "x = d"
    using assms(2) \<open>r = Inr x\<close>
    by (auto simp: diskGet_def osReadFile_def dest!: nextFault_frame split: prod.splits option.splits)
qed

lemma diskDrop_holds:
  assumes "diskHolds b (hs @ (h, d) # ks)" "diskDrop b h = (b', r)"
  shows "diskHolds b' (hs @ ks)"
proof -
  obtain n where n: "n < seq b" "h = HPath (chunkName (dir b) n)"
    using assms(1) by (auto simp: diskHolds_def)
  have c: "dir b' = dir b" "seq b' = seq b"
    "files b' = files b \<or> files b' = (files b)(chunkName (dir b) n := None)"
    using assms(2) n(2)
    by (auto simp: diskDrop_def osRemove_def dest!: nextFault_frame split: prod.splits option.splits if_splits)
  have "\<exists>m < seq b. g = HPath (chunkName (dir b) m) \<and> files b' (chunkName (dir b) m) = Some x"
    if gx: "(g, x) \<in> set (hs @ ks)" for g x
  proof -
    obtain m where m: "m < seq b" "g = HPath (chunkName (dir b) m)" "files b (chunkName (dir b) m) = Some x"
      using diskHoldsD [OF assms(1), of g x] gx by auto
    have "distinct (map fst (hs @ (h, d) # ks))" using assms(1) by (simp only: diskHolds_def)
    then have "h \<notin> fst ` set (hs @ ks)" by (simp add: image_Un)
    then have "g \<noteq> h" using gx by (metis fst_conv image_eqI)
    then show ?thesis using m n c(3) by (auto simp: chunkName_inj)
  qed
  then show ?thesis using assms(1) c by (auto simp: diskHolds_def)
qed

interpretation be: chunk_backend put get dropChunk holds
proof (unfold_locales, goal_cases)
  case (1 b hs d b' h)
  then show ?case using diskPut_holds
    by (cases b) (fastforce simp: put_def holds_def split: prod.splits)+
next
  case (2 b hs d b' e)
  then show ?case using diskPut_holds
    by (cases b) (fastforce simp: put_def holds_def split: prod.splits)+
next
  case (3 b hs h b' r)
  then show ?case using diskGet_holds(1)
    by (cases b) (fastforce simp: get_def holds_def split: prod.splits)+
next
  case (4 b hs h d b' x)
  then show ?case using diskGet_holds(2)
    by (cases b) (fastforce simp: get_def holds_def memoryGet_def split: prod.splits)+
next
  case (5 b hs h d ks b' r)
  then show ?case using diskDrop_holds
    by (cases b) (fastforce simp: dropChunk_def holds_def split: prod.splits)+
qed

end
