(* ===== verification/Store.thy ===== *)
theory Store
  imports Backend Vtscan
begin

text \<open>
  \<open>scrollback/store.go\<close>: the store that keeps the head and the tail of a session's output.
  A store is the record of its fields together with the place of its background goroutine
  (\<open>drainPc\<close>): the goroutine gives up the lock only while it waits and while it
  compresses and stores a chunk, so its run is a sequence of atomic steps between those places,
  and any writes may come in between. A schedule is a list of actions; every interleaving of
  writers, the goroutine, readers and \<open>Close\<close> is one. The zstd codec is third-party code
  and a parameter.
\<close>

section \<open>State\<close>

definition DefaultHeadSize :: int where "DefaultHeadSize = push_bit 20 1"
definition DefaultTailSize :: int where "DefaultTailSize = push_bit 20 9"
definition defaultChunkSize :: int where "defaultChunkSize = push_bit 20 1"
definition defaultFallbackBytes :: int where "defaultFallbackBytes = push_bit 20 10"

record zstd =
  encodeAll :: "bytes \<Rightarrow> bytes"
  decodeAll :: "bytes \<Rightarrow> bytes option"

record chunk =
  handle :: chunkHandle
  rawLen :: nat
  compressed :: bool

text \<open>The locals of \<open>flushChunk\<close> that live across the unlocked section.\<close>

record flight =
  consumed :: nat
  raw :: bytes
  restBuf :: bytes
  fcut :: nat
  fcompressed :: bool

datatype drainPc = AtWait | AtPut flight | AtDone

record store =
  headSize :: nat
  tailSize :: nat
  chunkSize :: nat
  fallbackBytes :: nat
  store_backend :: backend
  pend :: bytes
  chunkBuf :: bytes
  headChunks :: "chunk list"
  headBytes :: nat
  tailChunks :: "chunk list"
  tailBytes :: nat
  totalBytes :: nat
  closed :: bool
  busy :: bool
  storeErr :: "sb_error list"
  closeErr :: "sb_error list"
  pc :: drainPc

definition sizeOr :: "int \<Rightarrow> int \<Rightarrow> nat" where
  "sizeOr n dflt = nat (if n \<le> 0 then dflt else n)"

definition newStoreBackend :: "int \<Rightarrow> int \<Rightarrow> int \<Rightarrow> int \<Rightarrow> backend \<Rightarrow> store" where
  "newStoreBackend hsize tsize csize fback b =
     \<lparr>headSize = sizeOr hsize DefaultHeadSize, tailSize = sizeOr tsize DefaultTailSize,
      chunkSize = sizeOr csize defaultChunkSize, fallbackBytes = sizeOr fback defaultFallbackBytes,
      store_backend = b, pend = [], chunkBuf = [], headChunks = [], headBytes = 0, tailChunks = [],
      tailBytes = 0, totalBytes = 0, closed = False, busy = False, storeErr = [], closeErr = [],
      pc = AtWait\<rparr>"

definition newStore :: "int \<Rightarrow> int \<Rightarrow> int \<Rightarrow> int \<Rightarrow> store" where
  "newStore hsize tsize csize fback = newStoreBackend hsize tsize csize fback Memory"

definition NewStore :: "int \<Rightarrow> int \<Rightarrow> store" where
  "NewStore hsize tsize = newStore hsize tsize defaultChunkSize defaultFallbackBytes"

text \<open>The two getters\<close>

definition TotalBytes :: "store \<Rightarrow> nat" where "TotalBytes s = totalBytes s"
definition Err :: "store \<Rightarrow> sb_error list" where "Err s = storeErr s"

declare TotalBytes_def [simp] Err_def [simp]

text \<open>\<open>scrollback.New\<close>\<close>

definition New :: "(bytes \<Rightarrow> sb_error + diskBackend) \<Rightarrow> Config \<Rightarrow> sb_error + store" where
  "New newDisk cfg =
     (case selectBackend newDisk cfg of
        Inl e \<Rightarrow> Inl e
      | Inr b \<Rightarrow> Inr (newStoreBackend (HeadSize cfg) (TailSize cfg) defaultChunkSize
                      (CompressionBacklogSize cfg) b))"

section \<open>Writing and cutting chunks\<close>

definition Write :: "store \<Rightarrow> bytes \<Rightarrow> store" where
  "Write s p =
     (if p = [] then s
      else if closed s then s
      else s\<lparr>pend := pend s @ p, totalBytes := totalBytes s + length p, busy := True\<rparr>)"

text \<open>The loop of \<open>boundaryCut\<close> from offset \<open>off\<close> on; \<open>best\<close> is \<open>-1\<close> or an offset.\<close>

function boundaryLoop :: "bytes \<Rightarrow> nat \<Rightarrow> nat \<Rightarrow> scanner \<Rightarrow> int \<Rightarrow> int" where
  "boundaryLoop buf target off sc best =
     (if off \<le> length buf then
        let sc = Advance sc [buf ! (off - 1)] in
        if off < length buf \<and> \<not> RuneStart (buf ! off) then boundaryLoop buf target (off + 1) sc best
        else if \<not> AtGround sc then boundaryLoop buf target (off + 1) sc best
        else if off \<le> target then boundaryLoop buf target (off + 1) sc (int off)
        else if best > 0 then best
        else int off
      else best)"
  by pat_completeness auto
termination
  by (relation "measure (\<lambda>(buf, target, off, sc, best). Suc (length buf) - off)") auto

declare boundaryLoop.simps [simp del]

definition boundaryCut :: "bytes \<Rightarrow> nat \<Rightarrow> int" where
  "boundaryCut buf target = boundaryLoop buf target 1 zeroScanner (-1)"

definition boundaryTrim :: "bytes \<Rightarrow> nat \<Rightarrow> nat" where
  "boundaryTrim buf want =
     (let off = SafeCut zeroScanner buf (int want) in
      if off \<ge> 0 then nat off
      else
        let off = SafeCut zeroScanner buf (int (length buf)) in
        if off \<ge> 0 then nat off else 0)"

section \<open>The drain goroutine\<close>

text \<open>
  The loop head of \<open>process\<close>: whether another chunk is cut, and where. The locked prefix of
  \<open>flushChunk\<close> then takes the chunk off the buffer and the lock is released.
\<close>

definition processTarget :: "store \<Rightarrow> nat" where
  "processTarget s =
     (let r = int (headSize s) - int (headBytes s) in
      if r > 0 \<and> r < int (chunkSize s) then nat r else chunkSize s)"

definition flushBegin :: "store \<Rightarrow> nat \<Rightarrow> nat \<Rightarrow> flight" where
  "flushBegin s n backlog =
     \<lparr>consumed = length (chunkBuf s), raw = take n (chunkBuf s), restBuf = drop n (chunkBuf s),
      fcut = n, fcompressed = (backlog \<le> fallbackBytes s)\<rparr>"

definition processNext :: "store \<Rightarrow> store" where
  "processNext s =
     (let target = processTarget s in
      if length (chunkBuf s) < target then s\<lparr>pc := AtWait\<rparr>
      else
        let n = boundaryCut (chunkBuf s) target in
        if n \<le> 0 then s\<lparr>pc := AtWait\<rparr>
        else
          let backlog = length (chunkBuf s) - nat n + length (pend s) in
          s\<lparr>pc := AtPut (flushBegin s (nat n) backlog)\<rparr>)"

definition evictOne :: "store \<Rightarrow> store" where
  "evictOne s =
     (let c = hd (tailChunks s); (b, e) = dropChunk (store_backend s) (handle c) in
      s\<lparr>store_backend := b, tailBytes := tailBytes s - rawLen c, tailChunks := tl (tailChunks s),
        storeErr := (case e of None \<Rightarrow> storeErr s | Some x \<Rightarrow> storeErr s @ [x])\<rparr>)"

function evict :: "store \<Rightarrow> store" where
  "evict s =
     (if length (tailChunks s) > 1 \<and>
         int (tailBytes s) - int (rawLen (hd (tailChunks s))) \<ge> int (tailSize s)
      then evict (evictOne s) else s)"
  by pat_completeness auto
termination
  by (relation "measure (\<lambda>s. length (tailChunks s))")
    (auto simp: evictOne_def Let_def split: prod.splits)

declare evict.simps [simp del]

text \<open>The unlocked section of \<open>flushChunk\<close> and its locked suffix.\<close>

definition flushEnd :: "zstd \<Rightarrow> store \<Rightarrow> flight \<Rightarrow> store" where
  "flushEnd z s f =
     (let data = (if fcompressed f then encodeAll z (raw f) else raw f);
          (b, r) = put (store_backend s) data;
          rst = (if length (chunkBuf s) > consumed f
                 then restBuf f @ drop (consumed f) (chunkBuf s) else restBuf f);
          s = s\<lparr>store_backend := b, chunkBuf := rst\<rparr> in
      case r of
        Inl e \<Rightarrow> s\<lparr>storeErr := storeErr s @ [e]\<rparr>
      | Inr h \<Rightarrow>
          let c = \<lparr>handle = h, rawLen = fcut f, compressed = fcompressed f\<rparr> in
          if headBytes s < headSize s then
            s\<lparr>headChunks := headChunks s @ [c], headBytes := headBytes s + rawLen c\<rparr>
          else
            evict (s\<lparr>tailChunks := tailChunks s @ [c], tailBytes := tailBytes s + rawLen c\<rparr>))"

text \<open>
  One atomic step of \<open>drain\<close>: from the wait it goes to sleep, stops, or takes the pending
  bytes and enters \<open>process\<close>; from the unlocked section it finishes the flush and goes
  round the loop of \<open>process\<close>.
\<close>

definition drainStep :: "zstd \<Rightarrow> store \<Rightarrow> store" where
  "drainStep z s =
     (case pc s of
        AtWait \<Rightarrow>
          if pend s = [] then
            (if closed s then s\<lparr>busy := False, pc := AtDone\<rparr> else s\<lparr>busy := False\<rparr>)
          else processNext (s\<lparr>chunkBuf := chunkBuf s @ pend s, pend := []\<rparr>)
      | AtPut f \<Rightarrow> processNext (flushEnd z s f)
      | AtDone \<Rightarrow> s)"

section \<open>Reading\<close>

fun decodeChunks :: "('b \<Rightarrow> chunkHandle \<Rightarrow> 'b \<times> (sb_error + bytes)) \<Rightarrow> zstd \<Rightarrow> 'b \<Rightarrow> chunk list \<Rightarrow>
    'b \<times> sb_error list \<times> bytes" where
  "decodeChunks rd z b [] = (b, [], [])"
| "decodeChunks rd z b (c # cs) =
     (case rd b (handle c) of
        (b, Inl e) \<Rightarrow> (case decodeChunks rd z b cs of (b, es, out) \<Rightarrow> (b, e # es, out))
      | (b, Inr data) \<Rightarrow>
          if compressed c then
            (case decodeAll z data of
               None \<Rightarrow> (case decodeChunks rd z b cs of (b, es, out) \<Rightarrow> (b, ZstdError # es, out))
             | Some d \<Rightarrow> (case decodeChunks rd z b cs of (b, es, out) \<Rightarrow> (b, es, d @ out)))
          else (case decodeChunks rd z b cs of (b, es, out) \<Rightarrow> (b, es, data @ out)))"

text \<open>
  \<open>fmt\<close>'s \<open>%.1f\<close> of \<open>float64(n)/float64(div)\<close> in tenths. The conversion of \<open>n\<close>
  rounds to 53 bits, to nearest with ties to even; \<open>div\<close> is a power of two, so the quotient
  is exact; the verb rounds the exact quotient to the nearest tenth, ties to even.
\<close>

definition divEven :: "nat \<Rightarrow> nat \<Rightarrow> nat" where
  "divEven a b =
     (let q = a div b; r = a mod b in
      if 2 * r < b then q else if 2 * r > b then q + 1 else if even q then q else q + 1)"

function bitLength :: "nat \<Rightarrow> nat" where
  "bitLength n = (if n = 0 then 0 else Suc (bitLength (n div 2)))"
  by pat_completeness auto
termination by (relation "measure id") auto

declare bitLength.simps [simp del]

definition toFloat64 :: "nat \<Rightarrow> nat" where
  "toFloat64 n = (let k = bitLength n - 53 in divEven n (2 ^ k) * 2 ^ k)"

definition tenths :: "nat \<Rightarrow> bytes" where
  "tenths v = decimal (v div 10) @ str ''.'' @ decimal (v mod 10)"

text \<open>The loop of \<open>humanizeBytes\<close>: the divisor and the index of the unit letter.\<close>

function unitLoop :: "nat \<Rightarrow> nat \<Rightarrow> nat \<Rightarrow> nat \<times> nat" where
  "unitLoop v dv e = (if v \<ge> 1024 then unitLoop (v div 1024) (dv * 1024) (e + 1) else (dv, e))"
  by pat_completeness auto
termination by (relation "measure (\<lambda>(v, dv, e). v)") auto

declare unitLoop.simps [simp del]

definition humanizeBytes :: "nat \<Rightarrow> bytes" where
  "humanizeBytes n =
     (if n < 1024 then decimal n @ str ''B''
      else
        let (dv, e) = unitLoop (n div 1024) 1024 0 in
        tenths (divEven (toFloat64 n * 10) dv) @ [str ''KMGTPE'' ! e] @ str ''B'')"

definition resetPreamble :: bytes where "resetPreamble = [0x1B, 0x63]"

definition truncationRule :: bytes where
  "truncationRule = concat (replicate 40 [0xE2, 0x94, 0x80])"

definition crlf :: bytes where "crlf = [0x0D, 0x0A]"

definition appendTruncation :: "bytes \<Rightarrow> nat \<Rightarrow> bytes" where
  "appendTruncation dst n =
     dst @ crlf @ crlf @ truncationRule @ crlf @ str ''[...] truncated '' @ humanizeBytes n @
     crlf @ truncationRule @ crlf @ crlf @ resetPreamble"

text \<open>\<open>Snapshot\<close> once it holds the lock with \<open>busy\<close> false.\<close>

definition Snapshot :: "zstd \<Rightarrow> store \<Rightarrow> store \<times> bytes" where
  "Snapshot z s =
     (let (b, es, head) = decodeChunks get z (store_backend s) (headChunks s);
          (b, fs, tail) = decodeChunks get z b (tailChunks s);
          s = s\<lparr>store_backend := b, storeErr := storeErr s @ es @ fs\<rparr>;
          tail = tail @ chunkBuf s;
          tail = (if length tail > tailSize s
                  then drop (boundaryTrim tail (length tail - tailSize s)) tail else tail);
          discarded = int (totalBytes s) - int (length head) - int (length tail);
          out = head;
          out = (if discarded > 0 then appendTruncation out (nat discarded) else out) in
      (s, out @ tail))"

section \<open>Closing\<close>

text \<open>The two locked sections of \<open>Close\<close>; it waits for the goroutine between them.\<close>

definition CloseRequest :: "store \<Rightarrow> store + sb_error list" where
  "CloseRequest s = (if closed s then Inr (closeErr s) else Inl (s\<lparr>closed := True\<rparr>))"

definition CloseFinish :: "store \<Rightarrow> sb_error option \<Rightarrow> store" where
  "CloseFinish s encoderErr =
     (let (b, backendErr) = closeBackend (store_backend s);
          es = storeErr s @ (case encoderErr of None \<Rightarrow> [] | Some e \<Rightarrow> [e])
                @ (case backendErr of None \<Rightarrow> [] | Some e \<Rightarrow> [e]) in
      s\<lparr>store_backend := b, storeErr := es, closeErr := es\<rparr>)"

section \<open>Schedules\<close>

text \<open>
  One critical section of one goroutine. \<open>Snapshot\<close> blocks while the store is busy.
\<close>

datatype action = AWrite bytes | ADrain | ASnapshot | AClose

definition act :: "zstd \<Rightarrow> store \<Rightarrow> action \<Rightarrow> store" where
  "act z s a =
     (case a of
        AWrite p \<Rightarrow> Write s p
      | ADrain \<Rightarrow> drainStep z s
      | ASnapshot \<Rightarrow> (if busy s then s else fst (Snapshot z s))
      | AClose \<Rightarrow> (case CloseRequest s of Inl s \<Rightarrow> s | Inr _ \<Rightarrow> s))"

definition run :: "zstd \<Rightarrow> store \<Rightarrow> action list \<Rightarrow> store" where
  "run z s as = foldl (act z) s as"

text \<open>The bytes the schedule writes while the store is open.\<close>

fun written :: "action list \<Rightarrow> bytes" where
  "written [] = []"
| "written (AWrite p # as) = p @ written as"
| "written (AClose # as) = []"
| "written (_ # as) = written as"

section \<open>Where chunks are cut\<close>

definition isCut :: "bytes \<Rightarrow> nat \<Rightarrow> bool" where
  "isCut buf n \<longleftrightarrow> 0 < n \<and> cutPoint zeroScanner buf n"

text \<open>What \<open>boundaryCut\<close> answers, and what its loop has found after \<open>n\<close> offsets.\<close>

definition cutResult :: "bytes \<Rightarrow> nat \<Rightarrow> int \<Rightarrow> bool" where
  "cutResult buf target r \<longleftrightarrow>
     r = -1 \<and> (\<forall>m. \<not> isCut buf m) \<or>
     (\<exists>k. r = int k \<and> isCut buf k \<and>
        (if k \<le> target then \<forall>m\<le>target. isCut buf m \<longrightarrow> m \<le> k
         else \<forall>m. isCut buf m \<longrightarrow> k \<le> m))"

definition lastCut :: "bytes \<Rightarrow> nat \<Rightarrow> nat \<Rightarrow> int \<Rightarrow> bool" where
  "lastCut buf target n best \<longleftrightarrow>
     best = -1 \<and> (\<forall>m\<le>n. \<not> isCut buf m) \<or>
     (\<exists>k. best = int k \<and> isCut buf k \<and> k \<le> target \<and> (\<forall>m\<le>n. isCut buf m \<longrightarrow> m \<le> k))"

lemma isCut_le: "isCut buf n \<Longrightarrow> 0 < n \<and> n \<le> length buf"
  by (simp add: isCut_def cutPoint_def)

lemma lastCut_skip: "lastCut buf target n best \<Longrightarrow> \<not> isCut buf (Suc n) \<Longrightarrow> lastCut buf target (Suc n) best"
  by (auto simp: lastCut_def le_Suc_eq)

lemma lastCut_hit: "isCut buf n \<Longrightarrow> n \<le> target \<Longrightarrow> lastCut buf target n (int n)"
  by (auto simp: lastCut_def)

lemma lastCut_end: "lastCut buf target (length buf) best \<Longrightarrow> cutResult buf target best"
  unfolding lastCut_def cutResult_def using isCut_le [of buf] by fastforce

lemma lastCut_stop:
  assumes "lastCut buf target n best" "isCut buf (Suc n)" "target < Suc n"
  shows "cutResult buf target (if best > 0 then best else int (Suc n))"
proof -
  have "m \<le> n \<or> Suc n \<le> m" for m by auto
  then show ?thesis
    using assms unfolding lastCut_def cutResult_def
    by (smt (verit, ccfv_threshold) isCut_le le_trans less_Suc_eq_le linorder_not_le of_nat_0_less_iff)
qed

lemma boundaryLoop_spec:
  assumes "lastCut buf target n best" and "n \<le> length buf"
  shows "cutResult buf target
    (boundaryLoop buf target (Suc n) (Advance zeroScanner (take n buf)) best)"
  using assms
proof (induction "length buf - n" arbitrary: n best)
  case 0
  then show ?case by (subst boundaryLoop.simps) (simp add: lastCut_end)
next
  case (Suc d)
  then have n: "n < length buf" by simp
  define sc where "sc = Advance zeroScanner (take (Suc n) buf)"
  have adv: "step (Advance zeroScanner (take n buf)) (buf ! n) = sc"
    using n by (simp add: sc_def Advance_take_Suc)
  have cut: "isCut buf (Suc n) \<longleftrightarrow> AtGround sc \<and> (Suc n < length buf \<longrightarrow> RuneStart (buf ! Suc n))"
    using n by (auto simp: isCut_def cutPoint_def sc_def)
  have loop: "boundaryLoop buf target (Suc n) (Advance zeroScanner (take n buf)) best =
      (if \<not> isCut buf (Suc n) then boundaryLoop buf target (Suc (Suc n)) sc best
       else if Suc n \<le> target then boundaryLoop buf target (Suc (Suc n)) sc (int (Suc n))
       else if best > 0 then best else int (Suc n))"
    using n by (subst boundaryLoop.simps) (auto simp: adv cut Let_def)
  note IH = Suc.hyps(1) [of "Suc n", folded sc_def]
  have d: "d = length buf - Suc n" "Suc n \<le> length buf" using Suc.hyps(2) by simp_all
  show ?case
    using IH [OF d(1) lastCut_skip [OF Suc.prems(1)] d(2)] IH [OF d(1) lastCut_hit d(2)]
      lastCut_stop [OF Suc.prems(1)]
    unfolding loop by simp
qed

lemma boundaryCut_spec: "cutResult buf target (boundaryCut buf target)"
  using boundaryLoop_spec [of buf target 0 "-1"]
  by (simp add: boundaryCut_def lastCut_def isCut_def)

lemma boundaryCut_pos: "0 < boundaryCut buf target \<Longrightarrow> isCut buf (nat (boundaryCut buf target))"
  using boundaryCut_spec [of buf target] by (auto simp: cutResult_def)

lemma boundaryCut_none: "boundaryCut buf target \<le> 0 \<Longrightarrow> \<not> isCut buf m"
  using boundaryCut_spec [of buf target] by (auto simp: cutResult_def dest: isCut_le)

lemma boundaryTrim_cut:
  "boundaryTrim buf want \<le> want \<and> cutPoint zeroScanner buf (boundaryTrim buf want)"
proof -
  define t where "t = min want (length buf)"
  have s: "SafeCut zeroScanner buf (int want) = bestCutUpto zeroScanner buf t"
    by (simp add: SafeCut_eq_best t_def flip: of_nat_min)
  show ?thesis
  proof (cases rule: bestCutUpto_cases [of zeroScanner buf t])
    case none
    then show ?thesis using none(2) [of 0] by (simp add: cutPoint_def)
  next
    case (cut n)
    then show ?thesis by (simp add: boundaryTrim_def s t_def)
  qed
qed

section \<open>What the chunks hold\<close>

text \<open>The backend's payload of a chunk that retains the raw bytes \<open>d\<close>.\<close>

definition stored :: "zstd \<Rightarrow> chunk \<Rightarrow> bytes \<Rightarrow> chunkHandle \<times> bytes" where
  "stored z c d = (handle c, if compressed c then encodeAll z d else d)"

definition lossless :: "zstd \<Rightarrow> bool" where
  "lossless z \<longleftrightarrow> (\<forall>d. decodeAll z (encodeAll z d) = Some d)"

locale chunk_store = chunk_backend put' get' drop' holds
  for put' :: "'b \<Rightarrow> bytes \<Rightarrow> 'b \<times> (sb_error + chunkHandle)"
    and get' :: "'b \<Rightarrow> chunkHandle \<Rightarrow> 'b \<times> (sb_error + bytes)"
    and drop' :: "'b \<Rightarrow> chunkHandle \<Rightarrow> 'b \<times> sb_error option"
    and holds :: "'b \<Rightarrow> (chunkHandle \<times> bytes) list \<Rightarrow> bool"
begin

lemma decodeChunks_holds:
  assumes "lossless z" "holds b hs" "length cs = length ds"
    "set (map2 (stored z) cs ds) \<subseteq> set hs" "decodeChunks get' z b cs = (b', es, out)"
  shows "holds b' hs \<and> (es = [] \<longrightarrow> out = concat ds)"
  using assms(3,2,4,5)
proof (induction cs ds arbitrary: b b' es out rule: list_induct2)
  case (Cons c cs d ds)
  obtain b1 r where g: "get' b (handle c) = (b1, r)" by fastforce
  obtain b2 es2 out2 where rec: "decodeChunks get' z b1 cs = (b2, es2, out2)" by (metis prod_cases3)
  have b1: "holds b1 hs" using get_holds [OF Cons.prems(1) g] .
  have IH: "holds b2 hs \<and> (es2 = [] \<longrightarrow> out2 = concat ds)"
    using Cons.IH [OF b1 _ rec] Cons.prems(2) by simp
  show ?case
  proof (cases r)
    case (Inl e)
    then show ?thesis using Cons.prems(3) g rec IH by auto
  next
    case (Inr data)
    have "data = snd (stored z c d)"
      using get_ok [OF Cons.prems(1) _ g [unfolded Inr]] Cons.prems(2) by (simp add: stored_def)
    then show ?thesis using Cons.prems(3) g rec IH Inr assms(1)
      by (auto simp: stored_def lossless_def split: if_splits)
  qed
qed simp

end

interpretation cs: chunk_store put get dropChunk holds
  by unfold_locales

lemma holds_Nil [simp]: "holds b []"
  by (simp add: holds_def diskHolds_def split: backend.split)

section \<open>The invariant\<close>

definition grounded :: "bytes \<Rightarrow> bool" where
  "grounded d \<longleftrightarrow> Advance zeroScanner d = zeroScanner"

lemma grounded_Nil [simp]: "grounded []"
  by (simp add: grounded_def)

lemma grounded_append: "grounded d \<Longrightarrow> grounded (d @ e) = grounded e"
  by (simp add: grounded_def)

lemma grounded_concat: "\<forall>d\<in>set ds. grounded d \<Longrightarrow> grounded (concat ds)"
  by (induction ds) (simp_all add: grounded_append)

lemma cutPoint_grounded: "cutPoint zeroScanner buf n \<Longrightarrow> grounded (take n buf)"
  by (simp add: cutPoint_def grounded_def AtGround_iff)

text \<open>
  \<open>retains z s hs mid ts w\<close>: of the stream \<open>w\<close> the head chunks hold \<open>hs\<close>, the tail
  chunks \<open>ts\<close>, and \<open>mid\<close> has been evicted.
\<close>

definition retains :: "zstd \<Rightarrow> store \<Rightarrow> bytes list \<Rightarrow> bytes \<Rightarrow> bytes list \<Rightarrow> bytes \<Rightarrow> bool" where
  "retains z s hs mid ts w \<longleftrightarrow>
     map rawLen (headChunks s) = map length hs \<and> map rawLen (tailChunks s) = map length ts \<and>
     holds (store_backend s) (map2 (stored z) (headChunks s) hs @ map2 (stored z) (tailChunks s) ts) \<and>
     w = concat hs @ mid @ concat ts @ chunkBuf s @ pend s \<and>
     (\<forall>d\<in>set hs. grounded d) \<and> (\<forall>d\<in>set ts. grounded d) \<and> grounded mid \<and>
     (headBytes s < headSize s \<longrightarrow> ts = [] \<and> mid = []) \<and>
     (mid \<noteq> [] \<longrightarrow> tailSize s \<le> tailBytes s)"

definition flight_ok :: "store \<Rightarrow> flight \<Rightarrow> bool" where
  "flight_ok s f \<longleftrightarrow>
     consumed f = length (chunkBuf s) \<and> raw f = take (fcut f) (chunkBuf s) \<and>
     restBuf f = drop (fcut f) (chunkBuf s) \<and> isCut (chunkBuf s) (fcut f)"

definition counters_ok :: "store \<Rightarrow> bool" where
  "counters_ok s \<longleftrightarrow>
     0 < headSize s \<and> 0 < tailSize s \<and> 0 < chunkSize s \<and>
     headBytes s = sum_list (map rawLen (headChunks s)) \<and>
     tailBytes s = sum_list (map rawLen (tailChunks s))"

text \<open>The tail holds at most one chunk more than it has to.\<close>

definition evicted :: "store \<Rightarrow> bool" where
  "evicted s \<longleftrightarrow>
     length (tailChunks s) \<le> 1 \<or> tailBytes s < tailSize s + rawLen (hd (tailChunks s))"

text \<open>No further chunk can be cut off the buffer.\<close>

definition drained :: "store \<Rightarrow> bool" where
  "drained s \<longleftrightarrow> length (chunkBuf s) < processTarget s \<or> (\<forall>n. \<not> isCut (chunkBuf s) n)"

lemma processTarget_frame [simp]:
  "processTarget (s\<lparr>store_backend := b\<rparr>) = processTarget s"
  "processTarget (s\<lparr>pend := x\<rparr>) = processTarget s"
  "processTarget (s\<lparr>chunkBuf := x\<rparr>) = processTarget s"
  "processTarget (s\<lparr>tailChunks := cs\<rparr>) = processTarget s"
  "processTarget (s\<lparr>tailBytes := n\<rparr>) = processTarget s"
  "processTarget (s\<lparr>totalBytes := n\<rparr>) = processTarget s"
  "processTarget (s\<lparr>closed := c\<rparr>) = processTarget s"
  "processTarget (s\<lparr>busy := c\<rparr>) = processTarget s"
  "processTarget (s\<lparr>storeErr := e\<rparr>) = processTarget s"
  "processTarget (s\<lparr>pc := l\<rparr>) = processTarget s"
  by (simp_all add: processTarget_def Let_def)

definition pc_ok :: "store \<Rightarrow> bool" where
  "pc_ok s \<longleftrightarrow>
     (case pc s of
        AtWait \<Rightarrow> drained s \<and> (busy s \<or> pend s = [])
      | AtPut f \<Rightarrow> flight_ok s f \<and> busy s
      | AtDone \<Rightarrow> drained s \<and> closed s \<and> \<not> busy s \<and> pend s = [])"

definition content_ok :: "zstd \<Rightarrow> store \<Rightarrow> bytes \<Rightarrow> bool" where
  "content_ok z s w \<longleftrightarrow>
     counters_ok s \<and> totalBytes s = length w \<and>
     (storeErr s = [] \<longrightarrow> (\<exists>hs mid ts. retains z s hs mid ts w))"

definition store_inv :: "zstd \<Rightarrow> store \<Rightarrow> bytes \<Rightarrow> bool" where
  "store_inv z s w \<longleftrightarrow> content_ok z s w \<and> evicted s \<and> pc_ok s"

text \<open>An operation that keeps the counters keeps the content if it keeps what is retained.\<close>

lemma content_okI:
  assumes "content_ok z s w" "counters_ok s'" "totalBytes s' = length w'"
    "storeErr s' = [] \<Longrightarrow> storeErr s = []"
    "\<And>hs mid ts. retains z s hs mid ts w \<Longrightarrow> storeErr s' = [] \<Longrightarrow> retains z s' hs mid ts w'"
  shows "content_ok z s' w'"
  using assms unfolding content_ok_def by blast

lemma content_okD:
  assumes "content_ok z s w"
  shows "counters_ok s" and "totalBytes s = length w"
    and "storeErr s = [] \<Longrightarrow> \<exists>hs mid ts. retains z s hs mid ts w"
  using assms by (simp_all add: content_ok_def)

lemma store_inv_init: "store_inv z (newStoreBackend h t c f b) []"
proof -
  have "0 < sizeOr n d" if "0 < d" for n d using that by (simp add: sizeOr_def)
  then have "counters_ok (newStoreBackend h t c f b)"
    by (simp add: counters_ok_def newStoreBackend_def DefaultHeadSize_def DefaultTailSize_def
        defaultChunkSize_def)
  then show ?thesis
    by (auto simp: store_inv_def content_ok_def evicted_def newStoreBackend_def pc_ok_def drained_def
        retains_def isCut_def cutPoint_def intro!: exI [of _ "[]"])
qed

lemma Write_inv:
  assumes "store_inv z s w"
  shows "store_inv z (Write s p) (if closed s then w else w @ p)"
proof (cases "p = [] \<or> closed s")
  case False
  then have W: "Write s p = s\<lparr>pend := pend s @ p, totalBytes := totalBytes s + length p, busy := True\<rparr>"
    by (simp add: Write_def)
  have c: "content_ok z s w" "counters_ok s" "totalBytes s = length w" "evicted s" "pc_ok s"
    using assms by (simp_all add: store_inv_def content_ok_def)
  have "content_ok z (Write s p) (w @ p)"
    by (rule content_okI [OF c(1)])
      (use c in \<open>simp_all add: W counters_ok_def retains_def\<close>)
  moreover have "pc_ok (Write s p)" "evicted (Write s p)"
    using c False
    by (simp_all add: W pc_ok_def drained_def flight_ok_def evicted_def split: drainPc.splits)
  ultimately show ?thesis using False by (simp add: store_inv_def)
qed (use assms in \<open>auto simp: Write_def\<close>)

lemma Snapshot_frame:
  assumes "Snapshot z s = (s', out)"
  obtains b es where "s' = s\<lparr>store_backend := b, storeErr := storeErr s @ es\<rparr>"
  using assms by (auto simp: Snapshot_def Let_def split: prod.splits)

lemma pc_ok_errs [simp]: "pc_ok (s\<lparr>store_backend := b, storeErr := e\<rparr>) = pc_ok s"
  by (simp add: pc_ok_def drained_def flight_ok_def split: drainPc.splits)

text \<open>What \<open>Snapshot\<close> reads back, and that it leaves every payload in place.\<close>

lemma Snapshot_reads:
  assumes "lossless z" "retains z s hs mid ts w" "Snapshot z s = (s', out)" "storeErr s' = []"
  shows "retains z s' hs mid ts w"
    and "\<exists>n. n = (if length (concat ts @ chunkBuf s) > tailSize s
           then boundaryTrim (concat ts @ chunkBuf s) (length (concat ts @ chunkBuf s) - tailSize s)
           else 0) \<and>
         out = (let t = drop n (concat ts @ chunkBuf s);
                    d = int (totalBytes s) - int (length (concat hs)) - int (length t) in
                (if d > 0 then appendTruncation (concat hs) (nat d) else concat hs) @ t)"
proof -
  let ?H = "map2 (stored z) (headChunks s) hs" and ?T = "map2 (stored z) (tailChunks s) ts"
  obtain b1 es head where h: "decodeChunks get z (store_backend s) (headChunks s) = (b1, es, head)"
    by (metis prod_cases3)
  obtain b2 fs tail where t: "decodeChunks get z b1 (tailChunks s) = (b2, fs, tail)"
    by (metis prod_cases3)
  have s': "s' = s\<lparr>store_backend := b2, storeErr := storeErr s @ es @ fs\<rparr>"
    using assms(3) by (simp add: Snapshot_def h t Let_def)
  have len: "length (headChunks s) = length hs" "length (tailChunks s) = length ts"
    using assms(2) unfolding retains_def by (metis length_map)+
  have b: "holds (store_backend s) (?H @ ?T)" using assms(2) by (simp add: retains_def)
  have 1: "holds b1 (?H @ ?T)" "es = [] \<longrightarrow> head = concat hs"
    using cs.decodeChunks_holds [OF assms(1) b len(1) _ h] by simp_all
  have 2: "holds b2 (?H @ ?T)" "fs = [] \<longrightarrow> tail = concat ts"
    using cs.decodeChunks_holds [OF assms(1) 1(1) len(2) _ t] by simp_all
  show "retains z s' hs mid ts w" using assms(2) 2(1) by (simp add: retains_def s')
  show "\<exists>n. n = (if length (concat ts @ chunkBuf s) > tailSize s
           then boundaryTrim (concat ts @ chunkBuf s) (length (concat ts @ chunkBuf s) - tailSize s)
           else 0) \<and>
         out = (let t = drop n (concat ts @ chunkBuf s);
                    d = int (totalBytes s) - int (length (concat hs)) - int (length t) in
                (if d > 0 then appendTruncation (concat hs) (nat d) else concat hs) @ t)"
    using assms(3,4) 1(2) 2(2) by (auto simp: Snapshot_def h t s' Let_def)
qed

lemma Snapshot_inv:
  assumes "lossless z" "store_inv z s w" "Snapshot z s = (s', out)"
  shows "store_inv z s' w"
proof -
  obtain b es where s': "s' = s\<lparr>store_backend := b, storeErr := storeErr s @ es\<rparr>"
    using Snapshot_frame [OF assms(3)] .
  have c: "content_ok z s w" "counters_ok s" "totalBytes s = length w" "evicted s" "pc_ok s"
    using assms by (simp_all add: store_inv_def content_ok_def)
  have "content_ok z s' w"
    using Snapshot_reads(1) [OF assms(1) _ assms(3)]
    by (intro content_okI [OF c(1)]) (use c in \<open>auto simp: s' counters_ok_def\<close>)
  then show ?thesis using c by (simp add: store_inv_def s' evicted_def)
qed

lemma Close_inv:
  assumes "store_inv z s w"
  shows "store_inv z (s\<lparr>closed := True\<rparr>) w"
proof -
  have c: "content_ok z s w" "counters_ok s" "totalBytes s = length w" "evicted s" "pc_ok s"
    using assms by (simp_all add: store_inv_def content_ok_def)
  have "content_ok z (s\<lparr>closed := True\<rparr>) w"
    by (rule content_okI [OF c(1)]) (use c in \<open>simp_all add: counters_ok_def retains_def\<close>)
  moreover have "pc_ok (s\<lparr>closed := True\<rparr>)" "evicted (s\<lparr>closed := True\<rparr>)"
    using c by (simp_all add: pc_ok_def drained_def flight_ok_def evicted_def split: drainPc.splits)
  ultimately show ?thesis by (simp add: store_inv_def)
qed

lemma pending_taken:
  assumes "content_ok z s w"
  shows "content_ok z (s\<lparr>chunkBuf := chunkBuf s @ pend s, pend := []\<rparr>) w"
  by (rule content_okI [OF assms]) (use assms in \<open>simp_all add: content_ok_def counters_ok_def retains_def\<close>)

lemma content_ok_pc [simp]:
  "content_ok z (s\<lparr>pc := l\<rparr>) w = content_ok z s w"
  "content_ok z (s\<lparr>busy := c\<rparr>) w = content_ok z s w"
  by (simp_all add: content_ok_def counters_ok_def retains_def)

lemma evicted_frame [simp]:
  "evicted (s\<lparr>pc := l\<rparr>) = evicted s" "evicted (s\<lparr>busy := c\<rparr>) = evicted s"
  "evicted (s\<lparr>chunkBuf := b\<rparr>) = evicted s" "evicted (s\<lparr>pend := b\<rparr>) = evicted s"
  by (simp_all add: evicted_def)

lemma processNext_frame: "\<exists>l. processNext s = s\<lparr>pc := l\<rparr>"
  by (auto simp: processNext_def Let_def)

lemma processNext_pc:
  assumes "busy s" shows "pc_ok (processNext s)"
proof -
  let ?b = "boundaryCut (chunkBuf s) (processTarget s)"
  consider "length (chunkBuf s) < processTarget s" | "?b \<le> 0" | "0 < ?b" by linarith
  then show ?thesis
    using assms boundaryCut_none [of "chunkBuf s"] boundaryCut_pos [of "chunkBuf s" "processTarget s"]
    by cases (auto simp: processNext_def Let_def pc_ok_def drained_def flight_ok_def flushBegin_def)
qed

lemma processNext_inv:
  assumes "content_ok z s w" "evicted s" "busy s"
  shows "store_inv z (processNext s) w"
proof -
  obtain l where "processNext s = s\<lparr>pc := l\<rparr>" using processNext_frame by blast
  then show ?thesis using assms processNext_pc [OF assms(3)] by (simp add: store_inv_def)
qed

lemma evictOne_frame:
  "\<exists>b e. evictOne s = s\<lparr>store_backend := b, tailBytes := tailBytes s - rawLen (hd (tailChunks s)),
      tailChunks := tl (tailChunks s), storeErr := storeErr s @ e\<rparr> \<and>
     (\<forall>hs d ks. holds (store_backend s) (hs @ (handle (hd (tailChunks s)), d) # ks) \<longrightarrow> holds b (hs @ ks))"
proof -
  obtain b e where d: "dropChunk (store_backend s) (handle (hd (tailChunks s))) = (b, e)" by fastforce
  have "holds b (hs @ ks)"
    if "holds (store_backend s) (hs @ (handle (hd (tailChunks s)), x) # ks)" for hs x ks
    using be.drop_holds [OF that d] .
  then show ?thesis
    by (intro exI [of _ b] exI [of _ "case e of None \<Rightarrow> [] | Some x \<Rightarrow> [x]"])
      (simp add: evictOne_def d Let_def split: option.split)
qed

lemma evictOne_content:
  assumes "content_ok z s w" "1 < length (tailChunks s)" "headSize s \<le> headBytes s"
    "tailSize s + rawLen (hd (tailChunks s)) \<le> tailBytes s"
  shows "content_ok z (evictOne s) w"
proof -
  obtain b e where ev: "evictOne s = s\<lparr>store_backend := b,
        tailBytes := tailBytes s - rawLen (hd (tailChunks s)),
        tailChunks := tl (tailChunks s), storeErr := storeErr s @ e\<rparr>"
      and b: "\<And>hs d ks. holds (store_backend s) (hs @ (handle (hd (tailChunks s)), d) # ks) \<Longrightarrow> holds b (hs @ ks)"
    using evictOne_frame [of s] by blast
  obtain c cs where tc: "tailChunks s = c # cs" using assms(2) by (cases "tailChunks s") auto
  note cnt = content_okD [OF assms(1)]
  have ret: "\<exists>hs mid ts. retains z (evictOne s) hs mid ts w" if r: "retains z s hs mid ts w" for hs mid ts
  proof -
    obtain t ts' where ts: "ts = t # ts'" "rawLen c = length t" "map rawLen cs = map length ts'"
      using r tc by (cases ts) (auto simp: retains_def)
    have "holds b (map2 (stored z) (headChunks s) hs @ map2 (stored z) cs ts')"
      by (rule b [where d = "snd (stored z c t)"])
        (use r tc ts in \<open>simp add: retains_def stored_def\<close>)
    then have "retains z (evictOne s) hs (mid @ t) ts' w"
      using r ts tc assms(3,4) by (auto simp: retains_def ev grounded_append)
    then show ?thesis by blast
  qed
  have "counters_ok (evictOne s)" using cnt(1) tc by (simp add: ev counters_ok_def)
  moreover have "totalBytes (evictOne s) = length w" using cnt(2) by (simp add: ev)
  moreover have "\<exists>hs mid ts. retains z (evictOne s) hs mid ts w" if "storeErr (evictOne s) = []"
    using cnt(3) ret that by (simp add: ev) blast
  ultimately show ?thesis by (simp add: content_ok_def)
qed

text \<open>The fields the loop of \<open>evict\<close> leaves alone.\<close>

definition sameBuffers :: "store \<Rightarrow> store \<Rightarrow> bool" where
  "sameBuffers s s' \<longleftrightarrow> busy s' = busy s \<and> closed s' = closed s \<and> pend s' = pend s \<and>
     chunkBuf s' = chunkBuf s \<and> headSize s' = headSize s \<and> tailSize s' = tailSize s \<and>
     chunkSize s' = chunkSize s \<and> pc s' = pc s"

lemma evictOne_same: "sameBuffers s (evictOne s)"
  using evictOne_frame [of s] by (force simp: sameBuffers_def)

lemma evict_inv:
  assumes "content_ok z s w" "headSize s \<le> headBytes s"
  shows "content_ok z (evict s) w \<and> evicted (evict s)"
  using assms
proof (induction s rule: evict.induct)
  case (1 s)
  show ?case
  proof (cases "length (tailChunks s) > 1 \<and>
      int (tailBytes s) - int (rawLen (hd (tailChunks s))) \<ge> int (tailSize s)")
    case True
    have "headBytes (evictOne s) = headBytes s" "headSize (evictOne s) = headSize s"
      using evictOne_frame [of s] by auto
    moreover have "content_ok z (evictOne s) w" using True by (intro evictOne_content 1) auto
    ultimately show ?thesis using 1 True by (subst (1 2) evict.simps) simp
  next
    case False
    then show ?thesis using 1 by (subst (1 2) evict.simps) (auto simp: evicted_def)
  qed
qed

lemma evict_same: "sameBuffers s (evict s)"
proof (induction s rule: evict.induct)
  case (1 s)
  then show ?case using evictOne_same [of s] by (subst evict.simps) (auto simp: sameBuffers_def)
qed

text \<open>One flushed chunk goes to the head or to the tail, or is lost to a backend error.\<close>

lemma grounded_cut: "isCut buf n \<Longrightarrow> grounded (take n buf)"
  by (simp add: isCut_def cutPoint_grounded)

lemma flushEnd_fields:
  assumes "flight_ok s f"
  shows "busy (flushEnd z s f) = busy s" and "closed (flushEnd z s f) = closed s"
    and "pend (flushEnd z s f) = pend s" and "chunkBuf (flushEnd z s f) = drop (fcut f) (chunkBuf s)"
  using assms evict_same
  by (auto simp: flushEnd_def Let_def flight_ok_def sameBuffers_def split: prod.splits sum.splits)

lemma flushEnd_inv:
  assumes "lossless z" "content_ok z s w" "evicted s" "flight_ok s f"
  shows "content_ok z (flushEnd z s f) w \<and> evicted (flushEnd z s f)"
proof -
  let ?data = "if fcompressed f then encodeAll z (raw f) else raw f"
  obtain b r where p: "put (store_backend s) ?data = (b, r)" by fastforce
  note f = assms(4) [unfolded flight_ok_def]
  note cnt = content_okD [OF assms(2)]
  define s1 where "s1 = s\<lparr>store_backend := b, chunkBuf := restBuf f\<rparr>"
  have buf: "chunkBuf s = raw f @ restBuf f" "length (raw f) = fcut f" "grounded (raw f)"
    using f isCut_le [of "chunkBuf s" "fcut f"] by (auto intro: grounded_cut)
  have fe: "flushEnd z s f =
      (case r of
         Inl e \<Rightarrow> s1\<lparr>storeErr := storeErr s @ [e]\<rparr>
       | Inr h \<Rightarrow>
          let c = \<lparr>handle = h, rawLen = fcut f, compressed = fcompressed f\<rparr> in
          if headBytes s1 < headSize s1 then
            s1\<lparr>headChunks := headChunks s1 @ [c], headBytes := headBytes s1 + rawLen c\<rparr>
          else evict (s1\<lparr>tailChunks := tailChunks s1 @ [c], tailBytes := tailBytes s1 + rawLen c\<rparr>))"
    using f by (simp add: flushEnd_def p s1_def Let_def split: sum.split)
  show ?thesis
  proof (cases r)
    case (Inl e)
    then show ?thesis using cnt assms(3)
      by (simp add: fe s1_def content_ok_def counters_ok_def evicted_def)
  next
    case (Inr h)
    define c where "c = \<lparr>handle = h, rawLen = fcut f, compressed = fcompressed f\<rparr>"
    have st: "stored z c (raw f) = (h, ?data)" by (simp add: stored_def c_def)
    note put = be.put_ok [OF _ p [unfolded Inr]]
    show ?thesis
    proof (cases "headBytes s < headSize s")
      case True
      define s2 where "s2 = s1\<lparr>headChunks := headChunks s1 @ [c], headBytes := headBytes s1 + rawLen c\<rparr>"
      have s2: "flushEnd z s f = s2" using True Inr by (simp add: fe s2_def c_def s1_def)
      have "retains z s2 (hs @ [raw f]) mid ts w" if rt: "retains z s hs mid ts w" for hs mid ts
      proof -
        have e: "ts = []" "mid = []" "tailChunks s = []" using rt True by (auto simp: retains_def)
        have "length (headChunks s) = length hs" using rt unfolding retains_def by (metis length_map)
        then show ?thesis using rt e put [of "map2 (stored z) (headChunks s) hs"] st buf
          by (simp add: retains_def s2_def s1_def c_def)
      qed
      then have "storeErr s2 = [] \<Longrightarrow> \<exists>hs mid ts. retains z s2 hs mid ts w"
        using cnt(3) by (simp add: s2_def s1_def) blast
      then show ?thesis using cnt assms(3) unfolding s2
        by (simp add: content_ok_def s2_def s1_def counters_ok_def evicted_def)
    next
      case False
      define s2 where "s2 = s1\<lparr>tailChunks := tailChunks s1 @ [c], tailBytes := tailBytes s1 + rawLen c\<rparr>"
      have s2: "flushEnd z s f = evict s2" using False Inr by (simp add: fe s2_def c_def s1_def)
      have "retains z s2 hs mid (ts @ [raw f]) w" if rt: "retains z s hs mid ts w" for hs mid ts
      proof -
        have l: "length (headChunks s) = length hs" "length (tailChunks s) = length ts"
          using rt unfolding retains_def by (metis length_map)+
        then show ?thesis
          using rt False buf st put [of "map2 (stored z) (headChunks s) hs @ map2 (stored z) (tailChunks s) ts"]
          by (auto simp: retains_def s2_def s1_def c_def)
      qed
      then have "storeErr s2 = [] \<Longrightarrow> \<exists>hs mid ts. retains z s2 hs mid ts w"
        using cnt(3) by (simp add: s2_def s1_def) blast
      then have "content_ok z s2 w" using cnt
        by (simp add: content_ok_def s2_def s1_def counters_ok_def)
      then show ?thesis unfolding s2 using False by (intro evict_inv) (auto simp: s2_def s1_def)
    qed
  qed
qed

lemma drainStep_inv:
  assumes "lossless z" "store_inv z s w"
  shows "store_inv z (drainStep z s) w"
proof -
  have c: "content_ok z s w" "evicted s" "pc_ok s" using assms(2) by (simp_all add: store_inv_def)
  show ?thesis
  proof (cases "pc s")
    case AtWait
    show ?thesis
    proof (cases "pend s = []")
      case True
      then show ?thesis using AtWait c
        by (auto simp: drainStep_def store_inv_def pc_ok_def drained_def)
    next
      case False
      then have "busy s" using c(3) AtWait by (simp add: pc_ok_def)
      then show ?thesis using AtWait False c pending_taken [OF c(1)]
        by (simp add: drainStep_def processNext_inv)
    qed
  next
    case (AtPut f)
    then have "flight_ok s f" "busy s" using c(3) by (simp_all add: pc_ok_def)
    then show ?thesis using flushEnd_inv [OF assms(1) c(1,2)] flushEnd_fields [of s f z] AtPut
      by (simp add: drainStep_def processNext_inv)
  next
    case AtDone
    then show ?thesis using assms(2) by (simp add: drainStep_def)
  qed
qed

lemma processNext_fields [simp]:
  "closed (processNext s) = closed s" "busy (processNext s) = busy s"
  "pend (processNext s) = pend s" "chunkBuf (processNext s) = chunkBuf s"
  using processNext_frame [of s] by auto

lemma drainStep_closed:
  assumes "store_inv z s w" shows "closed (drainStep z s) = closed s"
proof (cases "pc s")
  case (AtPut f)
  then show ?thesis using assms flushEnd_fields(2) [of s f]
    by (simp add: drainStep_def store_inv_def pc_ok_def)
qed (simp_all add: drainStep_def)

section \<open>Every schedule\<close>

lemma run_simps [simp]:
  "run z s [] = s" "run z s (a # as) = run z (act z s a) as" "run z s (as @ bs) = run z (run z s as) bs"
  by (simp_all add: run_def)

lemma run_inv:
  assumes "lossless z" "store_inv z s w"
  shows "store_inv z (run z s as) (if closed s then w else w @ written as)"
  using assms(2)
proof (induction as arbitrary: s w)
  case (Cons a as)
  show ?case
  proof (cases a)
    case (AWrite p)
    have cl: "closed (Write s p) = closed s" by (simp add: Write_def)
    show ?thesis using Cons.IH [OF Write_inv [OF Cons.prems, of p]] AWrite cl
      by (simp add: act_def split: if_splits)
  next
    case ADrain
    then show ?thesis
      using Cons.IH [OF drainStep_inv [OF assms(1) Cons.prems]] drainStep_closed [OF Cons.prems]
      by (simp add: act_def split: if_splits)
  next
    case ASnapshot
    have "store_inv z (fst (Snapshot z s)) w" "closed (fst (Snapshot z s)) = closed s"
      using Snapshot_inv [OF assms(1) Cons.prems, of "fst (Snapshot z s)" "snd (Snapshot z s)"]
      by (simp_all add: Snapshot_def Let_def split: prod.splits)
    then show ?thesis using Cons.IH [of "fst (Snapshot z s)" w] Cons.IH [OF Cons.prems] ASnapshot
      by (simp add: act_def split: if_splits)
  next
    case AClose
    then show ?thesis using Cons.IH [OF Close_inv [OF Cons.prems]] Cons.IH [OF Cons.prems]
      by (simp add: act_def CloseRequest_def split: if_splits)
  qed
qed simp

lemma run_inv_init:
  "lossless z \<Longrightarrow> store_inv z (run z (newStoreBackend h t c f b) as) (written as)"
  using run_inv [OF _ store_inv_init, of z h t c f b as] by (simp add: newStoreBackend_def)


text \<open>What a snapshot of an idle store splits the written stream into.\<close>

lemma Snapshot_split:
  assumes "lossless z" "store_inv z s w" "\<not> busy s" "Snapshot z s = (s', out)" "storeErr s' = []"
  obtains h m d where "w = h @ m @ d" and "out = (if m = [] then h else appendTruncation h (length m)) @ d"
    and "grounded h" and "grounded m" and "m \<noteq> [] \<Longrightarrow> tailSize s \<le> length d"
    and "m \<noteq> [] \<Longrightarrow> length h < headSize s \<Longrightarrow>
           tailSize s < length (chunkBuf s) \<and> (\<exists>n. isCut (chunkBuf s) n)"
    and "headBytes s = length h"
proof -
  have c: "content_ok z s w" "pc_ok s" using assms(2) by (simp_all add: store_inv_def)
  note cnt = content_okD [OF c(1)]
  have p: "pend s = []" using c(2) assms(3) by (auto simp: pc_ok_def split: drainPc.splits)
  obtain b' es where "s' = s\<lparr>store_backend := b', storeErr := storeErr s @ es\<rparr>"
    using Snapshot_frame [OF assms(4)] .
  then have "storeErr s = []" using assms(5) by simp
  then obtain hs mid ts where r: "retains z s hs mid ts w" using cnt(3) by blast
  define buf where "buf = concat ts @ chunkBuf s"
  define n where "n = (if length buf > tailSize s then boundaryTrim buf (length buf - tailSize s) else 0)"
  define m where "m = mid @ take n buf"
  define d where "d = drop n buf"
  have cutn: "cutPoint zeroScanner buf n"
      "0 < n \<Longrightarrow> tailSize s \<le> length buf - n \<and> tailSize s < length buf"
    using boundaryTrim_cut [of buf "length buf - tailSize s"]
    by (auto simp: n_def cutPoint_def split: if_splits)
  have lens: "tailBytes s = length (concat ts)" "headBytes s = length (concat hs)"
    using cnt(1) r by (simp_all add: counters_ok_def retains_def length_concat)
  have w: "w = concat hs @ m @ d"
  proof -
    have "w = concat hs @ mid @ buf" using r p by (simp add: retains_def buf_def)
    then show ?thesis by (simp add: m_def d_def)
  qed
  have D: "int (totalBytes s) - int (length (concat hs)) - int (length d) = int (length m)"
    using cnt(2) w by simp
  have out: "out = (if m = [] then concat hs else appendTruncation (concat hs) (length m)) @ d"
    using Snapshot_reads(2) [OF assms(1) r assms(4,5)]
    unfolding buf_def [symmetric] n_def [symmetric] Let_def by (auto simp only: d_def [symmetric] D) simp
  have g: "grounded (concat hs)" "grounded m"
    using r cutPoint_grounded [OF cutn(1)] by (auto simp: m_def retains_def grounded_append grounded_concat)
  have tail: "tailSize s \<le> length d" if "m \<noteq> []"
    using that cutn(2) r lens by (cases "n = 0") (auto simp: m_def d_def retains_def buf_def)
  have head: "tailSize s < length (chunkBuf s) \<and> (\<exists>n. isCut (chunkBuf s) n)"
    if "m \<noteq> []" "length (concat hs) < headSize s"
  proof -
    have e: "ts = []" "mid = []" using r lens that by (auto simp: retains_def)
    then have n0: "0 < n" using that by (cases n) (auto simp: m_def)
    then have "isCut (chunkBuf s) n" using cutn(1) e by (simp add: isCut_def buf_def)
    then show ?thesis using cutn(2) [OF n0] e by (auto simp: buf_def)
  qed
  show thesis by (rule that [OF w out g tail head lens(2)])
qed

section \<open>Properties\<close>

text \<open>
  C1. Whatever the interleaving of writers, the drain goroutine, readers and \<open>Close\<close>, a
  snapshot of an idle store that reported no error is the written stream with at most its
  middle cut out: a prefix, then (exactly when something is missing) the truncation notice
  carrying the exact number of missing bytes, then a suffix. Both cuts are at places where the
  terminal parser is at ground, and a truncated stream keeps at least \<open>tailSize\<close> bytes.
\<close>

theorem Snapshot_content:
  assumes "\<forall>d. decodeAll z (encodeAll z d) = Some d"
    and "s = run z (newStoreBackend h t c f b) as" and "\<not> busy s"
    and "Snapshot z s = (s', out)" and "storeErr s' = []"
  shows "\<exists>head mid tail. written as = head @ mid @ tail \<and>
     out = (if mid = [] then head else appendTruncation head (length mid)) @ tail \<and>
     AtGround (Advance zeroScanner head) \<and> AtGround (Advance zeroScanner (head @ mid)) \<and>
     (mid \<noteq> [] \<longrightarrow> tailSize s \<le> length tail)"
proof -
  have z: "lossless z" using assms(1) by (simp add: lossless_def)
  have inv: "store_inv z s (written as)" using run_inv_init [OF z] assms(2) by simp
  obtain h m d where "written as = h @ m @ d"
    "out = (if m = [] then h else appendTruncation h (length m)) @ d"
    "grounded h" "grounded m" "m \<noteq> [] \<Longrightarrow> tailSize s \<le> length d"
    using Snapshot_split [OF z inv assms(3-5)] by metis
  then show ?thesis
    by (intro exI [of _ h] exI [of _ m] exI [of _ d]) (simp add: grounded_def AtGround_iff)
qed

text \<open>
  C26. If a chunk or the head fits into the tail budget, nothing of the first \<open>headSize\<close>
  bytes is ever missing from a snapshot, and a stream of at most \<open>headSize + tailSize\<close>
  bytes is returned verbatim.
\<close>

theorem Snapshot_keeps_head:
  assumes "\<forall>d. decodeAll z (encodeAll z d) = Some d"
    and "s = run z (newStoreBackend h t c f b) as" and "\<not> busy s"
    and "Snapshot z s = (s', out)" and "storeErr s' = []"
    and "min (chunkSize s) (headSize s) \<le> tailSize s"
  shows "take (headSize s) out = take (headSize s) (written as) \<and>
    (length (written as) \<le> headSize s + tailSize s \<longrightarrow> out = written as)"
proof -
  have z: "lossless z" using assms(1) by (simp add: lossless_def)
  have inv: "store_inv z s (written as)" using run_inv_init [OF z] assms(2) by simp
  obtain h m d where w: "written as = h @ m @ d"
    and out: "out = (if m = [] then h else appendTruncation h (length m)) @ d"
    and tail: "m \<noteq> [] \<Longrightarrow> tailSize s \<le> length d"
    and hb: "headBytes s = length h"
    and head: "m \<noteq> [] \<Longrightarrow> length h < headSize s \<Longrightarrow>
           tailSize s < length (chunkBuf s) \<and> (\<exists>n. isCut (chunkBuf s) n)"
    using Snapshot_split [OF z inv assms(3-5)] by metis
  have dr: "drained s" using inv assms(3) by (auto simp: store_inv_def pc_ok_def split: drainPc.splits)
  have "headSize s \<le> length h" if "m \<noteq> []"
  proof (rule ccontr)
    assume "\<not> headSize s \<le> length h"
    then have "headBytes s < headSize s" "tailSize s < processTarget s"
      using head [OF that] dr hb by (auto simp: drained_def)
    then show False using assms(6) by (auto simp: processTarget_def Let_def min_def split: if_splits)
  qed
  then show ?thesis using w out tail
    by (cases m) (simp_all add: appendTruncation_def)
qed

text \<open>
  Without that condition the head is not safe: with a head of 4 bytes and a tail of 2, a
  store that was written 3 bytes returns the last 2 and reports the first as truncated, although
  all of it fits into the head.
\<close>

theorem Snapshot_trims_unsealed_head:
  "snd (Snapshot z (run z (NewStore 4 2) [AWrite (str ''abc''), ADrain, ADrain]))
    = appendTruncation [] 1 @ str ''bc''"
proof -
  have "boundaryTrim (str ''abc'') 1 = 1" by code_simp
  then show ?thesis
    by (simp add: run_def act_def NewStore_def newStore_def newStoreBackend_def sizeOr_def Write_def drainStep_def
        processNext_def processTarget_def Snapshot_def defaultChunkSize_def Let_def)
qed

text \<open>The steps the goroutine needs at most: one per byte, and one per visit to the wait.\<close>

definition drainWork :: "store \<Rightarrow> nat" where
  "drainWork s = length (chunkBuf s) + length (pend s) + (if pend s = [] then 1 else 2)"

lemma drainStep_work:
  assumes "store_inv z s w" "busy s" "busy (drainStep z s)"
  shows "drainWork (drainStep z s) < drainWork s"
proof (cases "pc s")
  case AtWait
  then show ?thesis using assms(3) by (auto simp: drainStep_def drainWork_def split: if_splits)
next
  case (AtPut f)
  then have f: "flight_ok s f" using assms(1) by (simp add: store_inv_def pc_ok_def)
  then have "0 < fcut f \<and> fcut f \<le> length (chunkBuf s)"
    using isCut_le [of "chunkBuf s" "fcut f"] by (simp add: flight_ok_def)
  then show ?thesis using AtPut flushEnd_fields [OF f]
    by (auto simp: drainStep_def drainWork_def)
next
  case AtDone
  then show ?thesis using assms(1,2) by (simp add: store_inv_def pc_ok_def)
qed

lemma drain_idle:
  assumes "lossless z" "store_inv z s w"
  shows "\<exists>n \<le> drainWork s. \<not> busy ((drainStep z ^^ n) s)"
  using assms(2)
proof (induction "drainWork s" arbitrary: s rule: less_induct)
  case less
  consider "\<not> busy s" | "busy s" "\<not> busy (drainStep z s)" | "busy s" "busy (drainStep z s)" by blast
  then show ?case
  proof cases
    case 1
    then show ?thesis by (intro exI [of _ 0]) simp
  next
    case 2
    then show ?thesis by (intro exI [of _ 1]) (simp add: drainWork_def)
  next
    case 3
    have lt: "drainWork (drainStep z s) < drainWork s" using drainStep_work [OF less.prems 3] .
    obtain n where "n \<le> drainWork (drainStep z s)" "\<not> busy ((drainStep z ^^ n) (drainStep z s))"
      using less.hyps [OF lt drainStep_inv [OF assms(1) less.prems]] by blast
    then show ?thesis using lt by (intro exI [of _ "Suc n"]) (simp add: funpow_swap1)
  qed
qed

text \<open>
  C27. The drain goroutine always catches up: from every reachable state, as soon as the writers
  pause, it makes the store idle within as many steps as there are unprocessed bytes, plus two.
\<close>

theorem drain_catches_up:
  assumes "\<forall>d. decodeAll z (encodeAll z d) = Some d"
    and "s = run z (newStoreBackend h t c f b) as"
  shows "\<exists>n \<le> length (chunkBuf s) + length (pend s) + 2. \<not> busy (run z s (replicate n ADrain))"
proof -
  have z: "lossless z" using assms(1) by (simp add: lossless_def)
  have "store_inv z s (written as)" using run_inv_init [OF z] assms(2) by simp
  then obtain n where "n \<le> drainWork s" "\<not> busy ((drainStep z ^^ n) s)"
    using drain_idle [OF z] by blast
  moreover have "run z s (replicate n ADrain) = (drainStep z ^^ n) s"
    by (induction n arbitrary: s) (simp_all add: act_def funpow_swap1)
  ultimately show ?thesis
    by (intro exI [of _ n]) (auto simp: drainWork_def split: if_splits)
qed

text \<open>
  The tail never grows beyond its budget by more than one chunk: whatever was written and
  whatever failed, without its oldest chunk the retained tail is smaller than \<open>tailSize\<close>,
  or it is a single chunk.
\<close>

theorem tail_bounded:
  assumes "\<forall>d. decodeAll z (encodeAll z d) = Some d"
    and "s = run z (newStoreBackend h t c f b) as"
  shows "length (tailChunks s) \<le> 1 \<or> sum_list (map rawLen (tl (tailChunks s))) < tailSize s"
proof -
  have z: "lossless z" using assms(1) by (simp add: lossless_def)
  have "store_inv z s (written as)" using run_inv_init [OF z] assms(2) by simp
  then show ?thesis
    by (cases "tailChunks s") (auto simp: store_inv_def content_ok_def counters_ok_def evicted_def)
qed

section \<open>Witnesses\<close>

definition plainCodec :: zstd where
  "plainCodec = \<lparr>encodeAll = (\<lambda>d. d), decodeAll = Some\<rparr>"

definition demoActions :: "action list" where
  "demoActions = AWrite (str ''abcdef'') # replicate 5 ADrain"

definition demoStore :: store where
  "demoStore = run plainCodec (newStoreBackend 2 2 2 9 Memory) demoActions"

lemma plainCodec_lossless: "\<forall>d. decodeAll plainCodec (encodeAll plainCodec d) = Some d"
  by (simp add: plainCodec_def)

lemma demo_idle: "\<not> busy demoStore" "storeErr (fst (Snapshot plainCodec demoStore)) = []"
    "min (chunkSize demoStore) (headSize demoStore) \<le> tailSize demoStore"
  by code_simp+

theorem Snapshot_content_witness:
  "\<not> busy demoStore \<and>
   (\<exists>head mid tail. written demoActions = head @ mid @ tail \<and>
     snd (Snapshot plainCodec demoStore) = (if mid = [] then head else appendTruncation head (length mid)) @ tail \<and>
     AtGround (Advance zeroScanner head) \<and> AtGround (Advance zeroScanner (head @ mid)) \<and>
     (mid \<noteq> [] \<longrightarrow> tailSize demoStore \<le> length tail))"
  using Snapshot_content [OF plainCodec_lossless demoStore_def demo_idle(1) surjective_pairing demo_idle(2)]
    demo_idle(1) by blast

definition shortActions :: "action list" where
  "shortActions = AWrite (str ''abcd'') # replicate 4 ADrain"

definition shortStore :: store where
  "shortStore = run plainCodec (newStoreBackend 2 2 2 9 Memory) shortActions"

lemma short_idle: "\<not> busy shortStore" "storeErr (fst (Snapshot plainCodec shortStore)) = []"
    "min (chunkSize shortStore) (headSize shortStore) \<le> tailSize shortStore"
    "length (written shortActions) \<le> headSize shortStore + tailSize shortStore"
  by code_simp+

theorem Snapshot_keeps_head_witness:
  "min (chunkSize shortStore) (headSize shortStore) \<le> tailSize shortStore \<and>
   take (headSize shortStore) (snd (Snapshot plainCodec shortStore)) = take (headSize shortStore) (written shortActions) \<and>
   snd (Snapshot plainCodec shortStore) = written shortActions"
  using Snapshot_keeps_head [OF plainCodec_lossless shortStore_def short_idle(1) surjective_pairing short_idle(2,3)]
    short_idle(3,4) by blast

theorem drain_catches_up_witness:
  "\<exists>n \<le> length (chunkBuf demoStore) + length (pend demoStore) + 2.
     \<not> busy (run plainCodec demoStore (replicate n ADrain))"
  by (rule drain_catches_up [OF plainCodec_lossless demoStore_def])

theorem tail_bounded_witness:
  "length (tailChunks demoStore) \<le> 1 \<or>
   sum_list (map rawLen (tl (tailChunks demoStore))) < tailSize demoStore"
  by (rule tail_bounded [OF plainCodec_lossless demoStore_def])

section \<open>The size in the notice\<close>

lemma unitLoop_bound: "v < 1024 ^ Suc k \<Longrightarrow> snd (unitLoop v d e) \<le> e + k"
proof (induction k arbitrary: v d e)
  case 0
  then show ?case by (subst unitLoop.simps) simp
next
  case (Suc k)
  then have "v div 1024 < 1024 ^ Suc k" by (simp add: less_mult_imp_div_less mult.commute)
  from Suc.IH [OF this, of "d * 1024" "e + 1"] show ?case by (subst unitLoop.simps) simp
qed

text \<open>The index into \<open>"KMGTPE"\<close> stays in range for every \<open>int64\<close> count.\<close>

lemma humanize_unit_in_range:
  assumes "n < 2 ^ 63" shows "snd (unitLoop (n div 1024) 1024 0) < length ''KMGTPE''"
proof -
  have "n div 1024 < 1024 ^ Suc 5" using assms by simp
  from unitLoop_bound [OF this, of 1024 0] show ?thesis by simp
qed

lemma bitLength_le: "n < 2 ^ k \<Longrightarrow> bitLength n \<le> k"
proof (induction k arbitrary: n)
  case (Suc k)
  then show ?case by (subst bitLength.simps) (auto simp: less_mult_imp_div_less mult.commute)
qed (simp add: bitLength.simps)

lemma toFloat64_exact: "n < 2 ^ 53 \<Longrightarrow> toFloat64 n = n"
  using bitLength_le [of n 53] by (simp add: toFloat64_def divEven_def)

text \<open>Rounding happens after the unit is chosen: one byte below 1MB is shown as 1024.0KB.\<close>

lemma humanize_rounds_up: "humanizeBytes 1048575 = str ''1024.0KB''"
proof -
  have "decimal 1024 = str ''1024''" "decimal 0 = str ''0''" by (simp_all add: decimal.simps)
  then show ?thesis
    by (simp add: humanizeBytes_def unitLoop.simps toFloat64_exact divEven_def tenths_def)
qed

end
