(* ===== verification/Paths.thy ===== *)
theory Paths
  imports Bgx_Prelude
begin

text \<open>
  The parts of Go's standard library that turn names into file names and paths:
  \<open>strings.IndexByte\<close>, \<open>HasSuffix\<close>, \<open>TrimSuffix\<close>, \<open>url.QueryEscape\<close> and
  \<open>QueryUnescape\<close>, and \<open>filepath.Clean\<close> and \<open>Join\<close> on a system whose separator is
  the slash. Lemmas: escaping is injective and its result is a single path component that no
  other name shares; joining a clean directory and an ordinary component appends it.
\<close>

section \<open>Strings\<close>

definition slash :: byte where "slash = 0x2F"

text \<open>\<open>strings.IndexByte\<close>; \<open>None\<close> is \<open>-1\<close>.\<close>

fun IndexByte :: "bytes \<Rightarrow> byte \<Rightarrow> nat option" where
  "IndexByte [] c = None"
| "IndexByte (b # s) c = (if b = c then Some 0 else map_option Suc (IndexByte s c))"

definition HasSuffix :: "bytes \<Rightarrow> bytes \<Rightarrow> bool" where
  "HasSuffix s p \<longleftrightarrow> length p \<le> length s \<and> drop (length s - length p) s = p"

definition TrimSuffix :: "bytes \<Rightarrow> bytes \<Rightarrow> bytes" where
  "TrimSuffix s p = (if HasSuffix s p then take (length s - length p) s else s)"

lemma HasSuffix_append [simp]: "HasSuffix (s @ p) p"
  by (simp add: HasSuffix_def)

lemma TrimSuffix_append [simp]: "TrimSuffix (s @ p) p = s"
  by (simp add: TrimSuffix_def)

lemma HasSuffix_iff: "HasSuffix s p \<longleftrightarrow> (\<exists>r. s = r @ p)"
  by (metis HasSuffix_append HasSuffix_def append_take_drop_id)

lemma IndexByte_None: "IndexByte s c = None \<longleftrightarrow> c \<notin> set s"
  by (induction s) auto

lemma IndexByte_Some:
  "IndexByte s c = Some i \<Longrightarrow> i < length s \<and> s ! i = c \<and> c \<notin> set (take i s)"
  by (induction s arbitrary: i) (auto split: if_splits)

section \<open>Query escaping\<close>

definition unreserved :: "byte \<Rightarrow> bool" where
  "unreserved b \<longleftrightarrow> (0x61 \<le> b \<and> b \<le> 0x7A) \<or> (0x41 \<le> b \<and> b \<le> 0x5A) \<or> (0x30 \<le> b \<and> b \<le> 0x39) \<or>
     b = 0x2D \<or> b = 0x5F \<or> b = 0x2E \<or> b = 0x7E"

definition upperhex :: "byte \<Rightarrow> byte" where
  "upperhex n = (if n < 10 then 0x30 + n else 0x37 + n)"

definition ishex :: "byte \<Rightarrow> bool" where
  "ishex c \<longleftrightarrow> (0x30 \<le> c \<and> c \<le> 0x39) \<or> (0x61 \<le> c \<and> c \<le> 0x66) \<or> (0x41 \<le> c \<and> c \<le> 0x46)"

definition unhex :: "byte \<Rightarrow> byte" where
  "unhex c =
     (if 0x30 \<le> c \<and> c \<le> 0x39 then c - 0x30
      else if 0x61 \<le> c \<and> c \<le> 0x66 then c - 0x61 + 10
      else if 0x41 \<le> c \<and> c \<le> 0x46 then c - 0x41 + 10 else 0)"

definition escapeByte :: "byte \<Rightarrow> bytes" where
  "escapeByte b =
     (if unreserved b then [b]
      else if b = 0x20 then [0x2B]
      else [0x25, upperhex (drop_bit 4 b), upperhex (b AND 15)])"

definition QueryEscape :: "bytes \<Rightarrow> bytes" where
  "QueryEscape s = concat (map escapeByte s)"

text \<open>\<open>None\<close> is an \<open>EscapeError\<close>.\<close>

fun QueryUnescape :: "bytes \<Rightarrow> bytes option" where
  "QueryUnescape [] = Some []"
| "QueryUnescape (c # s) =
     (if c = 0x25 then
        (case s of
           h # l # r \<Rightarrow>
             if ishex h \<and> ishex l then map_option ((#) (push_bit 4 (unhex h) OR unhex l)) (QueryUnescape r)
             else None
         | _ \<Rightarrow> None)
      else if c = 0x2B then map_option ((#) 0x20) (QueryUnescape s)
      else map_option ((#) c) (QueryUnescape s))"

text \<open>The hexadecimal digits, a finite check over the sixteen nibbles.\<close>

lemma nibble_exhaust:
  assumes "list_all P (map of_nat [0..<16])" "n < (16 :: byte)" shows "P n"
proof -
  have "unat n \<in> {0..<16}" using assms(2) by (simp add: word_less_nat_alt)
  moreover have "\<forall>k\<in>{0..<16}. P (of_nat k)" using assms(1) by (simp add: list_all_iff)
  ultimately have "P (of_nat (unat n))" by (rule bspec [rotated])
  then show ?thesis by simp
qed

lemma upperhex_ok:
  "n < 16 \<Longrightarrow> ishex (upperhex n) \<and> unhex (upperhex n) = n \<and> upperhex n \<noteq> slash"
  by (rule nibble_exhaust [where P = "\<lambda>n. ishex (upperhex n) \<and> unhex (upperhex n) = n \<and> upperhex n \<noteq> slash"])
    code_simp

lemma nibbles_less: "drop_bit 4 b < (16 :: byte)" "b AND 15 < (16 :: byte)"
proof -
  show "b AND 15 < (16 :: byte)" by (rule byte_exhaust [where P = "\<lambda>b. b AND 15 < (16 :: byte)"]) code_simp
  show "drop_bit 4 b < (16 :: byte)"
    by (rule byte_exhaust [where P = "\<lambda>b. drop_bit 4 b < (16 :: byte)"]) code_simp
qed

lemma nibbles_join: "push_bit 4 (drop_bit 4 b) OR (b AND 15) = (b :: byte)"
  by (rule byte_exhaust [where P = "\<lambda>b. push_bit 4 (drop_bit 4 b) OR (b AND 15) = (b :: byte)"]) code_simp

lemma reserved_marks: "\<not> unreserved 0x25" "\<not> unreserved 0x2B" "\<not> unreserved slash"
  by code_simp+

lemma QueryUnescape_escapeByte: "QueryUnescape (escapeByte b @ s) = map_option ((#) b) (QueryUnescape s)"
  using reserved_marks upperhex_ok [OF nibbles_less(1) [of b]] upperhex_ok [OF nibbles_less(2) [of b]] nibbles_join [of b]
  by (auto simp: escapeByte_def)

lemma escapeByte_no_slash: "slash \<notin> set (escapeByte b)"
  using reserved_marks upperhex_ok [OF nibbles_less(1) [of b]] upperhex_ok [OF nibbles_less(2) [of b]]
  by (auto simp: escapeByte_def slash_def)

lemma QueryUnescape_QueryEscape [simp]: "QueryUnescape (QueryEscape s) = Some s"
  by (induction s) (simp_all add: QueryEscape_def QueryUnescape_escapeByte)

lemma QueryEscape_inj: "QueryEscape s = QueryEscape t \<longleftrightarrow> s = t"
  by (metis QueryUnescape_QueryEscape option.inject)

lemma QueryEscape_no_slash [simp]: "slash \<notin> set (QueryEscape s)"
  using escapeByte_no_slash by (auto simp: QueryEscape_def)

lemma escapeByte_Nil: "escapeByte b \<noteq> []"
  by (simp add: escapeByte_def)

lemma QueryEscape_Nil [simp]: "QueryEscape s = [] \<longleftrightarrow> s = []"
  by (simp add: QueryEscape_def escapeByte_Nil)

definition dot :: bytes where "dot = [0x2E]"
definition dotdot :: bytes where "dotdot = [0x2E, 0x2E]"

lemma QueryEscape_dots [simp]: "QueryEscape dot = dot" "QueryEscape dotdot = dotdot"
  by code_simp+

lemma QueryEscape_eq_dot: "QueryEscape s = dot \<longleftrightarrow> s = dot" "QueryEscape s = dotdot \<longleftrightarrow> s = dotdot"
  by (metis QueryEscape_dots QueryEscape_inj)+

section \<open>Paths\<close>

text \<open>A path is its components between slashes; \<open>Clean\<close> resolves them from the left.\<close>

fun splitSlash :: "bytes \<Rightarrow> bytes list" where
  "splitSlash [] = [[]]"
| "splitSlash (b # s) = (if b = slash then [] # splitSlash s
     else (case splitSlash s of [] \<Rightarrow> [[b]] | c # cs \<Rightarrow> (b # c) # cs))"

fun joinSlash :: "bytes list \<Rightarrow> bytes" where
  "joinSlash [] = []"
| "joinSlash [c] = c"
| "joinSlash (c # d # cs) = c @ slash # joinSlash (d # cs)"

text \<open>One component against the components kept so far, the last one first.\<close>

definition cleanStep :: "bool \<Rightarrow> bytes list \<Rightarrow> bytes \<Rightarrow> bytes list" where
  "cleanStep rooted out c =
     (if c = [] \<or> c = dot then out
      else if c = dotdot then
        (case out of
           [] \<Rightarrow> if rooted then [] else [dotdot]
         | d # ds \<Rightarrow> if d = dotdot then dotdot # out else ds)
      else c # out)"

definition cleanComponents :: "bytes \<Rightarrow> bytes list" where
  "cleanComponents path =
     rev (foldl (cleanStep (path \<noteq> [] \<and> hd path = slash)) [] (splitSlash path))"

definition renderPath :: "bool \<Rightarrow> bytes list \<Rightarrow> bytes" where
  "renderPath rooted cs =
     (if rooted then slash # joinSlash cs else if cs = [] then dot else joinSlash cs)"

definition Clean :: "bytes \<Rightarrow> bytes" where
  "Clean path = renderPath (path \<noteq> [] \<and> hd path = slash) (cleanComponents path)"

definition Join :: "bytes \<Rightarrow> bytes \<Rightarrow> bytes" where
  "Join a b =
     (if a = [] then (if b = [] then [] else Clean b) else Clean (a @ slash # b))"

lemma demo_Clean:
  "Clean (str ''/a/./b//../c/'') = str ''/a/c''" "Clean (str ''../../x'') = str ''../../x''"
  "Clean (str ''/../x'') = str ''/x''" "Clean [] = dot" "Clean (str ''a/..'') = dot"
  by code_simp+


lemma splitSlash_append: "splitSlash (a @ slash # b) = splitSlash a @ splitSlash b"
proof -
  have ne: "splitSlash s \<noteq> []" for s by (induction s) (auto split: list.splits)
  show ?thesis by (induction a) (auto simp: ne split: list.splits)
qed

lemma splitSlash_component: "slash \<notin> set c \<Longrightarrow> splitSlash c = [c]"
  by (induction c) auto

lemma joinSlash_snoc: "joinSlash (cs @ [c]) = (if cs = [] then c else joinSlash cs @ slash # c)"
  by (induction cs rule: joinSlash.induct) auto

text \<open>An ordinary component: what a file may be called.\<close>

definition component :: "bytes \<Rightarrow> bool" where
  "component c \<longleftrightarrow> slash \<notin> set c \<and> c \<noteq> [] \<and> c \<noteq> dot \<and> c \<noteq> dotdot"

lemma Join_component_render:
  assumes "a \<noteq> []" "component c"
  shows "Join a c = renderPath (hd a = slash) (cleanComponents a @ [c])"
  using assms
  by (simp add: Join_def Clean_def cleanComponents_def component_def splitSlash_append
      splitSlash_component cleanStep_def)

text \<open>Joining an ordinary component descends into the directory.\<close>

lemma Join_component:
  assumes "a \<noteq> []" "component c"
  shows "Join a c = (if cleanComponents a = [] then (if hd a = slash then slash # c else c)
                     else Clean a @ slash # c)"
  using assms by (simp add: Join_component_render renderPath_def joinSlash_snoc Clean_def)

lemma Join_last:
  assumes "a \<noteq> []" "component c"
  shows "last (splitSlash (Join a c)) = c"
proof -
  have c: "splitSlash c = [c]" using assms(2) by (simp add: component_def splitSlash_component)
  have "splitSlash (slash # b) = [] # splitSlash b" for b by simp
  then show ?thesis using assms c splitSlash_append [of "Clean a" c]
    by (simp add: Join_component)
qed

lemma cleanStep_nonempty: "[] \<notin> set out \<Longrightarrow> [] \<notin> set (cleanStep r out c)"
  by (auto simp: cleanStep_def dotdot_def split: list.splits)

lemma cleanComponents_nonempty: "[] \<notin> set (cleanComponents p)"
proof -
  have "[] \<notin> set out \<Longrightarrow> [] \<notin> set (foldl (cleanStep r) out cs)" for r out cs
    by (induction cs arbitrary: out) (simp_all add: cleanStep_nonempty)
  then show ?thesis by (simp add: cleanComponents_def)
qed

lemma Clean_Nil [simp]: "Clean p \<noteq> []"
  using cleanComponents_nonempty [of p]
  by (cases "cleanComponents p" rule: joinSlash.cases) (auto simp: Clean_def renderPath_def dot_def)

lemma Join_Nil: "Join a b = [] \<longleftrightarrow> a = [] \<and> b = []"
  by (simp add: Join_def)

section \<open>Cleaning is idempotent\<close>

text \<open>The components \<open>Clean\<close> leaves: parents only in front, and none in a rooted path.\<close>

definition normal :: "bool \<Rightarrow> bytes list \<Rightarrow> bool" where
  "normal r cs \<longleftrightarrow> (\<forall>c\<in>set cs. slash \<notin> set c \<and> c \<noteq> [] \<and> c \<noteq> dot) \<and>
     (\<exists>k ds. cs = replicate k dotdot @ ds \<and> dotdot \<notin> set ds \<and> (r \<longrightarrow> k = 0))"

lemma splitSlash_no_slash: "c \<in> set (splitSlash p) \<Longrightarrow> slash \<notin> set c"
  by (induction p arbitrary: c) (auto split: list.splits if_splits)

lemma normal_snoc:
  "normal r cs \<Longrightarrow> slash \<notin> set c \<Longrightarrow> c \<noteq> [] \<Longrightarrow> c \<noteq> dot \<Longrightarrow> c \<noteq> dotdot \<Longrightarrow> normal r (cs @ [c])"
  unfolding normal_def by (fastforce simp: append_assoc)

lemma normal_step:
  assumes "normal r (rev out)" "slash \<notin> set c"
  shows "normal r (rev (cleanStep r out c))"
proof (cases "c = dotdot")
  case False
  then show ?thesis using assms normal_snoc [OF assms] by (auto simp: cleanStep_def)
next
  case True
  have dd: "dotdot \<noteq> []" "dotdot \<noteq> dot" "slash \<notin> set dotdot" by (auto simp: dotdot_def dot_def slash_def)
  obtain k ds where kd: "rev out = replicate k dotdot @ ds" "dotdot \<notin> set ds" "r \<longrightarrow> k = 0"
    using assms(1) by (auto simp: normal_def)
  show ?thesis
  proof (cases ds rule: rev_cases)
    case Nil
    then have out: "out = replicate k dotdot" using kd(1) by (metis append_Nil2 rev_replicate rev_rev_ident)
    have "normal r (rev (cleanStep r out c)) = normal r (if r then [] else replicate (Suc k) dotdot)"
      using kd(3) True dd by (cases k) (auto simp: out cleanStep_def replicate_append_same)
    moreover have "normal r (if r then [] else replicate (Suc k) dotdot)"
      using dd by (auto simp: normal_def intro: exI [of _ "Suc k"] exI [of _ "[]"])
    ultimately show ?thesis by simp
  next
    case (snoc es e)
    then have out: "out = e # rev (replicate k dotdot @ es)" using kd(1) by (metis append_assoc rev_eq_Cons_iff rev_rev_ident rev_append rev.simps append_Cons append_Nil singleton_rev_conv)
    have "cleanStep r out c = rev (replicate k dotdot @ es)" using True dd kd(2) snoc by (auto simp: out cleanStep_def)
    then have "rev (cleanStep r out c) = replicate k dotdot @ es" by (simp del: rev_replicate rev_append)
    then show ?thesis using assms(1) kd snoc unfolding normal_def by auto
  qed
qed

lemma normal_cleanComponents: "normal (p \<noteq> [] \<and> hd p = slash) (cleanComponents p)"
proof -
  have "normal r (rev out) \<Longrightarrow> \<forall>c\<in>set cs. slash \<notin> set c \<Longrightarrow> normal r (rev (foldl (cleanStep r) out cs))" for r out cs
    by (induction cs arbitrary: out) (simp_all add: normal_step)
  moreover have "normal r []" for r by (simp add: normal_def)
  ultimately show ?thesis unfolding cleanComponents_def using splitSlash_no_slash by (metis rev.simps(1))
qed

lemma clean_normal: "normal r (rev out @ cs) \<Longrightarrow> foldl (cleanStep r) out cs = rev cs @ out"
proof (induction cs arbitrary: out)
  case (Cons c cs)
  have n: "c \<noteq> []" "c \<noteq> dot" using Cons.prems by (auto simp: normal_def)
  have "cleanStep r out c = c # out"
  proof (cases "c = dotdot")
    case True
    obtain k ds where kd: "rev out @ c # cs = replicate k dotdot @ ds" "dotdot \<notin> set ds" "r \<longrightarrow> k = 0"
      using Cons.prems by (auto simp: normal_def)
    then have k: "length out < k" using True
      by (metis append_eq_append_conv_if in_set_conv_decomp length_replicate length_rev linorder_not_less nth_append_length nth_mem)
    then have "rev out = replicate (length out) dotdot"
      using arg_cong [OF kd(1), of "take (length out)"] by simp
    then have "out = replicate (length out) dotdot" by (metis rev_replicate rev_rev_ident)
    then show ?thesis using True n k kd(3) by (cases out) (auto simp: cleanStep_def)
  qed (use n in \<open>simp add: cleanStep_def\<close>)
  then show ?case using Cons by simp
qed simp

lemma splitSlash_joinSlash:
  "cs \<noteq> [] \<Longrightarrow> \<forall>c\<in>set cs. slash \<notin> set c \<Longrightarrow> splitSlash (joinSlash cs) = cs"
  by (induction cs rule: joinSlash.induct) (simp_all add: splitSlash_component splitSlash_append)

lemma renderPath_root: "normal r cs \<Longrightarrow> renderPath r cs \<noteq> [] \<and> hd (renderPath r cs) = slash \<longleftrightarrow> r"
proof -
  assume "normal r cs"
  then have c: "c \<in> set cs \<Longrightarrow> c \<noteq> [] \<and> hd c \<noteq> slash" for c
    unfolding normal_def by (metis hd_in_set)
  have "hd dot \<noteq> slash" "dot \<noteq> []" by (simp_all add: dot_def slash_def)
  then show ?thesis using c
    by (cases cs rule: joinSlash.cases) (auto simp: renderPath_def)
qed

lemma cleanComponents_render:
  assumes "normal r cs" shows "cleanComponents (renderPath r cs) = cs"
proof -
  have s: "\<forall>c\<in>set cs. slash \<notin> set c" using assms by (simp add: normal_def)
  have "foldl (cleanStep r) [] (splitSlash (renderPath r cs)) = rev cs"
  proof (cases "cs = []")
    case True
    have "splitSlash dot = [dot]" "splitSlash [slash] = [[], []]" by (simp_all add: dot_def slash_def)
    then show ?thesis using True by (simp add: renderPath_def cleanStep_def)
  next
    case False
    have "foldl (cleanStep r) [] cs = rev cs" using clean_normal [of r "[]" cs] assms by simp
    moreover have "cleanStep True [] [] = []" by (simp add: cleanStep_def)
    ultimately show ?thesis using False s by (cases r) (simp_all add: renderPath_def splitSlash_joinSlash)
  qed
  then show ?thesis using renderPath_root [OF assms] by (simp add: cleanComponents_def)
qed

lemma Clean_components: "cleanComponents (Clean p) = cleanComponents p"
  unfolding Clean_def by (rule cleanComponents_render [OF normal_cleanComponents])

lemma cleanComponents_Join:
  assumes "a \<noteq> []" "component c"
  shows "cleanComponents (Join a c) = cleanComponents a @ [c]" "Clean (Join a c) = Join a c"
proof -
  have n: "normal (hd a = slash) (cleanComponents a @ [c])"
    using normal_cleanComponents [of a] assms by (intro normal_snoc) (auto simp: component_def)
  show 1: "cleanComponents (Join a c) = cleanComponents a @ [c]"
    unfolding Join_component_render [OF assms] by (rule cleanComponents_render [OF n])
  show "Clean (Join a c) = Join a c"
    using renderPath_root [OF n] unfolding Clean_def 1 by (simp add: Join_component_render [OF assms])
qed

end
