(* ===== verification/Session_Info.thy ===== *)
theory Session_Info
  imports Bgx_Prelude
begin

text \<open>
  The metadata of a session as the socket protocol, the retained records and the client carry
  it: the type \<open>Info\<close> of \<open>daemon/protocol.go\<close>. Times are integers; a Go map of strings is
  an association list.
\<close>

record Info =
  iID :: bytes
  iRunning :: bool
  iPid :: int
  iCommand :: "bytes list"
  iMetadata :: "(bytes \<times> bytes) list"
  iStartedAt :: int
  iEndedAt :: "int option"
  iDurationMS :: int
  iOutputBytes :: nat
  iExitCode :: "int option"
  iKilled :: bool
  iError :: bytes

end
