(* ===== verification/Retention.thy ===== *)
theory Retention
  imports Paths Session_Info "HOL-Library.List_Lexorder" "HOL-Library.Multiset"
begin

text \<open>
  \<open>daemon/retention.go\<close>: where the
  record and the history of an ended session are kept, how many are kept, and which running
  sessions count against that number. The file system is an association list of files with their
  modification times, a list of directories and a script of coming faults; \<open>sort.Slice\<close>, which
  is not stable, is an argument known only by its contract, the locale \<open>go_sort\<close>;
  \<open>encoding/json\<close> is an argument too. Lemmas: distinct ids have distinct files, pruning
  removes exactly the files of the records beyond the newest ones.
\<close>

section \<open>The file system\<close>

datatype fs_error = FsNotExist bytes | FsFault string

type_synonym fs_file = "bytes \<times> int"

record fsys =
  fsFiles :: "(bytes \<times> fs_file) list"
  fsDirs :: "bytes list"
  fsFaults :: "nat option list"
  fsNow :: int

definition fsFault :: "fsys \<Rightarrow> fsys \<times> nat option" where
  "fsFault fs = (case fsFaults fs of [] \<Rightarrow> (fs, None) | f # fl \<Rightarrow> (fs\<lparr>fsFaults := fl\<rparr>, f))"

definition fsStore :: "fsys \<Rightarrow> bytes \<Rightarrow> bytes \<Rightarrow> fsys" where
  "fsStore fs p d = fs\<lparr>fsFiles := (p, (d, fsNow fs)) # filter (\<lambda>(q, _). q \<noteq> p) (fsFiles fs)\<rparr>"

definition fsMkdirAll :: "fsys \<Rightarrow> bytes \<Rightarrow> fsys \<times> fs_error option" where
  "fsMkdirAll fs d =
     (case fsFault fs of
        (fs, Some _) \<Rightarrow> (fs, Some (FsFault ''mkdir''))
      | (fs, None) \<Rightarrow> (fs\<lparr>fsDirs := List.insert d (fsDirs fs)\<rparr>, None))"

definition fsWriteFile :: "fsys \<Rightarrow> bytes \<Rightarrow> bytes \<Rightarrow> fsys \<times> fs_error option" where
  "fsWriteFile fs p d =
     (case fsFault fs of
        (fs, Some k) \<Rightarrow> (fsStore fs p (take k d), Some (FsFault ''write''))
      | (fs, None) \<Rightarrow> (fsStore fs p d, None))"

definition fsReadFile :: "fsys \<Rightarrow> bytes \<Rightarrow> fsys \<times> (fs_error + bytes)" where
  "fsReadFile fs p =
     (case fsFault fs of
        (fs, Some _) \<Rightarrow> (fs, Inl (FsFault ''read''))
      | (fs, None) \<Rightarrow>
          (case map_of (fsFiles fs) p of None \<Rightarrow> (fs, Inl (FsNotExist p)) | Some (d, _) \<Rightarrow> (fs, Inr d)))"

definition fsStat :: "fsys \<Rightarrow> bytes \<Rightarrow> fsys \<times> (fs_error + int)" where
  "fsStat fs p =
     (case fsFault fs of
        (fs, Some _) \<Rightarrow> (fs, Inl (FsFault ''stat''))
      | (fs, None) \<Rightarrow>
          (case map_of (fsFiles fs) p of None \<Rightarrow> (fs, Inl (FsNotExist p)) | Some (_, t) \<Rightarrow> (fs, Inr t)))"

definition fsRemove :: "fsys \<Rightarrow> bytes \<Rightarrow> fsys \<times> fs_error option" where
  "fsRemove fs p =
     (case fsFault fs of
        (fs, Some _) \<Rightarrow> (fs, Some (FsFault ''remove''))
      | (fs, None) \<Rightarrow>
          (case map_of (fsFiles fs) p of
             None \<Rightarrow> (fs, Some (FsNotExist p))
           | Some _ \<Rightarrow> (fs\<lparr>fsFiles := filter (\<lambda>(q, _). q \<noteq> p) (fsFiles fs)\<rparr>, None)))"

text \<open>The name of \<open>p\<close> in the directory \<open>d\<close>, when it is an entry of it.\<close>

definition entryOf :: "bytes \<Rightarrow> bytes \<Rightarrow> bytes option" where
  "entryOf d p =
     (let n = last (splitSlash p) in if component n \<and> Join d n = p then Some n else None)"

text \<open>\<open>os.ReadDir\<close>: the entries by name, each with whether it is a directory.\<close>

definition fsReadDir :: "fsys \<Rightarrow> bytes \<Rightarrow> fsys \<times> (fs_error + (bytes \<times> bool) list)" where
  "fsReadDir fs d =
     (case fsFault fs of
        (fs, Some _) \<Rightarrow> (fs, Inl (FsFault ''readdir''))
      | (fs, None) \<Rightarrow>
          if d \<in> set (fsDirs fs) then
            (fs, Inr (sort_key fst
               (map (\<lambda>n. (n, False)) (List.map_filter (\<lambda>(p, _). entryOf d p) (fsFiles fs)) @
                map (\<lambda>n. (n, True)) (List.map_filter (entryOf d) (fsDirs fs)))))
          else (fs, Inl (FsNotExist d)))"

section \<open>Records and their places\<close>

record json =
  marshalInfo :: "Info \<Rightarrow> fs_error + bytes"
  unmarshalInfo :: "bytes \<Rightarrow> Info option"

definition globalNamespaceDir :: bytes where "globalNamespaceDir = str ''_global''"
definition DefaultRetentionCount :: int where "DefaultRetentionCount = 10"

definition Namespace :: "bytes \<Rightarrow> bytes" where
  "Namespace i = (case IndexByte i slash of Some k \<Rightarrow> take k i | None \<Rightarrow> [])"

definition encodeName :: "bytes \<Rightarrow> bytes" where "encodeName n = QueryEscape n"

definition namespaceDir :: "bytes \<Rightarrow> bytes \<Rightarrow> bytes" where
  "namespaceDir retentionDir i =
     (let ns = Namespace i in
      if ns = [] then Join retentionDir globalNamespaceDir else Join retentionDir (encodeName ns))"

definition RecordPath :: "bytes \<Rightarrow> bytes \<Rightarrow> bytes" where
  "RecordPath retentionDir i = Join (namespaceDir retentionDir i) (encodeName i @ str ''.json'')"

definition HistoryPath :: "bytes \<Rightarrow> bytes \<Rightarrow> bytes" where
  "HistoryPath retentionDir i = Join (namespaceDir retentionDir i) (encodeName i @ str ''.history'')"

definition writeRecord :: "json \<Rightarrow> fsys \<Rightarrow> bytes \<Rightarrow> Info \<Rightarrow> bytes \<Rightarrow> fsys \<times> fs_error option" where
  "writeRecord js fs retentionDir info history =
     (let d = namespaceDir retentionDir (iID info) in
      case fsMkdirAll fs d of
        (fs, Some e) \<Rightarrow> (fs, Some e)
      | (fs, None) \<Rightarrow>
          (case marshalInfo js info of
             Inl e \<Rightarrow> (fs, Some e)
           | Inr data \<Rightarrow>
               (case fsWriteFile fs (HistoryPath retentionDir (iID info)) history of
                  (fs, Some e) \<Rightarrow> (fs, Some e)
                | (fs, None) \<Rightarrow> fsWriteFile fs (RecordPath retentionDir (iID info)) data)))"

text \<open>The zero \<open>time.Time\<close>, in nanoseconds from the Unix epoch.\<close>

definition zeroTime :: int where "zeroTime = - 62135596800000000000"

definition recordEndedAt :: "json \<Rightarrow> fsys \<Rightarrow> bytes \<Rightarrow> fsys \<times> int" where
  "recordEndedAt js fs path =
     (let (fs, r) = fsReadFile fs path;
          fromRecord =
            (case r of
               Inl _ \<Rightarrow> None
             | Inr data \<Rightarrow> (case unmarshalInfo js data of None \<Rightarrow> None | Some i \<Rightarrow> iEndedAt i)) in
      case fromRecord of
        Some t \<Rightarrow> (fs, t)
      | None \<Rightarrow>
          (case fsStat fs path of (fs, Inr t) \<Rightarrow> (fs, t) | (fs, Inl _) \<Rightarrow> (fs, zeroTime)))"

section \<open>Pruning\<close>

record retained =
  base :: bytes
  ended :: int

type_synonym sorter = "(retained \<Rightarrow> int) \<Rightarrow> retained list \<Rightarrow> retained list"

text \<open>The loop over the directory's entries.\<close>

fun collect :: "json \<Rightarrow> fsys \<Rightarrow> bytes \<Rightarrow> (bytes \<times> bool) list \<Rightarrow> fsys \<times> retained list" where
  "collect js fs d [] = (fs, [])"
| "collect js fs d ((n, isDir) # es) =
     (if isDir \<or> \<not> HasSuffix n (str ''.json'') then collect js fs d es
      else
        let (fs, t) = recordEndedAt js fs (Join d n);
            (fs, rs) = collect js fs d es in
        (fs, \<lparr>base = TrimSuffix n (str ''.json''), ended = t\<rparr> # rs))"

text \<open>The loop over \<open>records[keep:]\<close>; the errors are those \<open>errors.Join\<close> collects.\<close>

fun removeRecords :: "fsys \<Rightarrow> bytes \<Rightarrow> retained list \<Rightarrow> fsys \<times> fs_error list" where
  "removeRecords fs d [] = (fs, [])"
| "removeRecords fs d (r # rs) =
     (let (fs, e1) = fsRemove fs (Join d (base r @ str ''.json''));
          (fs, e2) = fsRemove fs (Join d (base r @ str ''.history''));
          (fs, es) = removeRecords fs d rs in
      (fs, (case e1 of None \<Rightarrow> [] | Some e \<Rightarrow> [e]) @ (case e2 of None \<Rightarrow> [] | Some e \<Rightarrow> [e]) @ es))"

definition pruneRetention ::
    "sorter \<Rightarrow> json \<Rightarrow> fsys \<Rightarrow> bytes \<Rightarrow> bytes \<Rightarrow> int \<Rightarrow> fsys \<times> fs_error list" where
  "pruneRetention sortDesc js fs retentionDir i keep =
     (let keep = (if keep \<le> 0 then DefaultRetentionCount else keep);
          d = namespaceDir retentionDir i in
      case fsReadDir fs d of
        (fs, Inl (FsNotExist _)) \<Rightarrow> (fs, [])
      | (fs, Inl e) \<Rightarrow> (fs, [e])
      | (fs, Inr entries) \<Rightarrow>
          let (fs, records) = collect js fs d entries in
          if length records \<le> nat keep then (fs, [])
          else removeRecords fs d (drop (nat keep) (sortDesc ended records)))"

section \<open>Running sessions of the namespace\<close>

text \<open>\<open>net.DialTimeout\<close> and the close of the connection it makes.\<close>

datatype dial = DialOpen "fs_error option" | DialNotExist | DialRefused | DialFailed fs_error

definition socketAlive :: "(bytes \<Rightarrow> dial) \<Rightarrow> bytes \<Rightarrow> bool \<times> fs_error option" where
  "socketAlive dialUnix path =
     (case dialUnix path of
        DialNotExist \<Rightarrow> (False, None)
      | DialRefused \<Rightarrow> (False, None)
      | DialFailed e \<Rightarrow> (False, Some e)
      | DialOpen e \<Rightarrow> (True, e))"

fun countActive :: "(bytes \<Rightarrow> dial) \<Rightarrow> bytes \<Rightarrow> bytes \<Rightarrow> bytes list \<Rightarrow> nat \<Rightarrow> fs_error list \<Rightarrow> nat \<times> fs_error list" where
  "countActive dialUnix sdir i [] n es = (n, es)"
| "countActive dialUnix sdir i (name # names) n es =
     (if \<not> HasSuffix name (str ''.sock'') then countActive dialUnix sdir i names n es
      else
        case QueryUnescape (TrimSuffix name (str ''.sock'')) of
          None \<Rightarrow> countActive dialUnix sdir i names n es
        | Some other \<Rightarrow>
            if other = i \<or> Namespace other \<noteq> Namespace i then countActive dialUnix sdir i names n es
            else
              let (alive, e) = socketAlive dialUnix (Join sdir name) in
              countActive dialUnix sdir i names (if alive then n + 1 else n)
                (es @ (case e of None \<Rightarrow> [] | Some x \<Rightarrow> [x])))"

definition activeNamespaceSessions ::
    "(bytes \<Rightarrow> dial) \<Rightarrow> fsys \<Rightarrow> bytes \<Rightarrow> bytes \<Rightarrow> fsys \<times> (nat \<times> fs_error list)" where
  "activeNamespaceSessions dialUnix fs sdir i =
     (case fsReadDir fs sdir of
        (fs, Inl e) \<Rightarrow> (fs, (0, [e]))
      | (fs, Inr entries) \<Rightarrow> (fs, countActive dialUnix sdir i (map fst entries) 0 []))"

section \<open>Distinct ids, distinct files\<close>

lemma namespaceDir_Nil [simp]: "namespaceDir d i \<noteq> []"
  by (simp add: namespaceDir_def Let_def Join_Nil globalNamespaceDir_def encodeName_def)

lemma component_suffix:
  assumes "2 < length s" "slash \<notin> set s" "slash \<notin> set c" shows "component (c @ s)"
proof -
  have "length dot = 1" "length dotdot = 2" by (simp_all add: dot_def dotdot_def)
  moreover have "length (c @ s) \<noteq> 1 \<and> length (c @ s) \<noteq> 2 \<and> c @ s \<noteq> []"
    using assms(1) by auto
  ultimately have "c @ s \<noteq> dot" "c @ s \<noteq> dotdot" "c @ s \<noteq> []" by metis+
  then show ?thesis using assms(2,3) by (simp add: component_def)
qed

lemma component_encoded: "2 < length s \<Longrightarrow> slash \<notin> set s \<Longrightarrow> component (encodeName i @ s)"
  by (rule component_suffix) (simp_all add: encodeName_def)

lemma suffix_no_slash: "slash \<notin> set (str ''.json'')" "slash \<notin> set (str ''.history'')"
  by (simp_all add: slash_def)

lemma last_RecordPath: "last (splitSlash (RecordPath d i)) = encodeName i @ str ''.json''"
  unfolding RecordPath_def by (rule Join_last) (simp_all add: component_encoded suffix_no_slash del: str_Cons)

lemma last_HistoryPath: "last (splitSlash (HistoryPath d i)) = encodeName i @ str ''.history''"
  unfolding HistoryPath_def by (rule Join_last) (simp_all add: component_encoded suffix_no_slash del: str_Cons)

text \<open>
  C35. No two ids share a record or a history file, and no record is a history: the files of one
  ended session never overwrite those of another.
\<close>

theorem record_files_distinct:
  "(RecordPath d i = RecordPath d j \<longleftrightarrow> i = j) \<and> (HistoryPath d i = HistoryPath d j \<longleftrightarrow> i = j) \<and>
   RecordPath d i \<noteq> HistoryPath d j"
proof (intro conjI)
  show "RecordPath d i = RecordPath d j \<longleftrightarrow> i = j"
    by (metis last_RecordPath append_same_eq encodeName_def QueryEscape_inj)
  show "HistoryPath d i = HistoryPath d j \<longleftrightarrow> i = j"
    by (metis last_HistoryPath append_same_eq encodeName_def QueryEscape_inj)
  have "last (encodeName i @ str ''.json'') \<noteq> last (encodeName j @ str ''.history'')" by simp
  then show "RecordPath d i \<noteq> HistoryPath d j"
    using last_RecordPath [of d i] last_HistoryPath [of d j] by metis
qed

text \<open>
  Unless the namespace is \<open>.\<close> or \<open>..\<close>, a record lies exactly one directory below the
  retention directory.
\<close>

theorem record_contained:
  assumes "d \<noteq> []" and "cleanComponents d \<noteq> []" and "Namespace i \<noteq> dot" and "Namespace i \<noteq> dotdot"
  shows "RecordPath d i =
    Clean d @ slash # (if Namespace i = [] then globalNamespaceDir else encodeName (Namespace i)) @
    slash # encodeName i @ str ''.json''"
proof -
  define c where "c = (if Namespace i = [] then globalNamespaceDir else encodeName (Namespace i))"
  have "component globalNamespaceDir" by code_simp
  then have c: "component c" using assms(3,4)
    by (auto simp: c_def component_def encodeName_def QueryEscape_eq_dot)
  have ns: "namespaceDir d i = Join d c" by (simp add: namespaceDir_def c_def Let_def)
  have f: "component (encodeName i @ str ''.json'')" by (rule component_encoded) (simp_all add: slash_def)
  have "cleanComponents (Join d c) \<noteq> []" "Clean (Join d c) = Join d c"
    using cleanComponents_Join [OF assms(1) c] by simp_all
  then show ?thesis
    using Join_component [OF _ f, of "Join d c"] Join_component [OF assms(1) c] assms(1,2)
    unfolding RecordPath_def ns c_def [symmetric] by (simp add: Join_Nil del: str_Cons)
qed

theorem record_contained_witness:
  "RecordPath (str ''/s/ended'') (str ''ci/1'') =
     Clean (str ''/s/ended'') @ slash # encodeName (str ''ci'') @ slash # encodeName (str ''ci/1'') @ str ''.json''"
proof -
  have 1: "str ''/s/ended'' \<noteq> []" by simp
  have 2: "cleanComponents (str ''/s/ended'') \<noteq> []" by code_simp
  have 3: "Namespace (str ''ci/1'') \<noteq> dot" "Namespace (str ''ci/1'') \<noteq> dotdot" by code_simp+
  have "Namespace (str ''ci/1'') = str ''ci''" by code_simp
  with record_contained [OF 1 2 3] show ?thesis by simp
qed

text \<open>
  A namespace of two dots is not contained: escaping leaves dots alone, so the record of
  \<open>../x\<close> lands beside the retention directory, and the namespace \<open>_global\<close> is the
  directory of the ids without a namespace.
\<close>

theorem dotdot_namespace_escapes:
  "RecordPath (str ''/s/ended'') (str ''../x'') = str ''/s/..%2Fx.json'' \<and>
   namespaceDir d (str ''_global/x'') = namespaceDir d (str ''x'')"
proof
  show "RecordPath (str ''/s/ended'') (str ''../x'') = str ''/s/..%2Fx.json''" by code_simp
  have "Namespace (str ''_global/x'') = globalNamespaceDir" "Namespace (str ''x'') = []"
    "encodeName globalNamespaceDir = globalNamespaceDir" "globalNamespaceDir \<noteq> []"
    by code_simp+
  then show "namespaceDir d (str ''_global/x'') = namespaceDir d (str ''x'')"
    by (simp add: namespaceDir_def)
qed

section \<open>Pruning keeps the newest\<close>

text \<open>What the code relies on of \<open>sort.Slice\<close> with the comparison \<open>ended.After\<close>.\<close>

locale go_sort =
  fixes sortDesc :: sorter
  assumes sort_perm: "mset (sortDesc k xs) = mset xs"
    and sort_desc: "sorted_wrt (\<lambda>a b. k b \<le> k a) (sortDesc k xs)"
begin

lemma sort_length: "length (sortDesc k xs) = length xs"
  by (metis sort_perm size_mset)

lemma sort_split: "mset xs = mset (take n (sortDesc k xs)) + mset (drop n (sortDesc k xs))"
  by (metis append_take_drop_id mset_append sort_perm)

lemma sort_take_newer:
  assumes "a \<in> set (take n (sortDesc k xs))" "b \<in> set (drop n (sortDesc k xs))"
  shows "k b \<le> k a"
  using sort_desc [of k xs] assms
  by (metis append_take_drop_id sorted_wrt_append)

end

definition sortNewest :: sorter where
  "sortNewest k xs = sort_key (\<lambda>r. - k r) xs"

interpretation newest: go_sort sortNewest
proof
  fix k xs
  show "mset (sortNewest k xs) = mset xs" by (simp add: sortNewest_def)
  show "sorted_wrt (\<lambda>a b. k b \<le> k a) (sortNewest k xs)"
    using sorted_sort_key [of "\<lambda>r. - k r" xs] by (simp add: sortNewest_def sorted_map)
qed

text \<open>The records a directory holds, when nothing fails.\<close>

definition recordOf :: "json \<Rightarrow> fsys \<Rightarrow> bytes \<Rightarrow> bytes \<Rightarrow> retained" where
  "recordOf js fs d n =
     \<lparr>base = TrimSuffix n (str ''.json''), ended = snd (recordEndedAt js fs (Join d n))\<rparr>"

definition recordsIn :: "json \<Rightarrow> fsys \<Rightarrow> bytes \<Rightarrow> retained list" where
  "recordsIn js fs d =
     map (recordOf js fs d)
       (filter (\<lambda>n. HasSuffix n (str ''.json'')) (List.map_filter (\<lambda>(p, _). entryOf d p) (fsFiles fs)))"

lemma fsFault_none: "fsFaults fs = [] \<Longrightarrow> fsFault fs = (fs, None)"
  by (simp add: fsFault_def)

lemma recordEndedAt_none:
  assumes "fsFaults fs = []" shows "fst (recordEndedAt js fs p) = fs"
proof -
  have "fst (fsReadFile fs p) = fs" "fst (fsStat fs p) = fs"
    using fsFault_none [OF assms] by (auto simp: fsReadFile_def fsStat_def split: option.split)
  then show ?thesis by (auto simp: recordEndedAt_def Let_def split: prod.split option.split sum.split)
qed

lemma collect_none:
  assumes "fsFaults fs = []"
  shows "collect js fs d es = (fs, map (recordOf js fs d)
    (filter (\<lambda>n. HasSuffix n (str ''.json'')) (map fst (filter (\<lambda>(n, isDir). \<not> isDir) es))))"
proof (induction es)
  case (Cons e es)
  obtain n isDir where e: "e = (n, isDir)" by fastforce
  obtain t where "recordEndedAt js fs (Join d n) = (fs, t)"
    using recordEndedAt_none [OF assms] by (metis prod.collapse)
  then show ?case using Cons by (simp add: e recordOf_def del: str_Cons)
qed simp

definition recordFiles :: "bytes \<Rightarrow> retained \<Rightarrow> bytes set" where
  "recordFiles d r = {Join d (base r @ str ''.json''), Join d (base r @ str ''.history'')}"

lemma fsRemove_none:
  assumes "fsFaults fs = []"
  shows "fst (fsRemove fs p) = fs\<lparr>fsFiles := filter (\<lambda>(q, _). q \<noteq> p) (fsFiles fs)\<rparr>"
proof -
  have "filter (\<lambda>(q, _). q \<noteq> p) (fsFiles fs) = fsFiles fs" if "map_of (fsFiles fs) p = None"
    using that by (force simp: filter_id_conv map_of_eq_None_iff)
  then show ?thesis by (simp add: fsRemove_def fsFault_none [OF assms] split: option.split)
qed

lemma removeRecords_none:
  assumes "fsFaults fs = []"
  shows "fst (removeRecords fs d rs) =
    fs\<lparr>fsFiles := filter (\<lambda>(p, _). \<forall>r\<in>set rs. p \<notin> recordFiles d r) (fsFiles fs)\<rparr>"
  using assms
proof (induction rs arbitrary: fs)
  case (Cons r rs)
  define p1 where "p1 = Join d (base r @ str ''.json'')"
  define p2 where "p2 = Join d (base r @ str ''.history'')"
  define fs1 where "fs1 = fst (fsRemove fs p1)"
  define fs2 where "fs2 = fst (fsRemove fs1 p2)"
  have 1: "fs1 = fs\<lparr>fsFiles := filter (\<lambda>(q, _). q \<noteq> p1) (fsFiles fs)\<rparr>" "fsFaults fs1 = []"
    using Cons.prems by (simp_all add: fs1_def fsRemove_none)
  have 2: "fs2 = fs1\<lparr>fsFiles := filter (\<lambda>(q, _). q \<noteq> p2) (fsFiles fs1)\<rparr>" "fsFaults fs2 = []"
    using 1(2) by (simp_all add: fs2_def fsRemove_none)
  have "fst (removeRecords fs d (r # rs)) = fst (removeRecords fs2 d rs)"
    by (simp add: fs2_def fs1_def p1_def p2_def Let_def split_beta del: str_Cons)
  then show ?case unfolding Cons.IH [OF 2(2)]
    by (simp add: 1(1) 2(1) recordFiles_def p1_def p2_def filter_filter split_beta conj_ac del: str_Cons cong: filter_cong)
qed simp

lemma fsReadDir_none:
  assumes "fsFaults fs = []" "d \<in> set (fsDirs fs)"
  obtains es where "fsReadDir fs d = (fs, Inr es)"
    and "mset (map fst (filter (\<lambda>(n, isDir). \<not> isDir) es)) = mset (List.map_filter (\<lambda>(p, _). entryOf d p) (fsFiles fs))"
proof
  let ?fs = "map (\<lambda>n. (n, False)) (List.map_filter (\<lambda>(p, _). entryOf d p) (fsFiles fs))"
  let ?ds = "map (\<lambda>n. (n, True)) (List.map_filter (entryOf d) (fsDirs fs))"
  show "fsReadDir fs d = (fs, Inr (sort_key fst (?fs @ ?ds)))"
    using assms by (simp add: fsReadDir_def fsFault_none)
  have "filter (\<lambda>(n, isDir). \<not> isDir) (?fs @ ?ds) = ?fs" by (simp add: filter_map comp_def)
  moreover have "mset (filter P (sort_key fst xs)) = mset (filter P xs)" for P and xs :: "(bytes \<times> bool) list"
    by (simp add: mset_filter)
  ultimately have "mset (filter (\<lambda>(n, isDir). \<not> isDir) (sort_key fst (?fs @ ?ds))) = mset ?fs" by metis
  then show "mset (map fst (filter (\<lambda>(n, isDir). \<not> isDir) (sort_key fst (?fs @ ?ds)))) =
      mset (List.map_filter (\<lambda>(p, _). entryOf d p) (fsFiles fs))"
    by (simp only: mset_map) (simp add: image_mset.compositionality comp_def flip: mset_map)
qed

text \<open>Pruning a readable directory takes away the records after the limit.\<close>

lemma pruneRetention_drops:
  assumes "fsFaults fs = []" "d = namespaceDir rdir i" "d \<in> set (fsDirs fs)" "limit = (if keep \<le> 0 then 10 else nat keep)"
  shows "\<exists>rs. mset rs = mset (recordsIn js fs d) \<and>
    pruneRetention sortDesc js fs rdir i keep =
      (if length rs \<le> limit then (fs, []) else removeRecords fs d (drop limit (sortDesc ended rs)))"
proof -
  obtain es where es: "fsReadDir fs d = (fs, Inr es)"
    "mset (map fst (filter (\<lambda>(n, isDir). \<not> isDir) es)) = mset (List.map_filter (\<lambda>(p, _). entryOf d p) (fsFiles fs))"
    using fsReadDir_none [OF assms(1,3)] by blast
  define rs where "rs = snd (collect js fs d es)"
  have mf: "mset (map f (filter P xs)) = image_mset f (filter_mset P (mset xs))" for f P and xs :: "bytes list"
    by (simp add: mset_filter)
  have rs: "collect js fs d es = (fs, rs)" by (simp add: rs_def collect_none [OF assms(1)])
  have m: "mset rs = mset (recordsIn js fs d)"
    unfolding rs_def collect_none [OF assms(1)] recordsIn_def snd_conv mf es(2) ..
  have lim: "nat (if keep \<le> 0 then DefaultRetentionCount else keep) = limit"
    using assms(4) by (simp add: DefaultRetentionCount_def)
  have "pruneRetention sortDesc js fs rdir i keep =
      (if length rs \<le> limit then (fs, []) else removeRecords fs d (drop limit (sortDesc ended rs)))"
    by (simp add: pruneRetention_def assms(2) [symmetric] es(1) rs Let_def lim)
  then show ?thesis using m by blast
qed

text \<open>
  C16. Pruning keeps the newest records of the namespace and removes exactly the files of the
  others: whatever order the unstable sort gives to equal times, no removed record is newer than
  a kept one, the kept ones are as many as the limit allows, and no other file changes.
\<close>

theorem pruneRetention_keeps_newest:
  assumes "go_sort sortDesc" and "fsFaults fs = []" and "namespaceDir rdir i \<in> set (fsDirs fs)"
    and "limit = (if keep \<le> 0 then 10 else nat keep)"
  shows "\<exists>kept dropped.
     mset (recordsIn js fs (namespaceDir rdir i)) = mset kept + mset dropped \<and>
     length kept = min limit (length (recordsIn js fs (namespaceDir rdir i))) \<and>
     (\<forall>a\<in>set kept. \<forall>b\<in>set dropped. ended b \<le> ended a) \<and>
     fsFiles (fst (pruneRetention sortDesc js fs rdir i keep)) =
       filter (\<lambda>(p, _). \<forall>r\<in>set dropped. p \<notin> recordFiles (namespaceDir rdir i) r) (fsFiles fs)"
proof -
  define d where "d = namespaceDir rdir i"
  obtain rs where m: "mset rs = mset (recordsIn js fs d)"
    and p: "pruneRetention sortDesc js fs rdir i keep =
      (if length rs \<le> limit then (fs, []) else removeRecords fs d (drop limit (sortDesc ended rs)))"
    using pruneRetention_drops [OF assms(2) d_def assms(3) [folded d_def] assms(4)] by blast
  have len: "length (recordsIn js fs d) = length rs" using m by (metis size_mset)
  show ?thesis
  proof (cases "length rs \<le> limit")
    case True
    then show ?thesis unfolding p d_def [symmetric] m [symmetric] len
      by (intro exI [of _ rs] exI [of _ "[]"]) simp
  next
    case False
    then show ?thesis unfolding p d_def [symmetric] m [symmetric] len
      using go_sort.sort_split [OF assms(1), of rs limit ended] go_sort.sort_length [OF assms(1), of ended rs]
        go_sort.sort_take_newer [OF assms(1), of _ limit ended rs]
      by (intro exI [of _ "take limit (sortDesc ended rs)"] exI [of _ "drop limit (sortDesc ended rs)"])
        (simp add: removeRecords_none [OF assms(2)])
  qed
qed

definition demoJson :: json where
  "demoJson = \<lparr>marshalInfo = (\<lambda>i. Inr []), unmarshalInfo = (\<lambda>d. None)\<rparr>"

definition demoFs :: fsys where
  "demoFs = \<lparr>fsFiles = [(str ''/s/_global/a.json'', ([], 1)), (str ''/s/_global/b.json'', ([], 2))],
     fsDirs = [str ''/s/_global''], fsFaults = [], fsNow = 3\<rparr>"

theorem pruneRetention_keeps_newest_witness:
  "\<exists>kept dropped.
     mset (recordsIn demoJson demoFs (namespaceDir (str ''/s'') (str ''c''))) = mset kept + mset dropped \<and>
     length kept = min 1 (length (recordsIn demoJson demoFs (namespaceDir (str ''/s'') (str ''c'')))) \<and>
     (\<forall>a\<in>set kept. \<forall>b\<in>set dropped. ended b \<le> ended a) \<and>
     fsFiles (fst (pruneRetention sortNewest demoJson demoFs (str ''/s'') (str ''c'') 1)) =
       filter (\<lambda>(p, _). \<forall>r\<in>set dropped. p \<notin> recordFiles (namespaceDir (str ''/s'') (str ''c'')) r) (fsFiles demoFs)"
proof -
  have 1: "fsFaults demoFs = []" by (simp add: demoFs_def)
  have 2: "namespaceDir (str ''/s'') (str ''c'') \<in> set (fsDirs demoFs)" by code_simp
  have 3: "(1 :: nat) = (if (1 :: int) \<le> 0 then 10 else nat 1)" by simp
  show ?thesis by (rule pruneRetention_keeps_newest [OF newest.go_sort_axioms 1 2 3])
qed

section \<open>Counting running sessions\<close>

definition socketName :: "bytes \<Rightarrow> bytes" where
  "socketName i = encodeName i @ str ''.sock''"

definition occupies :: "(bytes \<Rightarrow> dial) \<Rightarrow> bytes \<Rightarrow> bytes \<Rightarrow> bytes \<Rightarrow> bool" where
  "occupies dialUnix sdir i j \<longleftrightarrow>
     j \<noteq> i \<and> Namespace j = Namespace i \<and> fst (socketAlive dialUnix (Join sdir (socketName j)))"

lemma countActive_sockets:
  "fst (countActive dialUnix sdir i (map socketName ids) n es) =
     n + length (filter (occupies dialUnix sdir i) ids)"
proof (induction ids arbitrary: n es)
  case (Cons j ids)
  have s: "HasSuffix (socketName j) (str ''.sock'')"
    "QueryUnescape (TrimSuffix (socketName j) (str ''.sock'')) = Some j"
    by (simp_all add: socketName_def encodeName_def del: str_Cons)
  show ?case using Cons s
    by (simp add: occupies_def split_beta Let_def del: str_Cons)
qed simp

text \<open>
  In a socket directory that holds one socket per session the count is exact: a session
  counts when it is another one, of the same namespace, whose socket accepts connections; a stale
  socket, one of another namespace, and a file that is no socket do not count.
\<close>

theorem activeNamespaceSessions_counts:
  assumes "fsReadDir fs sdir = (fs, Inr (map (\<lambda>n. (n, False)) (map socketName ids)))"
  shows "fst (snd (activeNamespaceSessions dialUnix fs sdir i)) =
    length (filter (\<lambda>j. j \<noteq> i \<and> Namespace j = Namespace i \<and>
      (\<exists>e. dialUnix (Join sdir (socketName j)) = DialOpen e)) ids)"
proof -
  have "fst (socketAlive dialUnix p) = (\<exists>e. dialUnix p = DialOpen e)" for p
    by (simp add: socketAlive_def split: dial.split)
  then show ?thesis using countActive_sockets [of dialUnix sdir i ids 0 "[]"]
    by (simp add: activeNamespaceSessions_def assms comp_def occupies_def [abs_def] split_beta)
qed

definition demoSockets :: fsys where
  "demoSockets = \<lparr>fsFiles = [(str ''/r/ci%2Fb.sock'', ([], 1)), (str ''/r/ci%2Fa.sock'', ([], 1)), (str ''/r/x.sock'', ([], 2))],
     fsDirs = [str ''/r''], fsFaults = [], fsNow = 3\<rparr>"

theorem activeNamespaceSessions_counts_witness:
  "fst (snd (activeNamespaceSessions (\<lambda>p. DialOpen None) demoSockets (str ''/r'') (str ''ci/a''))) = 1"
proof -
  have r: "fsReadDir demoSockets (str ''/r'') =
    (demoSockets, Inr (map (\<lambda>n. (n, False)) (map socketName [str ''ci/a'', str ''ci/b'', str ''x''])))"
    by code_simp
  have "Namespace (str ''ci/b'') = Namespace (str ''ci/a'')" "Namespace (str ''x'') \<noteq> Namespace (str ''ci/a'')"
    by code_simp+
  then show ?thesis using activeNamespaceSessions_counts [OF r, of "\<lambda>p. DialOpen None" "str ''ci/a''"]
    by simp
qed

end
