(* ===== verification/Device_Attributes.thy ===== *)
theory Device_Attributes
  imports Bgx_Prelude
begin

text \<open>
  \<open>daemon/da.go\<close>: the replies the daemon writes into the PTY for Device Attributes queries
  while no client is attached. The scan is the loop of the code over the offsets of one chunk
  of output; lemmas relate it to a reply per offset, and show that a reply is never itself
  answered.
\<close>

definition da1Query :: bytes where "da1Query = 0x1B # str ''[c''"
definition da1QueryExplicit :: bytes where "da1QueryExplicit = 0x1B # str ''[0c''"
definition da2Query :: bytes where "da2Query = 0x1B # str ''[>c''"
definition da2QueryExplicit :: bytes where "da2QueryExplicit = 0x1B # str ''[>0c''"
definition da1Response :: bytes where "da1Response = 0x1B # str ''[?62;22c''"
definition da2Response :: bytes where "da2Response = 0x1B # str ''[>1;10;0c''"

lemmas da_defs = da1Query_def da1QueryExplicit_def da2Query_def da2QueryExplicit_def
  da1Response_def da2Response_def

function scanLoop :: "bytes \<Rightarrow> nat \<Rightarrow> bytes \<Rightarrow> bytes" where
  "scanLoop data i out =
     (if i < length data then
        if data ! i \<noteq> 0x1B \<or> i + 1 \<ge> length data \<or> data ! (i + 1) \<noteq> 0x5B then
          scanLoop data (i + 1) out
        else if i + 2 < length data \<and> data ! (i + 2) = 0x3F then
          scanLoop data (i + 3) out
        else
          let r = drop i data in
          if HasPrefix r da2Query \<or> HasPrefix r da2QueryExplicit then
            scanLoop data (i + 1) (out @ da2Response)
          else if HasPrefix r da1Query \<or> HasPrefix r da1QueryExplicit then
            scanLoop data (i + 1) (out @ da1Response)
          else scanLoop data (i + 1) out
      else out)"
  by pat_completeness auto
termination
  by (relation "measure (\<lambda>(data, i, out). length data - i)") auto

declare scanLoop.simps [simp del]

definition scanDeviceAttributes :: "bytes \<Rightarrow> bytes" where
  "scanDeviceAttributes data = scanLoop data 0 []"

section \<open>One reply per offset\<close>

text \<open>The reply to the query that starts a suffix of the data, if one does.\<close>

definition replyTo :: "bytes \<Rightarrow> bytes" where
  "replyTo r =
     (if HasPrefix r da2Query \<or> HasPrefix r da2QueryExplicit then da2Response
      else if HasPrefix r da1Query \<or> HasPrefix r da1QueryExplicit then da1Response
      else [])"

fun replies :: "bytes \<Rightarrow> bytes" where
  "replies [] = []"
| "replies (b # r) = replyTo (b # r) @ replies r"

lemma replyTo_not_query:
  "replyTo [] = []" "b \<noteq> 0x1B \<Longrightarrow> replyTo (b # r) = []" "replyTo [b] = []"
  "c \<noteq> 0x5B \<Longrightarrow> replyTo (b # c # r) = []" "replyTo (b # c # 0x3F # r) = []"
  by (simp_all add: replyTo_def da_defs)

lemma replies_drop:
  "i < length data \<Longrightarrow> replies (drop i data) = replyTo (drop i data) @ replies (drop (Suc i) data)"
  by (simp add: Cons_nth_drop_Suc [symmetric])

lemma scanLoop_replies: "scanLoop data i out = out @ replies (drop i data)"
proof (induction data i out rule: scanLoop.induct)
  case (1 data i out)
  show ?case
  proof (cases "i < length data")
    case i: True
    note d = Cons_nth_drop_Suc [OF i, symmetric]
    show ?thesis
    proof (cases "data ! i \<noteq> 0x1B \<or> i + 1 \<ge> length data \<or> data ! (i + 1) \<noteq> 0x5B")
      case True
      then have "replyTo (drop i data) = []"
        by (cases "Suc i < length data")
          (auto simp: d Cons_nth_drop_Suc [of "Suc i", symmetric] replyTo_not_query)
      then show ?thesis using 1(1) [OF i True] True i
        by (subst scanLoop.simps) (simp add: replies_drop [OF i])
    next
      case csi: False
      then have i1: "Suc i < length data" by simp
      note d1 = Cons_nth_drop_Suc [OF i1, symmetric]
      show ?thesis
      proof (cases "i + 2 < length data \<and> data ! (i + 2) = 0x3F")
        case True
        then have i2: "Suc (Suc i) < length data" by simp
        have "replies (drop i data) = replies (drop (i + 3) data)"
          using csi True by (simp add: d d1 Cons_nth_drop_Suc [OF i2, symmetric] replyTo_def da_defs
              numeral_3_eq_3)
        then show ?thesis using 1(2) [OF i csi True] csi True i
          by (subst scanLoop.simps) simp
      next
        case False
        show ?thesis
          using 1(3,4,5) [OF i csi False refl] csi False i
          by (subst scanLoop.simps [of data i out]) (auto simp: Let_def replies_drop [OF i] replyTo_def)
      qed
    qed
  next
    case False
    then show ?thesis by (subst scanLoop.simps) simp
  qed
qed

text \<open>
  C37. The scan answers each Device Attributes query of the data, in order, with one reply: its
  result is the concatenation over all offsets of the reply to the query starting there, so the
  skip over \<open>ESC [ ?\<close> neither loses nor duplicates a query.
\<close>

theorem scanDeviceAttributes_replies: "scanDeviceAttributes data = replies data"
  by (simp add: scanDeviceAttributes_def scanLoop_replies)

lemma replies_response:
  "replies (da1Response @ r) = replies r" "replies (da2Response @ r) = replies r"
  by (simp_all add: da_defs replyTo_def)

lemma replies_replies: "replies (replies data) = []"
  by (induction data) (auto simp: replyTo_def replies_response)

text \<open>
  The bytes fed back into the PTY are never themselves answered, so an application that
  echoes them does not make the daemon reply again.
\<close>

theorem replies_inert: "scanDeviceAttributes (scanDeviceAttributes data) = []"
  by (simp add: scanDeviceAttributes_replies replies_replies)

text \<open>
  The scan sees one read of the PTY at a time: a query that arrives split over two reads gets
  no reply, whichever way it is split.
\<close>

lemma split_query_unanswered:
  "scanDeviceAttributes da1Query = da1Response \<and>
   (\<forall>n\<in>{1..<length da1Query}. scanDeviceAttributes (take n da1Query) @ scanDeviceAttributes (drop n da1Query) = [])"
  by (simp add: scanDeviceAttributes_replies da_defs replyTo_def numeral_eq_Suc atLeastLessThanSuc)

end
