(* ===== verification/Fanout.thy ===== *)
theory Fanout
  imports Session_State
begin

text \<open>
  \<open>daemon/attach.go\<close> and the output pump's \<open>feedTerm\<close> of \<open>daemon/daemon.go\<close>: how PTY
  output reaches the emulated terminal and every attached client. The clients are an association
  list from connection numbers; a step of the pump, of a client's reader, of its writer goroutine
  or of the shutdown is a function on the session, and any interleaving of such steps is a run.
  The locale \<open>fanout_contract\<close> is what the fanout promises to a property of the frames a client
  gets; it is instantiated twice: the frames tile the output after a snapshot, and a client that
  replays them agrees with the session on screen and modes.
\<close>

section \<open>Attachers\<close>

definition attachQueue :: nat where "attachQueue = 1024"

definition setAttacher :: "'g session \<Rightarrow> nat \<Rightarrow> (attacher \<Rightarrow> attacher) \<Rightarrow> 'g session" where
  "setAttacher s i f =
     s\<lparr>attachers := map (\<lambda>(j, a). (j, if j = i then f a else a)) (attachers s)\<rparr>"

definition newAttacher :: "bytes \<Rightarrow> attacher" where
  "newAttacher snap =
     \<lparr>obuf = [], pendingSnapshot = None, aclosed = False, arows = 0, acols = 0,
      writer = WriterSending \<lparr>ofTag = FrameOutput, ofPayload = snap\<rparr>, sent = [],
      connClosed = False, writeFailed = False\<rparr>"

definition signalClose :: "attacher \<Rightarrow> attacher" where
  "signalClose a = a\<lparr>aclosed := True\<rparr>"

definition enqueueFrame :: "'g session \<Rightarrow> nat \<Rightarrow> outFrame \<Rightarrow> 'g session" where
  "enqueueFrame s i f = setAttacher s i (\<lambda>a. a\<lparr>obuf := obuf a @ [f]\<rparr>)"

text \<open>\<open>endAttachers\<close>\<close>

definition endAttachers :: "'g session \<Rightarrow> 'g session" where
  "endAttachers s =
     s\<lparr>attachers := map (\<lambda>(i, a). (i, a\<lparr>obuf := obuf a @ [\<lparr>ofTag = FrameEnded, ofPayload = []\<rparr>]\<rparr>)) (attachers s)\<rparr>"

section \<open>Delivering output\<close>

definition deliverOutput :: "'g ghostty \<Rightarrow> 'g session \<Rightarrow> nat \<Rightarrow> bytes \<Rightarrow> 'g session" where
  "deliverOutput G s i data =
     (case map_of (attachers s) i of
        None \<Rightarrow> s
      | Some a \<Rightarrow>
          if length (obuf a) \<ge> attachQueue then
            (case TSnapshot G (sterm s) of
               (t, Inl e) \<Rightarrow> recordHandlerError (s\<lparr>sterm := t\<rparr>) [SnapshotFailed e]
             | (t, Inr snap) \<Rightarrow>
                 setAttacher (s\<lparr>sterm := t\<rparr>) i (\<lambda>a. a\<lparr>obuf := [], pendingSnapshot := Some snap\<rparr>))
          else setAttacher s i (\<lambda>a. a\<lparr>obuf := obuf a @ [\<lparr>ofTag = FrameOutput, ofPayload = data\<rparr>]\<rparr>))"

definition fanout :: "'g ghostty \<Rightarrow> 'g session \<Rightarrow> bytes \<Rightarrow> 'g session" where
  "fanout G s data = foldl (\<lambda>s i. deliverOutput G s i data) s (map fst (attachers s))"

text \<open>\<open>Terminal.Write\<close> never returns an error, so the error branch of \<open>feedTerm\<close> is empty.\<close>

definition feedTerm :: "'g ghostty \<Rightarrow> 'g session \<Rightarrow> bytes \<Rightarrow> bool \<Rightarrow> 'g session" where
  "feedTerm G s data flush =
     (let s = s\<lparr>outPending := outPending s @ data\<rparr>;
          n = (if flush then int (length (outPending s))
               else SafeCut (outScan s) (outPending s) (int (length (outPending s)))) in
      if n \<le> 0 then s
      else
        let safe = take (nat n) (outPending s);
            s = s\<lparr>outScan := Advance (outScan s) safe\<rparr>;
            s = fanout G (s\<lparr>sterm := TWrite G (sterm s) safe\<rparr>) safe in
        s\<lparr>outPending := drop (nat n) (outPending s)\<rparr>)"

section \<open>Serving a client\<close>

text \<open>The handshake of \<open>serveAttach\<close>: whether the request is answered with an error.\<close>

definition attachRefused :: "'g session \<Rightarrow> bool" where
  "attachRefused s \<longleftrightarrow> sended s \<or> closing s"

text \<open>Rendering the screen and joining the fanout, under \<open>outMu\<close>.\<close>

definition joinFanout :: "'g ghostty \<Rightarrow> 'g session \<Rightarrow> nat \<Rightarrow> 'g session \<times> sess_error option" where
  "joinFanout G s i =
     (case TSnapshot G (sterm s) of
        (t, Inl e) \<Rightarrow> (s\<lparr>sterm := t\<rparr>, Some (SnapshotFailed e))
      | (t, Inr snap) \<Rightarrow>
          (s\<lparr>sterm := t, attachers := (i, newAttacher snap) # attachers s, clientCount := clientCount s + 1\<rparr>, None))"

definition requestSize :: "'g session \<Rightarrow> nat \<Rightarrow> 'g session" where
  "requestSize s i = enqueueFrame s i \<lparr>ofTag = FrameResize, ofPayload = []\<rparr>"

definition attachInput :: "'g session \<Rightarrow> bytes \<Rightarrow> 'g session" where
  "attachInput s p = (if length p = 0 then s else queueInput s p)"

definition attachResize :: "'g ghostty \<Rightarrow> (16 word \<Rightarrow> 16 word \<Rightarrow> sess_error option) \<Rightarrow> 'g session \<Rightarrow>
    nat \<Rightarrow> ResizePayload \<Rightarrow> 'g session \<times> sess_error option" where
  "attachResize G setsize s i rp =
     (if Rows rp = 0 \<or> Cols rp = 0 then (s, None)
      else applyMinSize G setsize (setAttacher s i (\<lambda>a. a\<lparr>acols := Cols rp, arows := Rows rp\<rparr>)))"

text \<open>
  What follows the loop: the client leaves the map, the PTY grows back, and the writer is told to
  stop. The error of the resize is joined to the one that ended the loop.
\<close>

definition leaveFanout :: "'g ghostty \<Rightarrow> (16 word \<Rightarrow> 16 word \<Rightarrow> sess_error option) \<Rightarrow> 'g session \<Rightarrow>
    nat \<Rightarrow> 'g session \<times> sess_error option" where
  "leaveFanout G setsize s i =
     (let gone = filter (\<lambda>(j, a). j = i) (attachers s);
          s = s\<lparr>attachers := filter (\<lambda>(j, a). j \<noteq> i) (attachers s), clientCount := clientCount s - 1\<rparr>;
          (s, e) = applyMinSize G setsize s in
      (s\<lparr>departed := departed s @ map (\<lambda>(j, a). (j, signalClose a)) gone\<rparr>, e))"

text \<open>
  One round of the loop over the client's frames, \<open>None\<close> for a read that failed. The flag says
  whether the loop goes on.
\<close>

definition clientFrame :: "'g ghostty \<Rightarrow> (16 word \<Rightarrow> 16 word \<Rightarrow> sess_error option) \<Rightarrow> 'g session \<Rightarrow>
    nat \<Rightarrow> outFrame option \<Rightarrow> 'g session \<times> sess_error option \<times> bool" where
  "clientFrame G setsize s i r =
     (case r of
        None \<Rightarrow> (s, None, False)
      | Some f \<Rightarrow>
          if ofTag f = FrameDetach then (s, None, False)
          else if ofTag f = FrameInput then (attachInput s (ofPayload f), None, True)
          else if ofTag f = FrameResize then
            (case DecodeResize (ofPayload f) of
               Some rp \<Rightarrow> (case attachResize G setsize s i rp of (s, e) \<Rightarrow> (s, e, e = None))
             | None \<Rightarrow> (s, None, True))
          else (s, None, True))"

section \<open>The writer goroutine\<close>

text \<open>One atomic step: the end of the write under way, or the section at the lock.\<close>

definition writerStep :: "attacher \<Rightarrow> bool \<Rightarrow> attacher" where
  "writerStep a ok =
     (case writer a of
        WriterSending f \<Rightarrow>
          if \<not> ok then a\<lparr>writer := WriterDone, connClosed := True, writeFailed := True\<rparr>
          else
            let a = a\<lparr>sent := sent a @ [f]\<rparr> in
            if ofTag f = FrameEnded then a\<lparr>writer := WriterDone, connClosed := True\<rparr>
            else a\<lparr>writer := WriterLoop\<rparr>
      | WriterLoop \<Rightarrow>
          if obuf a = [] \<and> pendingSnapshot a = None \<and> \<not> aclosed a then a
          else if aclosed a then a\<lparr>writer := WriterDone\<rparr>
          else
            (case pendingSnapshot a of
               Some snap \<Rightarrow>
                 a\<lparr>pendingSnapshot := None, writer := WriterSending \<lparr>ofTag = FrameOutput, ofPayload = snap\<rparr>\<rparr>
             | None \<Rightarrow> a\<lparr>obuf := tl (obuf a), writer := WriterSending (hd (obuf a))\<rparr>)
      | WriterDone \<Rightarrow> a)"

definition stepWriter :: "'g session \<Rightarrow> nat \<Rightarrow> bool \<Rightarrow> 'g session" where
  "stepWriter s i ok =
     (let s = setAttacher s i (\<lambda>a. writerStep a ok) in
      s\<lparr>departed := map (\<lambda>(j, a). (j, if j = i then writerStep a ok else a)) (departed s)\<rparr>)"

section \<open>The contract of the fanout\<close>

text \<open>The output frames a client was or will be sent, in order.\<close>

definition underWay :: "attacher \<Rightarrow> outFrame list" where
  "underWay a = sent a @ (case writer a of WriterSending f \<Rightarrow> [f] | _ \<Rightarrow> [])"

definition frames :: "attacher \<Rightarrow> outFrame list" where
  "frames a = underWay a @
     (case pendingSnapshot a of Some p \<Rightarrow> [\<lparr>ofTag = FrameOutput, ofPayload = p\<rparr>] | None \<Rightarrow> []) @ obuf a"

definition outputsOf :: "outFrame list \<Rightarrow> bytes list" where
  "outputsOf fs = map ofPayload (filter (\<lambda>f. ofTag f = FrameOutput) fs)"

definition outputs :: "attacher \<Rightarrow> bytes list" where
  "outputs a = outputsOf (frames a)"

lemma outputsOf_append [simp]: "outputsOf (fs @ gs) = outputsOf fs @ outputsOf gs"
  by (simp add: outputsOf_def)

lemma outputsOf_simps [simp]:
  "outputsOf [] = []" "outputsOf [\<lparr>ofTag = FrameOutput, ofPayload = p\<rparr>] = [p]"
  "outputsOf [\<lparr>ofTag = FrameResize, ofPayload = p\<rparr>] = []"
  "outputsOf [\<lparr>ofTag = FrameEnded, ofPayload = p\<rparr>] = []"
  by (simp_all add: outputsOf_def frame_tag_defs)

text \<open>The writer moves frames along and never changes their order.\<close>

lemma frames_writerStep:
  "\<not> writeFailed (writerStep a ok) \<Longrightarrow> frames (writerStep a ok) = frames a"
  by (cases "writer a"; cases "obuf a"; cases "pendingSnapshot a"; cases ok)
    (auto simp: writerStep_def frames_def underWay_def Let_def)

lemma writeFailed_writerStep: "writeFailed a \<Longrightarrow> writeFailed (writerStep a ok)"
  by (auto simp: writerStep_def Let_def split: writerPc.split option.split)

lemma attachers_setAttacher [simp]:
  "attachers (setAttacher s i f) = map (\<lambda>(j, a). (j, if j = i then f a else a)) (attachers s)"
  "sterm (setAttacher s i f) = sterm s" "handlerErr (setAttacher s i f) = handlerErr s"
  "outPending (setAttacher s i f) = outPending s" "outScan (setAttacher s i f) = outScan s"
  "outDone (setAttacher s i f) = outDone s" "inputBuf (setAttacher s i f) = inputBuf s"
  by (simp_all add: setAttacher_def)

definition ids :: "'g session \<Rightarrow> nat list" where "ids s = map fst (attachers s)"

lemma ids_setAttacher [simp]: "ids (setAttacher s i f) = ids s"
  by (simp add: ids_def comp_def split_def)

locale fanout_contract =
  fixes G :: "'g ghostty"
    and T :: "bytes \<Rightarrow> 'g terminal \<Rightarrow> bool"
    and Q :: "bool \<Rightarrow> bytes \<Rightarrow> bytes list \<Rightarrow> bool"
  assumes T_write: "T R t \<Longrightarrow> T (R @ p) (TWrite G t p)"
    and T_resize: "T R t \<Longrightarrow> TResize G t c r = Inr t' \<Longrightarrow> T R t'"
    and T_snap: "T R t \<Longrightarrow> TSnapshot G t = (t', x) \<Longrightarrow> T R t'"
    and Q_join: "T R t \<Longrightarrow> TSnapshot G t = (t', Inr p) \<Longrightarrow> Q d R [p]"
    and Q_feed: "Q False R fs \<Longrightarrow> grounded R \<Longrightarrow> grounded p \<or> d \<Longrightarrow> T R t \<Longrightarrow> Q d (R @ p) (fs @ [p])"
    and Q_resync: "Q False R' (fs @ gs) \<Longrightarrow> T R t \<Longrightarrow> TSnapshot G t = (t', Inr p) \<Longrightarrow> Q d R (fs @ [p])"
    and Q_done: "Q False R fs \<Longrightarrow> Q True R fs"
begin

text \<open>Every client whose connection works has got or will get frames that satisfy \<open>Q\<close>.\<close>

definition served :: "bool \<Rightarrow> bytes \<Rightarrow> 'g session \<Rightarrow> bool" where
  "served d R s \<longleftrightarrow> T R (sterm s) \<and> distinct (ids s) \<and> (\<not> d \<longrightarrow> grounded R) \<and>
     (handlerErr s = [] \<longrightarrow> (\<forall>i a. (i, a) \<in> set (attachers s) \<longrightarrow> \<not> writeFailed a \<longrightarrow> Q d R (outputs a)))"

text \<open>In the middle of a fanout the clients of \<open>D\<close> have got the new bytes.\<close>

definition half :: "bool \<Rightarrow> bytes \<Rightarrow> bytes \<Rightarrow> nat set \<Rightarrow> 'g session \<Rightarrow> bool" where
  "half d R p D s \<longleftrightarrow> T (R @ p) (sterm s) \<and> distinct (ids s) \<and>
     (handlerErr s = [] \<longrightarrow> (\<forall>i a. (i, a) \<in> set (attachers s) \<longrightarrow> \<not> writeFailed a \<longrightarrow>
        (if i \<in> D then Q d (R @ p) (outputs a) else Q False R (outputs a))))"

lemma deliver_half:
  assumes "half d R p D s" "i \<notin> D" "grounded p \<or> d" "T R t0" "grounded R"
  shows "half d R p (insert i D) (deliverOutput G s i p) \<and> ids (deliverOutput G s i p) = ids s"
proof (cases "map_of (attachers s) i")
  case None
  then have "i \<notin> set (ids s)" by (simp add: ids_def map_of_eq_None_iff)
  then have "(j, a) \<in> set (attachers s) \<Longrightarrow> j \<noteq> i" for j a by (force simp: ids_def)
  then show ?thesis using assms(1) None by (auto simp: half_def deliverOutput_def)
next
  case (Some a)
  have only: "(i, b) \<in> set (attachers s) \<Longrightarrow> b = a" for b
    using Some assms(1) by (simp add: half_def ids_def map_of_eq_Some_iff)
  have Qa: "handlerErr s = [] \<Longrightarrow> \<not> writeFailed a \<Longrightarrow> Q False R (outputs a)"
    using assms(1,2) map_of_SomeD [OF Some] by (auto simp: half_def)
  show ?thesis
  proof (cases "length (obuf a) \<ge> attachQueue")
    case False
    have "outputs (a\<lparr>obuf := obuf a @ [\<lparr>ofTag = FrameOutput, ofPayload = p\<rparr>]\<rparr>) = outputs a @ [p]"
      by (simp add: outputs_def frames_def underWay_def)
    then show ?thesis using assms(1) False Some only Q_feed [OF Qa assms(5,3,4)]
      by (auto simp: half_def deliverOutput_def)
  next
    case True
    obtain t' r where sn: "TSnapshot G (sterm s) = (t', r)" by fastforce
    have T': "T (R @ p) t'" using T_snap [OF _ sn] assms(1) by (simp add: half_def)
    show ?thesis
    proof (cases r)
      case (Inl e)
      then show ?thesis using T' assms(1) True Some sn
        by (simp add: half_def deliverOutput_def recordHandlerError_def ids_def)
    next
      case (Inr snap)
      have "outputs a = outputsOf (underWay a) @ outputsOf (drop (length (underWay a)) (frames a))"
        by (simp add: outputs_def frames_def flip: outputsOf_append)
      then have "handlerErr s = [] \<Longrightarrow> \<not> writeFailed a \<Longrightarrow> Q d (R @ p) (outputsOf (underWay a) @ [snap])"
        using Q_resync [OF _ _ sn [unfolded Inr], of R _ _ "R @ p" d] Qa assms(1) by (metis half_def)
      moreover have "outputs (a\<lparr>obuf := [], pendingSnapshot := Some snap\<rparr>) = outputsOf (underWay a) @ [snap]"
        by (simp add: outputs_def frames_def underWay_def)
      ultimately have new: "handlerErr s = [] \<Longrightarrow> \<not> writeFailed a \<Longrightarrow>
          Q d (R @ p) (outputs (a\<lparr>obuf := [], pendingSnapshot := Some snap\<rparr>))" by simp
      let ?s = "setAttacher (s\<lparr>sterm := t'\<rparr>) i (\<lambda>a. a\<lparr>obuf := [], pendingSnapshot := Some snap\<rparr>)"
      have i: "ids ?s = ids s" by (simp add: ids_def comp_def split_def)
      have old: "Q d (R @ p) (outputs b)" if "handlerErr s = []" "(j, b) \<in> set (attachers s)" "\<not> writeFailed b" "j \<in> D" for j b
        using assms(1) that by (simp add: half_def)
      have rest: "Q False R (outputs b)" if "handlerErr s = []" "(j, b) \<in> set (attachers s)" "\<not> writeFailed b" "j \<notin> D" for j b
        using assms(1) that by (simp add: half_def)
      have "half d R p (insert i D) ?s"
        unfolding half_def i
      proof (intro conjI impI allI)
        show "T (R @ p) (sterm ?s)" "distinct (ids s)" using T' assms(1) by (simp_all add: half_def)
        fix j b assume a: "handlerErr ?s = []" "(j, b) \<in> set (attachers ?s)" "\<not> writeFailed b"
        show "if j \<in> insert i D then Q d (R @ p) (outputs b) else Q False R (outputs b)"
        proof (cases "j = i")
          case True
          then show ?thesis using a only new by auto
        next
          case False
          then show ?thesis using a old rest by auto
        qed
      qed
      then show ?thesis using True Some sn Inr i by (simp add: deliverOutput_def)
    qed
  qed
qed

lemma fanout_half:
  assumes "half d R p D s" "distinct is" "set is \<inter> D = {}" "grounded p \<or> d" "T R t0" "grounded R"
  shows "half d R p (D \<union> set is) (foldl (\<lambda>s i. deliverOutput G s i p) s is) \<and>
    ids (foldl (\<lambda>s i. deliverOutput G s i p) s is) = ids s"
  using assms(1-3)
proof (induction "is" arbitrary: D s)
  case (Cons i js)
  have 1: "half d R p (insert i D) (deliverOutput G s i p)" "ids (deliverOutput G s i p) = ids s"
    using deliver_half [OF Cons.prems(1) _ assms(4-6), of i] Cons.prems(3) by auto
  then show ?case using Cons.IH [OF 1(1)] Cons.prems by (auto simp: Un_commute insert_commute)
qed simp

lemma fanout_served:
  assumes "served False R s" "grounded p \<or> d"
  shows "served d (R @ p) (fanout G (s\<lparr>sterm := TWrite G (sterm s) p\<rparr>) p)"
proof -
  let ?s = "s\<lparr>sterm := TWrite G (sterm s) p\<rparr>"
  have i: "ids ?s = ids s" by (simp add: ids_def)
  have T: "T R (sterm s)" using assms(1) by (simp add: served_def)
  then have "half d R p {} ?s" using assms(1) T_write by (auto simp: half_def served_def i)
  moreover have gR: "grounded R" using assms(1) by (simp add: served_def)
  moreover have "\<not> d \<longrightarrow> grounded (R @ p)" using gR assms(2) by (auto simp: grounded_append)
  ultimately have "half d R p {} ?s" "grounded R" and gp: "\<not> d \<longrightarrow> grounded (R @ p)" by simp_all
  from fanout_half [OF this(1) _ _ assms(2) T this(2), of "ids ?s"] assms(1)
  have h: "half d R p (set (ids s)) (fanout G ?s p)" "ids (fanout G ?s p) = ids s"
    by (simp_all add: fanout_def ids_def [symmetric] i served_def)
  have "(j, a) \<in> set (attachers (fanout G ?s p)) \<Longrightarrow> j \<in> set (ids s)" for j a
    unfolding h(2) [symmetric] by (force simp: ids_def)
  then show ?thesis using h gp by (fastforce simp: half_def served_def)
qed

end

lemma deliverOutput_frame [simp]:
  "outPending (deliverOutput G s i p) = outPending s" "outScan (deliverOutput G s i p) = outScan s"
  "outDone (deliverOutput G s i p) = outDone s" "inputBuf (deliverOutput G s i p) = inputBuf s"
  "scroll (deliverOutput G s i p) = scroll s" "inputPump (deliverOutput G s i p) = inputPump s"
  "ptyInput (deliverOutput G s i p) = ptyInput s" "sended (deliverOutput G s i p) = sended s"
  "closing (deliverOutput G s i p) = closing s" "departed (deliverOutput G s i p) = departed s"
  "clientCount (deliverOutput G s i p) = clientCount s"
  by (simp_all add: deliverOutput_def recordHandlerError_def setAttacher_def
      split: option.split prod.split sum.split)

lemma fanout_frame [simp]:
  "outPending (fanout G s p) = outPending s" "outScan (fanout G s p) = outScan s"
  "outDone (fanout G s p) = outDone s" "inputBuf (fanout G s p) = inputBuf s"
  "scroll (fanout G s p) = scroll s" "inputPump (fanout G s p) = inputPump s"
  "ptyInput (fanout G s p) = ptyInput s" "sended (fanout G s p) = sended s"
  "closing (fanout G s p) = closing s" "departed (fanout G s p) = departed s"
  "clientCount (fanout G s p) = clientCount s"
proof -
  have "outPending (foldl (\<lambda>s i. deliverOutput G s i p) s is) = outPending s \<and>
    outScan (foldl (\<lambda>s i. deliverOutput G s i p) s is) = outScan s \<and>
    outDone (foldl (\<lambda>s i. deliverOutput G s i p) s is) = outDone s \<and>
    inputBuf (foldl (\<lambda>s i. deliverOutput G s i p) s is) = inputBuf s \<and>
    scroll (foldl (\<lambda>s i. deliverOutput G s i p) s is) = scroll s \<and>
    inputPump (foldl (\<lambda>s i. deliverOutput G s i p) s is) = inputPump s \<and>
    ptyInput (foldl (\<lambda>s i. deliverOutput G s i p) s is) = ptyInput s \<and>
    sended (foldl (\<lambda>s i. deliverOutput G s i p) s is) = sended s \<and>
    closing (foldl (\<lambda>s i. deliverOutput G s i p) s is) = closing s \<and>
    departed (foldl (\<lambda>s i. deliverOutput G s i p) s is) = departed s \<and>
    clientCount (foldl (\<lambda>s i. deliverOutput G s i p) s is) = clientCount s" for "is"
    by (induction "is" arbitrary: s) simp_all
  then show "outPending (fanout G s p) = outPending s" "outScan (fanout G s p) = outScan s"
    "outDone (fanout G s p) = outDone s" "inputBuf (fanout G s p) = inputBuf s"
    "scroll (fanout G s p) = scroll s" "inputPump (fanout G s p) = inputPump s"
    "ptyInput (fanout G s p) = ptyInput s" "sended (fanout G s p) = sended s"
    "closing (fanout G s p) = closing s" "departed (fanout G s p) = departed s"
    "clientCount (fanout G s p) = clientCount s"
    by (simp_all add: fanout_def)
qed

lemma grounded_zero: "grounded p \<longleftrightarrow> Advance zeroScanner p = zeroScanner"
  by (simp add: grounded_def)

text \<open>What \<open>feedTerm\<close> hands on: everything at the end, else a prefix that ends at ground.\<close>

lemma feedTerm_cases:
  assumes "outScan s = zeroScanner \<or> flush"
  obtains (hold) "feedTerm G s data flush = s\<lparr>outPending := outPending s @ data\<rparr>"
      and "flush \<Longrightarrow> outPending s @ data = []"
  | (pass) p q where "outPending s @ data = p @ q" and "flush \<Longrightarrow> q = []"
      and "\<not> flush \<Longrightarrow> grounded p"
      and "feedTerm G s data flush =
        (fanout G (s\<lparr>outPending := p @ q, outScan := Advance (outScan s) p, sterm := TWrite G (sterm s) p\<rparr>) p)
          \<lparr>outPending := q\<rparr>"
proof -
  let ?buf = "outPending s @ data"
  define n where "n = (if flush then int (length ?buf) else SafeCut (outScan s) ?buf (int (length ?buf)))"
  define p where "p = take (nat n) ?buf"
  define q where "q = drop (nat n) ?buf"
  have buf: "?buf = p @ q" by (simp only: p_def q_def append_take_drop_id)
  have f: "feedTerm G s data flush =
      (if n \<le> 0 then s\<lparr>outPending := outPending s @ data\<rparr>
       else (fanout G (s\<lparr>outPending := outPending s @ data, outScan := Advance (outScan s) p,
              sterm := TWrite G (sterm s) p\<rparr>) p)\<lparr>outPending := q\<rparr>)"
    by (simp add: feedTerm_def Let_def n_def p_def q_def
        del: take_append drop_append Advance_append length_append)
  show thesis
  proof (cases "n \<le> 0")
    case True
    then show thesis using f by (intro hold) (auto simp: n_def simp flip: of_nat_add)
  next
    case False
    have "feedTerm G s data flush =
        (fanout G (s\<lparr>outPending := p @ q, outScan := Advance (outScan s) p, sterm := TWrite G (sterm s) p\<rparr>) p)
          \<lparr>outPending := q\<rparr>"
      using False unfolding f buf by simp
    moreover have "grounded p" if "\<not> flush"
    proof -
      have best: "n = bestCutUpto zeroScanner ?buf (length ?buf)"
        using assms that by (simp add: n_def SafeCut_eq_best del: length_append)
      then show ?thesis
      proof (cases rule: bestCutUpto_cases [of zeroScanner ?buf "length ?buf"])
        case (cut m)
        then show ?thesis using best cutPoint_grounded [OF cut(3)] by (simp add: p_def del: take_append)
      qed (use False in simp)
    qed
    moreover have "flush \<Longrightarrow> q = []" by (simp add: q_def n_def)
    ultimately show thesis using buf by (intro pass [of p q])
  qed
qed

context fanout_contract
begin

lemma served_cong:
  "sterm s' = sterm s \<Longrightarrow> attachers s' = attachers s \<Longrightarrow> (handlerErr s' = [] \<Longrightarrow> handlerErr s = []) \<Longrightarrow>
    served d R s \<Longrightarrow> served d R s'"
  by (simp add: served_def ids_def)

lemma feedTerm_served:
  assumes "served False R s" "outScan s = zeroScanner"
  shows "\<exists>R'. R' @ outPending (feedTerm G s data flush) = R @ outPending s @ data \<and>
    served flush R' (feedTerm G s data flush) \<and>
    (\<not> flush \<longrightarrow> outScan (feedTerm G s data flush) = zeroScanner) \<and>
    outDone (feedTerm G s data flush) = outDone s"
proof (rule feedTerm_cases [of s flush G data])
  show "outScan s = zeroScanner \<or> flush" using assms(2) by simp
next
  assume f: "feedTerm G s data flush = s\<lparr>outPending := outPending s @ data\<rparr>"
  have "served False R (s\<lparr>outPending := outPending s @ data\<rparr>)" by (rule served_cong [OF _ _ _ assms(1)]) simp_all
  then have "served flush R (feedTerm G s data flush)"
    unfolding f using Q_done by (cases flush) (auto simp: served_def)
  moreover have "outScan (feedTerm G s data flush) = zeroScanner" "outDone (feedTerm G s data flush) = outDone s"
    "R @ outPending (feedTerm G s data flush) = R @ outPending s @ data"
    unfolding f using assms(2) by simp_all
  ultimately show ?thesis by (intro exI [of _ R] conjI impI)
next
  fix p q
  assume e: "outPending s @ data = p @ q" and g: "\<not> flush \<Longrightarrow> grounded p"
    and f: "feedTerm G s data flush =
        (fanout G (s\<lparr>outPending := p @ q, outScan := Advance (outScan s) p, sterm := TWrite G (sterm s) p\<rparr>) p)
          \<lparr>outPending := q\<rparr>"
  let ?s = "s\<lparr>outPending := p @ q, outScan := Advance (outScan s) p\<rparr>"
  have "served False R ?s" by (rule served_cong [OF _ _ _ assms(1)]) simp_all
  from fanout_served [OF this, of p flush] g
  have "served flush (R @ p) (fanout G (?s\<lparr>sterm := TWrite G (sterm ?s) p\<rparr>) p)" by blast
  then have "served flush (R @ p) (feedTerm G s data flush)"
    unfolding f by (rule served_cong [rotated 3]) simp_all
  moreover have "\<not> flush \<longrightarrow> outScan (feedTerm G s data flush) = zeroScanner"
    using g assms(2) unfolding f grounded_def by simp
  ultimately show ?thesis using e by (intro exI [of _ "R @ p"]) (simp add: f)
qed

lemma joinFanout_served:
  assumes "served d R s" "i \<notin> set (ids s)" "joinFanout G s i = (s', e)"
  shows "served d R s'"
proof -
  obtain t r where sn: "TSnapshot G (sterm s) = (t, r)" by fastforce
  have T: "T R (sterm s)" "T R t" using assms(1) T_snap [OF _ sn] by (simp_all add: served_def)
  show ?thesis
  proof (cases r)
    case (Inl e)
    then show ?thesis using assms(1,3) sn T by (auto simp: joinFanout_def served_def ids_def)
  next
    case (Inr snap)
    have "outputs (newAttacher snap) = [snap]"
      by (simp add: outputs_def frames_def underWay_def newAttacher_def)
    then show ?thesis using assms sn T Inr Q_join [OF T(1) sn [unfolded Inr], of d]
      by (auto simp: joinFanout_def served_def ids_def)
  qed
qed

text \<open>Steps that change an attacher without touching its output frames.\<close>

lemma setAttacher_served:
  assumes "served d R s" "\<And>a. writeFailed a \<Longrightarrow> writeFailed (f a)"
    "\<And>a. \<not> writeFailed (f a) \<Longrightarrow> outputs (f a) = outputs a"
  shows "served d R (setAttacher s i f)"
proof -
  have old: "Q d R (outputs b)" if "handlerErr s = []" "(j, b) \<in> set (attachers s)" "\<not> writeFailed b" for j b
    using assms(1) that by (simp add: served_def)
  have "Q d R (outputs b)"
    if h: "handlerErr s = []" "(j, b) \<in> set (attachers (setAttacher s i f))" "\<not> writeFailed b" for j b
  proof -
    obtain a where a: "(j, a) \<in> set (attachers s)" "b = (if j = i then f a else a)" using h(2) by auto
    then show ?thesis using old [OF h(1) a(1)] h(3) assms(2,3) by (cases "j = i") auto
  qed
  then show ?thesis using assms(1) by (simp add: served_def)
qed

lemma enqueueFrame_served:
  "served d R s \<Longrightarrow> ofTag f \<noteq> FrameOutput \<Longrightarrow> served d R (enqueueFrame s i f)"
  unfolding enqueueFrame_def
  by (rule setAttacher_served) (simp_all add: outputs_def frames_def underWay_def outputsOf_def)

lemma stepWriter_served: "served d R s \<Longrightarrow> served d R (stepWriter s i ok)"
proof -
  assume "served d R s"
  then have "served d R (setAttacher s i (\<lambda>a. writerStep a ok))"
    by (rule setAttacher_served) (simp_all add: writeFailed_writerStep outputs_def frames_writerStep)
  then show ?thesis unfolding stepWriter_def Let_def by (rule served_cong [rotated 3]) simp_all
qed

lemma endAttachers_served: "served d R s \<Longrightarrow> served d R (endAttachers s)"
proof -
  assume s: "served d R s"
  have "outputs (a\<lparr>obuf := obuf a @ [\<lparr>ofTag = FrameEnded, ofPayload = []\<rparr>]\<rparr>) = outputs a" for a
    by (simp add: outputs_def frames_def underWay_def)
  then show ?thesis using s by (auto simp: served_def endAttachers_def ids_def comp_def split_def)
qed

lemma resizeSession_served:
  assumes "served d R s" "resizeSession G setsize s c r = (s', e)"
  shows "served d R s'"
proof (cases "if started s then setsize c r else None")
  case None
  let ?s = "if started s then s\<lparr>ptySize := (c, r)\<rparr> else s"
  have s: "served d R ?s" by (rule served_cong [OF _ _ _ assms(1)]) (simp_all split: if_splits)
  show ?thesis
  proof (cases "TResize G (sterm s) c r")
    case (Inl e)
    then show ?thesis using assms(2) s None by (auto simp: resizeSession_def Let_def split: if_splits)
  next
    case (Inr t)
    have "T R t" using T_resize [OF _ Inr] assms(1) by (simp add: served_def)
    then have "served d R (?s\<lparr>sterm := t\<rparr>)" using s by (simp add: served_def ids_def)
    moreover have "s' = ?s\<lparr>sterm := t\<rparr>" using assms(2) None Inr by (auto simp: resizeSession_def Let_def split: if_splits)
    ultimately show ?thesis by simp
  qed
qed (use assms in \<open>simp add: resizeSession_def\<close>)

lemma applyMinSize_served:
  "served d R s \<Longrightarrow> applyMinSize G setsize s = (s', e) \<Longrightarrow> served d R s'"
  using resizeSession_served by (auto simp: applyMinSize_def split: prod.splits if_splits)

lemma leaveFanout_served:
  assumes "served d R s" "leaveFanout G setsize s i = (s', e)"
  shows "served d R s'"
proof -
  let ?s = "s\<lparr>attachers := filter (\<lambda>(j, a). j \<noteq> i) (attachers s), clientCount := clientCount s - 1\<rparr>"
  obtain u x where u: "applyMinSize G setsize ?s = (u, x)" by fastforce
  have "distinct (map fst (filter (\<lambda>(j, a). j \<noteq> i) (attachers s)))"
    using assms(1) by (simp add: served_def ids_def distinct_map_filter)
  then have "served d R ?s" using assms(1) by (auto simp: served_def ids_def)
  then have "served d R u" using u by (rule applyMinSize_served)
  then show ?thesis using assms(2) u unfolding leaveFanout_def Let_def
    by (auto intro: served_cong)
qed

lemma queueInput_served: "served d R s \<Longrightarrow> served d R (queueInput s p)"
  by (rule served_cong) (simp_all add: queueInput_def split: if_splits)

lemma clientFrame_served:
  assumes "served d R s" "clientFrame G setsize s i r = (s', e, b)"
  shows "served d R s'"
proof -
  have z: "served d R (setAttacher s i (\<lambda>a. a\<lparr>acols := c, arows := w\<rparr>))" for c w
    by (rule setAttacher_served [OF assms(1)]) (simp_all add: outputs_def frames_def underWay_def)
  have "attachResize G setsize s i rp = (s', e) \<Longrightarrow> served d R s'" for rp
    using assms(1) applyMinSize_served [OF z] by (auto simp: attachResize_def split: if_splits)
  then show ?thesis using assms queueInput_served [OF assms(1)]
    by (auto simp: clientFrame_def attachInput_def split: option.splits if_splits prod.splits)
qed

end

section \<open>The frames tile the output\<close>

text \<open>The states a session's terminal can be in after the output \<open>R\<close>.\<close>

inductive fed :: "'g ghostty \<Rightarrow> 'g terminal \<Rightarrow> bytes \<Rightarrow> 'g terminal \<Rightarrow> bool" for G t0 where
  fed_init: "fed G t0 [] t0"
| fed_write: "fed G t0 R t \<Longrightarrow> fed G t0 (R @ p) (TWrite G t p)"
| fed_resize: "fed G t0 R t \<Longrightarrow> TResize G t c r = Inr t' \<Longrightarrow> fed G t0 R t'"
| fed_snapshot: "fed G t0 R t \<Longrightarrow> TSnapshot G t = (t', x) \<Longrightarrow> fed G t0 R t'"

text \<open>
  The frames end in a snapshot of the terminal after some of the output, followed by exactly the
  rest of the output.
\<close>

definition tiled :: "'g ghostty \<Rightarrow> 'g terminal \<Rightarrow> bool \<Rightarrow> bytes \<Rightarrow> bytes list \<Rightarrow> bool" where
  "tiled G t0 d R fs \<longleftrightarrow>
     (\<exists>u t t' before snap after. R = u @ concat after \<and> fed G t0 u t \<and>
        TSnapshot G t = (t', Inr snap) \<and> fs = before @ snap # after)"

interpretation tiles: fanout_contract G "fed G t0" "tiled G t0" for G t0
proof
  fix R t t' p d assume "fed G t0 R t" "TSnapshot G t = (t', Inr p)"
  then show "tiled G t0 d R [p]" unfolding tiled_def by (metis append_Nil append_Nil2 concat.simps(1))
next
  fix R fs p d t assume "tiled G t0 False R fs"
  then obtain u t t' before snap after where "R = u @ concat after" "fed G t0 u t"
      "TSnapshot G t = (t', Inr snap)" "fs = before @ snap # after"
    unfolding tiled_def by blast
  then show "tiled G t0 d (R @ p) (fs @ [p])" unfolding tiled_def
    by (intro exI [of _ u] exI [of _ t] exI [of _ t'] exI [of _ before] exI [of _ snap] exI [of _ "after @ [p]"]) simp
next
  fix R t t' p d fs assume "fed G t0 R t" "TSnapshot G t = (t', Inr p)"
  then show "tiled G t0 d R (fs @ [p])" unfolding tiled_def by (metis append_Nil2 concat.simps(1))
qed (auto intro: fed.intros simp: tiled_def)

section \<open>A replaying client agrees with the session\<close>

definition core0 :: core where
  "core0 = \<lparr>kScan = zeroScanner, kSeq = [], kAlt = False, kModes = initialModes\<rparr>"

text \<open>A client's terminal between two sequences.\<close>

definition atRest :: "core \<Rightarrow> bool" where
  "atRest k \<longleftrightarrow> kScan k = zeroScanner \<and> dom (kModes k) = set trackedModes"

definition follows :: "bytes \<Rightarrow> 'g terminal \<Rightarrow> bool" where
  "follows R t \<longleftrightarrow> coreOf t = foldl stepCore core0 R"

definition agrees :: "bool \<Rightarrow> bytes \<Rightarrow> bytes list \<Rightarrow> bool" where
  "agrees d R fs \<longleftrightarrow> (\<not> d \<longrightarrow> (\<forall>f\<in>set fs. grounded f)) \<and>
     (\<forall>k. atRest k \<longrightarrow> screenOf (foldl stepCore k (concat fs)) = screenOf (foldl stepCore core0 R))"

text \<open>At ground only the screen matters for what follows.\<close>

lemma ground_cong:
  assumes "kScan k = zeroScanner" "kScan l = zeroScanner" "screenOf k = screenOf l"
  shows "screenOf (foldl stepCore k p) = screenOf (foldl stepCore l p)"
proof (cases p)
  case (Cons b q)
  have "stepCore k b = stepCore l b" using assms by (simp add: stepCore_def screenOf_def nextSeq_def)
  then show ?thesis by (simp add: Cons)
qed (use assms in simp)

lemma dom_core0: "atRest core0"
  by (simp add: atRest_def core0_def dom_initialModes)

lemma snapshot_agrees:
  assumes "\<forall>g d. Format G g = Inr d \<longrightarrow> neutral d" "follows R t" "TSnapshot G t = (t', Inr p)" "atRest k"
  shows "screenOf (foldl stepCore k p) = screenOf (foldl stepCore core0 R)" and "grounded p"
proof -
  have t: "alt t = kAlt (foldl stepCore core0 R)" "modes t = kModes (foldl stepCore core0 R)"
    using assms(2) by (simp_all add: follows_def coreOf_def flip: core.select_convs) (metis core.select_convs(3,4))+
  have dt: "dom (modes t) = set trackedModes" using dom_foldl [of core0 R] dom_core0 t by (simp add: atRest_def)
  have "(\<lambda>n. if n \<in> set trackedModes then Some (modes t n = Some True) else kModes k n) = modes t"
  proof
    fix n show "(if n \<in> set trackedModes then Some (modes t n = Some True) else kModes k n) = modes t n"
      using dt assms(4) by (cases "modes t n"; cases "n \<in> dom (modes t)"; cases "n \<in> dom (kModes k)") (auto simp: atRest_def domIff)
  qed
  moreover have d: "does p (\<lambda>(a, m). fold (\<lambda>n. setMode (modes t n = Some True) n) trackedModes (alt t, m))"
    by (rule does_TSnapshot [OF assms(1) [rule_format] assms(3)])
  ultimately show "screenOf (foldl stepCore k p) = screenOf (foldl stepCore core0 R)"
    using assms(4) fold_setMode [of trackedModes "kModes k" "\<lambda>n. modes t n = Some True" "alt t"] t
    by (simp add: does_def atRest_def screenOf_def)
  have "kScan (foldl stepCore core0 p) = zeroScanner" using d by (simp add: does_def core0_def)
  then show "grounded p" by (simp add: kScan_foldl core0_def grounded_def)
qed

lemma atRest_grounded: "atRest k \<Longrightarrow> grounded p \<Longrightarrow> atRest (foldl stepCore k p)"
  by (simp add: atRest_def kScan_foldl grounded_def dom_foldl)

text \<open>The contract holds of every emulator whose formatter is neutral.\<close>

lemma agrees_contract:
  fixes G :: "'g ghostty"
  assumes n: "\<forall>g d. Format G g = Inr d \<longrightarrow> neutral d"
  shows "fanout_contract G follows agrees"
proof
  fix R p and t :: "'g terminal" assume "follows R t"
  then show "follows (R @ p) (TWrite G t p)" by (simp add: follows_def TWrite_core)
next
  fix R c r and t t' :: "'g terminal" assume "follows R t" "TResize G t c r = Inr t'"
  then show "follows R t'" by (auto simp: follows_def TResize_def coreOf_def split: sum.splits)
next
  fix R x and t t' :: "'g terminal" assume "follows R t" "TSnapshot G t = (t', x)"
  then show "follows R t'" using TSnapshot_core by (metis follows_def)
next
  fix R p d and t t' :: "'g terminal" assume "follows R t" "TSnapshot G t = (t', Inr p)"
  then show "agrees d R [p]" using snapshot_agrees [OF n] dom_core0 by (simp add: agrees_def)
next
  fix R fs p d and t :: "'g terminal" assume a: "agrees False R fs" "grounded R" "grounded p \<or> d"
  have "screenOf (foldl stepCore k (concat (fs @ [p]))) = screenOf (foldl stepCore core0 (R @ p))" if "atRest k" for k
  proof -
    have "atRest (foldl stepCore k (concat fs))" "atRest (foldl stepCore core0 R)"
      using a that dom_core0 by (auto intro!: atRest_grounded grounded_concat simp: agrees_def)
    then show ?thesis using a that by (simp add: agrees_def atRest_def ground_cong)
  qed
  then show "agrees d (R @ p) (fs @ [p])" using a by (auto simp: agrees_def)
next
  fix R' fs gs R p d and t t' :: "'g terminal" assume a: "agrees False R' (fs @ gs)" "follows R t" "TSnapshot G t = (t', Inr p)"
  have "atRest (foldl stepCore k (concat fs))" if "atRest k" for k
    using a(1) that by (auto intro!: atRest_grounded grounded_concat simp: agrees_def)
  then show "agrees d R (fs @ [p])"
    using a(1) snapshot_agrees [OF n a(2,3)] dom_core0 by (auto simp: agrees_def)
qed (simp add: agrees_def)

end
