(* ===== verification/Session.thy ===== *)
theory Session
  imports Fanout
begin

text \<open>
  \<open>daemon/daemon.go\<close>: starting a session, its output pump, the requests it answers, killing and
  reaping the command, persisting the record, and the order of the shutdown; with
  \<open>Request\<close> and \<open>Response\<close> of \<open>daemon/protocol.go\<close>. Results of system calls are
  arguments. An operation that blocks until the command has ended is \<open>None\<close> before.
  A run is a list of events, each one critical section of one goroutine, in any order.
\<close>

section \<open>Starting\<close>

text \<open>\<open>environmentWithOverrides\<close>: \<open>index\<close> maps a name to the place of its last entry.\<close>

definition equalsSign :: byte where "equalsSign = 0x3D"

definition entryName :: "bytes \<Rightarrow> bytes option" where
  "entryName e = (case IndexByte e equalsSign of None \<Rightarrow> None | Some k \<Rightarrow> Some (take k e))"

fun envIndex :: "bytes list \<Rightarrow> nat \<Rightarrow> (bytes \<rightharpoonup> nat) \<Rightarrow> (bytes \<rightharpoonup> nat)" where
  "envIndex [] i index = index"
| "envIndex (e # es) i index =
     (case entryName e of
        None \<Rightarrow> envIndex es (i + 1) index
      | Some name \<Rightarrow> envIndex es (i + 1) (index(name \<mapsto> i)))"

fun envOverride :: "(bytes \<times> bytes) list \<Rightarrow> (bytes \<rightharpoonup> nat) \<Rightarrow> bytes list \<Rightarrow> bytes list" where
  "envOverride [] index env = env"
| "envOverride ((name, val) # ovs) index env =
     (let entry = name @ equalsSign # val in
      case index name of
        Some i \<Rightarrow> envOverride ovs index (env[i := entry])
      | None \<Rightarrow> envOverride ovs (index(name \<mapsto> length env)) (env @ [entry]))"

definition environmentWithOverrides :: "bytes list \<Rightarrow> (bytes \<times> bytes) list \<Rightarrow> bytes list" where
  "environmentWithOverrides environ overrides =
     envOverride overrides (envIndex environ 0 Map.empty) environ"

text \<open>\<open>start\<close>: what \<open>pty.StartWithSize\<close> answers is the process id or an error.\<close>

definition startSession :: "(bytes list \<Rightarrow> bytes \<Rightarrow> bytes list \<Rightarrow> sess_error + int) \<Rightarrow> bytes list \<Rightarrow> int \<Rightarrow>
    'g session \<Rightarrow> sess_error + 'g session" where
  "startSession ptyStart environ now s =
     (if cfgCommand (cfg s) = [] then Inl EmptyCommand
      else
        case ptyStart (cfgCommand (cfg s)) (cfgDir (cfg s)) (environmentWithOverrides environ (cfgEnv (cfg s))) of
          Inl e \<Rightarrow> Inl e
        | Inr pid \<Rightarrow> Inr (s\<lparr>started := True, spid := pid, ptySize := (defaultCols, defaultRows), startedAt := now\<rparr>))"

definition removeSocket :: "fsys \<Rightarrow> bytes \<Rightarrow> fsys \<times> fs_error option" where
  "removeSocket fs path =
     (case fsRemove fs path of
        (fs, Some (FsNotExist _)) \<Rightarrow> (fs, None)
      | (fs, e) \<Rightarrow> (fs, e))"

text \<open>\<open>listen\<close>, with the answer of \<open>net.Listen\<close>; \<open>dirName\<close> is \<open>filepath.Dir\<close>.\<close>

definition dirName :: "bytes \<Rightarrow> bytes" where
  "dirName p =
     (let cs = splitSlash p in
      if butlast cs = [] then dot else Clean (joinSlash (butlast cs) @ [slash]))"

definition listenSocket :: "fsys \<Rightarrow> bytes \<Rightarrow> fs_error option \<Rightarrow> fsys \<times> fs_error option" where
  "listenSocket fs path netListen =
     (case fsMkdirAll fs (dirName path) of
        (fs, Some e) \<Rightarrow> (fs, Some e)
      | (fs, None) \<Rightarrow>
          (case removeSocket fs path of
             (fs, Some e) \<Rightarrow> (fs, Some e)
           | (fs, None) \<Rightarrow> (fs, netListen)))"

section \<open>The output pump\<close>

datatype read_end = ReadEOF | ReadClosed | ReadEIO | ReadFailed string

definition pumpStore :: "'g session \<Rightarrow> bytes \<Rightarrow> 'g session" where
  "pumpStore s data = s\<lparr>scroll := Write (scroll s) data\<rparr>"

definition pumpAnswer :: "'g session \<Rightarrow> bytes \<Rightarrow> 'g session" where
  "pumpAnswer s data =
     (if noClients s then
        let resp = scanDeviceAttributes data in
        if length resp > 0 then queueInput s resp else s
      else s)"

text \<open>One successful read of \<open>pumpOutputFrom\<close>, and the read that ends it.\<close>

definition pumpRead :: "'g ghostty \<Rightarrow> 'g session \<Rightarrow> bytes \<Rightarrow> 'g session" where
  "pumpRead G s data = pumpAnswer (feedTerm G (pumpStore s data) data False) data"

definition pumpEnd :: "'g ghostty \<Rightarrow> 'g session \<Rightarrow> read_end \<Rightarrow> 'g session" where
  "pumpEnd G s e =
     (let s = feedTerm G s [] True;
          s = (case e of ReadFailed m \<Rightarrow> s\<lparr>outputErr := outputErr s @ [PtyFailed m]\<rparr> | _ \<Rightarrow> s) in
      s\<lparr>outDone := True\<rparr>)"

section \<open>The end of the command\<close>

datatype wait_result = WaitOk | WaitSignaled nat | WaitExited int | WaitOther

definition conventionalExitCode :: "wait_result \<Rightarrow> int" where
  "conventionalExitCode r =
     (case r of WaitOk \<Rightarrow> 0 | WaitSignaled sig \<Rightarrow> 128 + int sig | WaitExited c \<Rightarrow> c | WaitOther \<Rightarrow> -1)"

definition reap :: "'g session \<Rightarrow> wait_result \<Rightarrow> int \<Rightarrow> 'g session" where
  "reap s r now = s\<lparr>sended := True, endedAt := now, exitCode := conventionalExitCode r\<rparr>"

definition waitForExit :: "'g session \<Rightarrow> int option" where
  "waitForExit s = (if sended s then Some (exitCode s) else None)"

datatype signal = SIGHUP | SIGKILL
datatype signal_result = SigOk | SigNoProcess | SigFailed string

text \<open>
  \<open>kill\<close> up to its wait for the reaper: the signals it sent and its error; \<open>graced\<close> is whether
  the command was reaped within the grace period.
\<close>

definition killSession :: "'g session \<Rightarrow> (signal \<Rightarrow> signal_result) \<Rightarrow> bool \<Rightarrow>
    'g session \<times> signal list \<times> sess_error option" where
  "killSession s sysKill graced =
     (if sended s then (s, [], None)
      else
        let s = s\<lparr>killed := True\<rparr> in
        case sysKill SIGHUP of
          SigFailed m \<Rightarrow> (s, [SIGHUP], Some (PtyFailed m))
        | _ \<Rightarrow>
            if graced then (s, [SIGHUP], None)
            else
              (case sysKill SIGKILL of
                 SigFailed m \<Rightarrow> (s, [SIGHUP, SIGKILL], Some (PtyFailed m))
               | _ \<Rightarrow> (s, [SIGHUP, SIGKILL], None)))"

section \<open>Requests\<close>

text \<open>\<open>time.Duration.Milliseconds\<close> truncates towards zero.\<close>

definition milliseconds :: "int \<Rightarrow> int" where
  "milliseconds d = (if d < 0 then - ((- d) div 1000000) else d div 1000000)"

definition sessionInfo :: "'g session \<Rightarrow> int \<Rightarrow> Info" where
  "sessionInfo s now =
     \<lparr>iID = cfgID (cfg s), iRunning = \<not> sended s, iPid = (if started s then spid s else 0),
      iCommand = cfgCommand (cfg s), iMetadata = cfgMetadata (cfg s), iStartedAt = startedAt s,
      iEndedAt = (if sended s then Some (endedAt s) else None),
      iDurationMS = (if sended s then milliseconds (endedAt s - startedAt s) else milliseconds (now - startedAt s)),
      iOutputBytes = TotalBytes (scroll s),
      iExitCode = (if sended s then Some (exitCode s) else None),
      iKilled = (if sended s then killed s else False), iError = []\<rparr>"

record request =
  reqOp :: string
  reqInput :: bytes

datatype resp_error = RespFailed "sess_error list" | UnknownOp string | SessionHasEnded

record response =
  respOK :: bool
  respError :: "resp_error option"
  respInfo :: "Info option"
  respHistory :: bytes
  respExitCode :: "int option"

definition okResponse :: response where
  "okResponse = \<lparr>respOK = True, respError = None, respInfo = None, respHistory = [], respExitCode = None\<rparr>"

definition errResponse :: "resp_error \<Rightarrow> response" where
  "errResponse e = \<lparr>respOK = False, respError = Some e, respInfo = None, respHistory = [], respExitCode = None\<rparr>"

definition exitResponse :: "'g session \<Rightarrow> int \<Rightarrow> response option" where
  "exitResponse s now =
     (case waitForExit s of
        None \<Rightarrow> None
      | Some code \<Rightarrow> Some (okResponse\<lparr>respInfo := Some (sessionInfo s now), respExitCode := Some code\<rparr>))"

text \<open>
  \<open>dispatch\<close>: \<open>None\<close> while the request waits, for the end of the command, or for the store to
  become idle. The kill is done before: its error is an argument.
\<close>

definition dispatch :: "zstd \<Rightarrow> 'g session \<Rightarrow> int \<Rightarrow> request \<Rightarrow> sess_error option \<Rightarrow> 'g session \<times> response option" where
  "dispatch z s now req killErr =
     (if reqOp req = ''info'' then (s, Some (okResponse\<lparr>respInfo := Some (sessionInfo s now)\<rparr>))
      else if reqOp req = ''wait'' then (s, exitResponse s now)
      else if reqOp req = ''kill'' then
        (case killErr of
           Some e \<Rightarrow> (s, Some (errResponse (RespFailed [e])))
         | None \<Rightarrow> (s, exitResponse s now))
      else if reqOp req = ''send'' then (queueInput s (reqInput req), Some okResponse)
      else if reqOp req = ''history'' then
        (if busy (scroll s) then (s, None)
         else
           case Snapshot z (scroll s) of
             (sc, history) \<Rightarrow>
               if Err sc \<noteq> [] then
                 (s\<lparr>scroll := sc\<rparr>, Some (errResponse (RespFailed (map StoreFailed (Err sc)))))
               else (s\<lparr>scroll := sc\<rparr>, Some (okResponse\<lparr>respHistory := history\<rparr>)))
      else (s, Some (errResponse (UnknownOp (reqOp req)))))"

section \<open>Persisting\<close>

definition optList :: "'a option \<Rightarrow> 'a list" where
  "optList x = (case x of None \<Rightarrow> [] | Some y \<Rightarrow> [y])"

text \<open>\<open>persist\<close>, of a session whose store is idle.\<close>

definition persist :: "zstd \<Rightarrow> sorter \<Rightarrow> json \<Rightarrow> (bytes \<Rightarrow> dial) \<Rightarrow> 'g session \<Rightarrow> int \<Rightarrow> fsys \<Rightarrow>
    'g session \<times> fsys \<times> sess_error list" where
  "persist z sortDesc js dialUnix s now fs =
     (let rdir = cfgRetentionDir (cfg s); i = cfgID (cfg s) in
      if rdir = [] then (s, fs, map StoreFailed (Err (scroll s)))
      else
        case Snapshot z (scroll s) of
          (sc, history) \<Rightarrow>
            let s = s\<lparr>scroll := sc\<rparr> in
            if Err sc \<noteq> [] then (s, fs, map StoreFailed (Err sc))
            else
              case writeRecord js fs rdir (sessionInfo s now) history of
                (fs, Some e) \<Rightarrow> (s, fs, [FsFailed e])
              | (fs, None) \<Rightarrow>
                  let keep = (if cfgRetentionCount (cfg s) \<le> 0 then DefaultRetentionCount
                              else cfgRetentionCount (cfg s)) in
                  case activeNamespaceSessions dialUnix fs (dirName (cfgSocketPath (cfg s))) i of
                    (fs, (active, es)) \<Rightarrow>
                      if es \<noteq> [] then (s, fs, map FsFailed es)
                      else
                        let keep = keep - int active;
                            keep = (if keep < 1 then 1 else keep);
                            (fs, es) = pruneRetention sortDesc js fs rdir i keep in
                        (s, fs, map FsFailed es))"

definition spawnFailureExitCode :: int where "spawnFailureExitCode = 127"

definition spawnErrorInfo :: "'g session \<Rightarrow> int \<Rightarrow> bytes \<Rightarrow> Info" where
  "spawnErrorInfo s now cause =
     \<lparr>iID = cfgID (cfg s), iRunning = False, iPid = 0, iCommand = cfgCommand (cfg s),
      iMetadata = cfgMetadata (cfg s), iStartedAt = now, iEndedAt = Some now, iDurationMS = 0,
      iOutputBytes = 0, iExitCode = Some spawnFailureExitCode, iKilled = False, iError = cause\<rparr>"

definition persistSpawnError :: "zstd \<Rightarrow> json \<Rightarrow> 'g session \<Rightarrow> int \<Rightarrow> bytes \<Rightarrow> fsys \<Rightarrow>
    'g session \<times> fsys \<times> sess_error list" where
  "persistSpawnError z js s now cause fs =
     (if cfgRetentionDir (cfg s) = [] then (s, fs, [])
      else
        case Snapshot z (scroll s) of
          (sc, history) \<Rightarrow>
            let s = s\<lparr>scroll := sc\<rparr> in
            if Err sc \<noteq> [] then (s, fs, map StoreFailed (Err sc))
            else
              case writeRecord js fs (cfgRetentionDir (cfg s)) (spawnErrorInfo s now cause) history of
                (fs, e) \<Rightarrow> (s, fs, map FsFailed (optList e)))"

end
