(* ===== verification/Session_Run.thy ===== *)
theory Session_Run
  imports Session
begin

text \<open>
  What a client of the daemon can rely on, over every interleaving of the session's goroutines:
  input is delivered, output tiles, a replaying client agrees with the session, and the end is told
  to every client attached by then.
\<close>

section \<open>Runs of the daemon\<close>

text \<open>
  One event is one critical section: the pump stores a read, the store's goroutine takes a step, the
  pump renders or answers the read, reads the end;
  a client joins, is asked for its size, sends a frame, leaves; its writer takes a step; a
  request is dispatched (the locked section of \<open>kill\<close> comes before, as \<open>EvKill\<close>); the input
  pump takes a chunk or its write returns; the command is reaped;
  the shutdown refuses input, or tells the clients. \<open>se\<close> is the answer of \<open>pty.Setsize\<close>.
\<close>

datatype event =
    EvStore bytes | EvDrain | EvFeed bytes | EvAnswer bytes | EvEnd read_end
  | EvJoin nat | EvAskSize nat | EvFrame nat "outFrame option" "sess_error option"
  | EvLeave nat "sess_error option" | EvWriter nat bool
  | EvRequest int request "sess_error option" | EvKill "signal \<Rightarrow> signal_result" bool
  | EvTake | EvWrote nat "write_error option"
  | EvReap wait_result int | EvClosing | EvEndAttachers

fun daemonStep :: "zstd \<Rightarrow> 'g ghostty \<Rightarrow> 'g session \<Rightarrow> event \<Rightarrow> 'g session" where
  "daemonStep z G s (EvStore data) = pumpStore s data"
| "daemonStep z G s EvDrain = s\<lparr>scroll := drainStep z (scroll s)\<rparr>"
| "daemonStep z G s (EvFeed data) = feedTerm G s data False"
| "daemonStep z G s (EvAnswer data) = pumpAnswer s data"
| "daemonStep z G s (EvEnd e) = pumpEnd G s e"
| "daemonStep z G s (EvJoin i) = fst (joinFanout G s i)"
| "daemonStep z G s (EvAskSize i) = requestSize s i"
| "daemonStep z G s (EvFrame i r se) = fst (clientFrame G (\<lambda>c w. se) s i r)"
| "daemonStep z G s (EvLeave i se) = fst (leaveFanout G (\<lambda>c w. se) s i)"
| "daemonStep z G s (EvWriter i ok) = stepWriter s i ok"
| "daemonStep z G s (EvRequest now req ke) = fst (dispatch z s now req ke)"
| "daemonStep z G s (EvKill sysKill graced) = fst (killSession s sysKill graced)"
| "daemonStep z G s EvTake = pumpTake s"
| "daemonStep z G s (EvWrote n e) = pumpWrote s n e"
| "daemonStep z G s (EvReap r now) = reap s r now"
| "daemonStep z G s EvClosing = s\<lparr>closing := True\<rparr>"
| "daemonStep z G s EvEndAttachers = endAttachers s"

text \<open>
  When the code can take the step. A client joins under a fresh number; its handshake looked at
  \<open>attachRefused\<close> in an earlier section, so the join itself is not guarded.
\<close>

fun enabled :: "'g session \<Rightarrow> event \<Rightarrow> bool" where
  "enabled s (EvFeed data) \<longleftrightarrow> \<not> outDone s"
| "enabled s (EvEnd e) \<longleftrightarrow> \<not> outDone s"
| "enabled s (EvJoin i) \<longleftrightarrow> i \<notin> set (ids s)"
| "enabled s (EvWrote n e) \<longleftrightarrow> (case inputPump s of InputWriting chunk \<Rightarrow> n \<le> length chunk | _ \<Rightarrow> False)"
| "enabled s (EvReap r now) \<longleftrightarrow> \<not> sended s"
| "enabled s EvClosing \<longleftrightarrow> sended s"
| "enabled s EvEndAttachers \<longleftrightarrow> closing s \<and> outDone s \<and> inputPump s = InputDone"
| "enabled s ev \<longleftrightarrow> True"

fun outputFed :: "event \<Rightarrow> bytes" where
  "outputFed (EvFeed data) = data"
| "outputFed ev = []"

fun offered :: "'g session \<Rightarrow> event \<Rightarrow> bytes" where
  "offered s (EvAnswer data) = (if noClients s then scanDeviceAttributes data else [])"
| "offered s (EvFrame i (Some f) se) = (if ofTag f = FrameInput then ofPayload f else [])"
| "offered s (EvRequest now req ke) = (if reqOp req = ''send'' then reqInput req else [])"
| "offered s ev = []"

definition inputAccepted :: "'g session \<Rightarrow> event \<Rightarrow> bytes" where
  "inputAccepted s ev = (if accepts s (offered s ev) then offered s ev else [])"

text \<open>The states a session gets to, with the output it was fed and the input it accepted so far.\<close>

inductive runs :: "zstd \<Rightarrow> 'g ghostty \<Rightarrow> 'g session \<Rightarrow> bytes \<Rightarrow> bytes \<Rightarrow> 'g session \<Rightarrow> bool" for z G s0 where
  runs_init: "runs z G s0 [] [] s0"
| runs_step: "runs z G s0 out inp s \<Longrightarrow> enabled s ev \<Longrightarrow>
    runs z G s0 (out @ outputFed ev) (inp @ inputAccepted s ev) (daemonStep z G s ev)"

fun daemonRun :: "zstd \<Rightarrow> 'g ghostty \<Rightarrow> 'g session \<Rightarrow> event list \<Rightarrow> 'g session" where
  "daemonRun z G s [] = s"
| "daemonRun z G s (ev # evs) = daemonRun z G (daemonStep z G s ev) evs"

fun legal :: "zstd \<Rightarrow> 'g ghostty \<Rightarrow> 'g session \<Rightarrow> event list \<Rightarrow> bool" where
  "legal z G s [] \<longleftrightarrow> True"
| "legal z G s (ev # evs) \<longleftrightarrow> enabled s ev \<and> legal z G (daemonStep z G s ev) evs"

fun inputOf :: "zstd \<Rightarrow> 'g ghostty \<Rightarrow> 'g session \<Rightarrow> event list \<Rightarrow> bytes" where
  "inputOf z G s [] = []"
| "inputOf z G s (ev # evs) = inputAccepted s ev @ inputOf z G (daemonStep z G s ev) evs"

text \<open>Of the state, killing changes the flag alone, whatever the signals do.\<close>

lemma killSession_state [simp]:
  "fst (killSession s sysKill graced) = (if sended s then s else s\<lparr>killed := True\<rparr>)"
  by (simp add: killSession_def Let_def split: signal_result.split)

lemma runs_daemonRun_from:
  "legal z G s evs \<Longrightarrow> runs z G s0 out inp s \<Longrightarrow>
    runs z G s0 (out @ concat (map outputFed evs)) (inp @ inputOf z G s evs) (daemonRun z G s evs)"
proof (induction evs arbitrary: s out inp)
  case (Cons ev evs)
  then have "runs z G s0 (out @ outputFed ev) (inp @ inputAccepted s ev) (daemonStep z G s ev)"
    by (intro runs_step) simp_all
  from Cons.IH [OF _ this] Cons.prems(1) show ?case by simp
qed simp

lemma runs_daemonRun:
  "legal z G s evs \<Longrightarrow> runs z G s (concat (map outputFed evs)) (inputOf z G s evs) (daemonRun z G s evs)"
  using runs_daemonRun_from [OF _ runs_init] by fastforce

section \<open>The queue of input\<close>

text \<open>Accepted input is on its way to the PTY, whole and in order, and the queue keeps its cap.\<close>

definition queued :: "bytes \<Rightarrow> 'g session \<Rightarrow> bool" where
  "queued inp s \<longleftrightarrow> inp = ptyInput s @ inputBuf s \<and> length (inputBuf s) \<le> ptyInputCap \<and>
     (\<forall>chunk. inputPump s = InputWriting chunk \<longrightarrow> prefix chunk (inputBuf s))"

lemma queued_cong:
  "ptyInput s' = ptyInput s \<Longrightarrow> inputBuf s' = inputBuf s \<Longrightarrow> inputPump s' = inputPump s \<Longrightarrow>
    queued inp s' = queued inp s"
  by (simp add: queued_def)

lemma queueInput_queued:
  "queued inp s \<Longrightarrow> queued (inp @ (if accepts s p then p else [])) (queueInput s p)"
  by (auto simp: queued_def queueInput_def accepts_def prefix_order.trans)

lemma pumpTake_queued: "queued inp s \<Longrightarrow> queued inp (pumpTake s)"
  by (auto simp: queued_def pumpTake_def split: inputPc.split)

lemma pumpWrote_queued:
  assumes "queued inp s" "inputPump s = InputWriting chunk" "n \<le> length chunk"
  shows "queued inp (pumpWrote s n e)"
proof -
  obtain rest where r: "inputBuf s = chunk @ rest" using assms(1,2) by (auto simp: queued_def prefix_def)
  have "ptyInput (pumpWrote s n e) = ptyInput s @ take n chunk"
    "inputBuf (pumpWrote s n e) = drop n (inputBuf s)" "\<forall>c. inputPump (pumpWrote s n e) \<noteq> InputWriting c"
    using assms(2) by (auto simp: pumpWrote_def Let_def split: option.split write_error.split)
  then show ?thesis using assms r by (auto simp: queued_def)
qed

lemma resizeSession_frame:
  "resizeSession G setsize s c w = (s', e) \<Longrightarrow>
    ptyInput s' = ptyInput s \<and> inputBuf s' = inputBuf s \<and> inputPump s' = inputPump s \<and>
    outPending s' = outPending s \<and> outScan s' = outScan s \<and> outDone s' = outDone s \<and>
    attachers s' = attachers s \<and> departed s' = departed s"
  by (auto simp: resizeSession_def Let_def split: option.splits sum.splits if_splits)

lemma applyMinSize_frame:
  "applyMinSize G setsize s = (s', e) \<Longrightarrow>
    ptyInput s' = ptyInput s \<and> inputBuf s' = inputBuf s \<and> inputPump s' = inputPump s \<and>
    outPending s' = outPending s \<and> outScan s' = outScan s \<and> outDone s' = outDone s \<and>
    attachers s' = attachers s \<and> departed s' = departed s"
  using resizeSession_frame by (fastforce simp: applyMinSize_def split: prod.splits if_splits)

lemma attachResize_frame:
  "attachResize G setsize s i rp = (s', e) \<Longrightarrow>
    ptyInput s' = ptyInput s \<and> inputBuf s' = inputBuf s \<and> inputPump s' = inputPump s \<and>
    outPending s' = outPending s \<and> outScan s' = outScan s \<and> outDone s' = outDone s"
  using applyMinSize_frame [of G setsize "setAttacher s i (\<lambda>a. a\<lparr>acols := Cols rp, arows := Rows rp\<rparr>)" s' e]
  by (auto simp: attachResize_def setAttacher_def split: if_splits)

text \<open>A frame of a client is input, or leaves the queue alone.\<close>

lemma clientFrame_queued:
  assumes "queued inp s"
  shows "queued (inp @ inputAccepted s (EvFrame i r se)) (fst (clientFrame G (\<lambda>c w. se) s i r))"
proof (cases r)
  case None
  then show ?thesis using assms by (simp add: clientFrame_def inputAccepted_def accepts_def)
next
  case (Some f)
  show ?thesis
  proof (cases "ofTag f = FrameInput")
    case True
    then show ?thesis using Some queueInput_queued [OF assms, of "ofPayload f"] assms
      by (auto simp: clientFrame_def inputAccepted_def attachInput_def accepts_def frame_tag_defs)
  next
    case False
    have "ptyInput s' = ptyInput s \<and> inputBuf s' = inputBuf s \<and> inputPump s' = inputPump s"
      if "clientFrame G (\<lambda>c w. se) s i (Some f) = (s', x, b)" for s' x b
      using that False
      by (auto simp: clientFrame_def split: if_splits option.splits prod.splits dest!: attachResize_frame)
    then have "queued inp (fst (clientFrame G (\<lambda>c w. se) s i (Some f)))"
      using assms queued_cong by (metis prod.exhaust fst_conv)
    then show ?thesis using Some False by (simp add: inputAccepted_def accepts_def)
  qed
qed

lemma feedTerm_frame:
  "ptyInput (feedTerm G s data flush) = ptyInput s" "inputBuf (feedTerm G s data flush) = inputBuf s"
  "inputPump (feedTerm G s data flush) = inputPump s"
  by (simp_all add: feedTerm_def Let_def)

lemma dispatch_queued:
  assumes "queued inp s"
  shows "queued (inp @ inputAccepted s (EvRequest now req ke)) (fst (dispatch z s now req ke))"
proof (cases "reqOp req = ''send''")
  case True
  then show ?thesis using queueInput_queued [OF assms, of "reqInput req"]
    by (simp add: dispatch_def inputAccepted_def split: if_splits)
next
  case False
  have "ptyInput (fst (dispatch z s now req ke)) = ptyInput s \<and> inputBuf (fst (dispatch z s now req ke)) = inputBuf s \<and>
    inputPump (fst (dispatch z s now req ke)) = inputPump s"
    using False by (auto simp: dispatch_def split: option.split prod.split)
  then show ?thesis using assms False by (simp add: queued_def inputAccepted_def accepts_def)
qed

lemma quiet_queued:
  assumes "queued inp s" "offered s ev = []"
    and "ptyInput (daemonStep z G s ev) = ptyInput s \<and> inputBuf (daemonStep z G s ev) = inputBuf s \<and>
      inputPump (daemonStep z G s ev) = inputPump s"
  shows "queued (inp @ inputAccepted s ev) (daemonStep z G s ev)"
  using assms by (simp add: queued_def inputAccepted_def accepts_def)

lemma leaveFanout_frame:
  "leaveFanout G setsize s i = (s', e) \<Longrightarrow>
    ptyInput s' = ptyInput s \<and> inputBuf s' = inputBuf s \<and> inputPump s' = inputPump s \<and>
    outPending s' = outPending s \<and> outScan s' = outScan s \<and> outDone s' = outDone s"
  by (auto simp: leaveFanout_def Let_def split: prod.splits dest!: applyMinSize_frame)

lemma joinFanout_frame:
  "joinFanout G s i = (s', e) \<Longrightarrow>
    ptyInput s' = ptyInput s \<and> inputBuf s' = inputBuf s \<and> inputPump s' = inputPump s \<and>
    outPending s' = outPending s \<and> outScan s' = outScan s \<and> outDone s' = outDone s"
  by (auto simp: joinFanout_def split: prod.splits sum.splits)

lemma step_queued:
  assumes "queued inp s" "enabled s ev"
  shows "queued (inp @ inputAccepted s ev) (daemonStep z G s ev)"
proof (cases ev)
  case (EvAnswer data)
  have "pumpAnswer s data = (if noClients s then queueInput s (scanDeviceAttributes data) else s)"
    by (simp add: pumpAnswer_def queueInput_def Let_def)
  then show ?thesis using EvAnswer queueInput_queued [OF assms(1), of "scanDeviceAttributes data"] assms(1)
    by (cases "accepts s (scanDeviceAttributes data)") (auto simp: inputAccepted_def queueInput_def accepts_def)
next
  case (EvEnd e)
  then show ?thesis using assms(1)
    by (intro quiet_queued) (auto simp: pumpEnd_def Let_def feedTerm_frame split: read_end.split)
next
  case (EvFrame i r se)
  then show ?thesis using clientFrame_queued [OF assms(1)] by simp
next
  case (EvRequest now req ke)
  then show ?thesis using dispatch_queued [OF assms(1)] by simp
next
  case EvTake
  then show ?thesis using pumpTake_queued [OF assms(1)] by (simp add: inputAccepted_def accepts_def)
next
  case (EvWrote n e)
  then obtain chunk where "inputPump s = InputWriting chunk" "n \<le> length chunk"
    using assms(2) by (auto split: inputPc.splits)
  then show ?thesis using EvWrote pumpWrote_queued [OF assms(1)] by (simp add: inputAccepted_def accepts_def)
next
  case (EvJoin i)
  then show ?thesis using assms(1) joinFanout_frame [of G s i] by (intro quiet_queued) (auto simp: prod_eq_iff)
next
  case (EvLeave i se)
  then show ?thesis using assms(1) leaveFanout_frame [of G "\<lambda>c w. se" s i] by (intro quiet_queued) (auto simp: prod_eq_iff)
qed (use assms(1) in \<open>intro quiet_queued; auto simp: pumpStore_def feedTerm_frame requestSize_def enqueueFrame_def
    setAttacher_def stepWriter_def Let_def reap_def endAttachers_def\<close>)+


lemma runs_queued:
  assumes "runs z G (initSession c so t0) out inp s"
  shows "queued inp s"
  using assms
proof induction
  case runs_init
  then show ?case by (simp add: queued_def initSession_def)
next
  case (runs_step out inp s ev)
  then show ?case using step_queued by blast
qed

text \<open>
  C6. Input is never torn, reordered or lost once accepted: in every state a session reaches,
  the bytes written to the PTY followed by those still queued are exactly the inputs that were
  accepted (from clients, from \<open>send\<close> requests, and the daemon's own replies), in order; and
  at most \<open>ptyInputCap\<close> bytes are retained, those of a write under way included.
\<close>

theorem input_delivered:
  assumes "runs z G (initSession c so t0) out inp s"
  shows "inp = ptyInput s @ inputBuf s \<and> retainedInput s \<le> ptyInputCap \<and>
    (\<forall>chunk. inputPump s = InputWriting chunk \<longrightarrow> prefix chunk (inputBuf s))"
  using runs_queued [OF assms] by (simp add: queued_def retainedInput_def)

section \<open>What clients get\<close>

context fanout_contract
begin

text \<open>While the pump runs the scanner is at ground, and \<open>R\<close> is what it has handed on.\<close>

definition flowing :: "bytes \<Rightarrow> 'g session \<Rightarrow> bool" where
  "flowing out s \<longleftrightarrow> (\<exists>R. out = R @ outPending s \<and> served (outDone s) R s) \<and>
     (\<not> outDone s \<longrightarrow> outScan s = zeroScanner)"

lemma quiet_flowing:
  assumes "flowing out s" "\<And>R. served (outDone s) R s \<Longrightarrow> served (outDone s) R s'"
    "outPending s' = outPending s" "outScan s' = outScan s" "outDone s' = outDone s"
  shows "flowing out s'"
  using assms unfolding flowing_def by auto

lemma same_flowing:
  assumes "flowing out s" "sterm s' = sterm s" "attachers s' = attachers s" "handlerErr s' = handlerErr s"
    "outPending s' = outPending s" "outScan s' = outScan s" "outDone s' = outDone s"
  shows "flowing out s'"
  by (rule quiet_flowing [OF assms(1)]) (use assms(2-) in \<open>simp_all add: served_def ids_def\<close>)

lemma step_flowing:
  assumes "flowing out s" "enabled s ev"
  shows "flowing (out @ outputFed ev) (daemonStep z G s ev)"
proof (cases ev)
  case (EvFeed data)
  then obtain R where "out = R @ outPending s" "served False R s" "outScan s = zeroScanner" "\<not> outDone s"
    using assms by (auto simp: flowing_def)
  then obtain R' where "R' @ outPending (feedTerm G s data False) = out @ data" "served False R' (feedTerm G s data False)"
      "outScan (feedTerm G s data False) = zeroScanner" "\<not> outDone (feedTerm G s data False)"
    using feedTerm_served [of R s data False] by auto
  then have "flowing (out @ data) (feedTerm G s data False)" unfolding flowing_def by (metis (full_types))
  then show ?thesis using EvFeed by simp
next
  case (EvEnd e)
  then obtain R where R: "out = R @ outPending s" "served False R s" "outScan s = zeroScanner" "\<not> outDone s"
    using assms by (auto simp: flowing_def)
  let ?u = "feedTerm G s [] True"
  obtain R' where R': "R' @ outPending ?u = out" "served True R' ?u"
    using feedTerm_served [OF R(2,3), of "[]" True] R(1) by auto
  have "sterm (pumpEnd G s e) = sterm ?u" "attachers (pumpEnd G s e) = attachers ?u"
    "handlerErr (pumpEnd G s e) = handlerErr ?u" "outPending (pumpEnd G s e) = outPending ?u" "outDone (pumpEnd G s e)"
    by (simp_all add: pumpEnd_def Let_def split: read_end.split)
  then have "flowing out (pumpEnd G s e)"
    using R' served_cong [of "pumpEnd G s e" ?u True R'] by (auto simp: flowing_def)
  then show ?thesis using EvEnd by simp
next
  case (EvJoin i)
  obtain s' e where j: "joinFanout G s i = (s', e)" by fastforce
  have "flowing out s'"
    by (rule quiet_flowing [OF assms(1) joinFanout_served [OF _ _ j]]) (use assms(2) EvJoin joinFanout_frame [OF j] in simp_all)
  then show ?thesis using EvJoin j by simp
next
  case (EvFrame i r se)
  obtain s' e b where j: "clientFrame G (\<lambda>c w. se) s i r = (s', e, b)" by (metis prod_cases3)
  have "outPending s' = outPending s \<and> outScan s' = outScan s \<and> outDone s' = outDone s"
    using j by (auto simp: clientFrame_def attachInput_def queueInput_def split: if_splits option.splits prod.splits
        dest!: attachResize_frame)
  moreover have "flowing out s'"
    by (rule quiet_flowing [OF assms(1) clientFrame_served [OF _ j]]) (use calculation in simp_all)
  ultimately show ?thesis using EvFrame j by simp
next
  case (EvLeave i se)
  obtain s' e where j: "leaveFanout G (\<lambda>c w. se) s i = (s', e)" by fastforce
  have "flowing out s'"
    by (rule quiet_flowing [OF assms(1) leaveFanout_served [OF _ j]]) (use leaveFanout_frame [OF j] in simp_all)
  then show ?thesis using EvLeave j by simp
next
  case (EvAskSize i)
  have "flowing out (requestSize s i)"
    by (rule quiet_flowing [OF assms(1)])
      (simp_all add: requestSize_def enqueueFrame_served frame_tag_defs, simp_all add: enqueueFrame_def)
  then show ?thesis using EvAskSize by simp
next
  case (EvWriter i ok)
  show ?thesis unfolding EvWriter outputFed.simps append_Nil2 daemonStep.simps
    by (rule quiet_flowing [OF assms(1)]) (simp_all add: stepWriter_served, simp_all add: stepWriter_def Let_def)
next
  case EvEndAttachers
  show ?thesis unfolding EvEndAttachers outputFed.simps append_Nil2 daemonStep.simps
    by (rule quiet_flowing [OF assms(1)]) (simp_all add: endAttachers_served, simp_all add: endAttachers_def)
next
  case (EvRequest now req ke)
  show ?thesis unfolding EvRequest
    outputFed.simps append_Nil2 daemonStep.simps
    by (rule same_flowing [OF assms(1)]) (auto simp: dispatch_def queueInput_def split: option.split prod.split)
next
  case (EvWrote n e)
  show ?thesis unfolding EvWrote
    outputFed.simps append_Nil2 daemonStep.simps
    by (rule same_flowing [OF assms(1)]) (auto simp: pumpWrote_def Let_def split: inputPc.split option.split write_error.split)
qed (auto intro: same_flowing [OF assms(1)] simp: pumpStore_def pumpAnswer_def queueInput_def pumpTake_def reap_def
    Let_def split: inputPc.split)

lemma runs_flowing:
  assumes "runs z G (initSession c so t0) out inp s" "T [] t0"
  shows "flowing out s"
  using assms(1)
proof induction
  case runs_init
  then show ?case using assms(2) Q_join by (auto simp: flowing_def served_def initSession_def ids_def grounded_def)
next
  case (runs_step out inp s ev)
  then show ?case using step_flowing by blast
qed

lemma runs_served:
  assumes "runs z G (initSession c so t0) out inp s" "T [] t0"
  shows "\<exists>R. out = R @ outPending s \<and> served (outDone s) R s"
  using runs_flowing [OF assms] by (simp add: flowing_def)

end


text \<open>
  C2. A client that joins at any moment misses nothing and gets nothing twice: whatever the order
  in which the pump, the clients, their writers and the shutdown run, as long as no screen has
  failed to render, the output frames of an attached client whose connection works are, after
  the last screen it was sent, exactly the output that followed the moment of that screen. What the
  pump holds back is the rest of the output, and nothing is left at its end.
\<close>

theorem client_stream_tiles:
  assumes "runs z G (initSession c so t0) out inp s" "handlerErr s = []"
    "(i, a) \<in> set (attachers s)" "\<not> writeFailed a"
  shows "\<exists>u after before snap t t'. out = u @ concat after @ outPending s \<and>
    outputs a = before @ snap # after \<and> fed G t0 u t \<and> TSnapshot G t = (t', Inr snap)"
proof -
  obtain R where "out = R @ outPending s" "tiles.served G t0 (outDone s) R s"
    using tiles.runs_served [OF assms(1) fed_init] by blast
  then have "out = R @ outPending s" "tiled G t0 (outDone s) R (outputs a)"
    using assms(2-4) by (auto simp: tiles.served_def)
  then show ?thesis unfolding tiled_def by fastforce
qed

lemma newTerminal_follows: "newTerminal G w h = Inr t \<Longrightarrow> follows [] t"
  by (auto simp: newTerminal_def resetModes_def follows_def coreOf_def core0_def split: sum.splits)


definition demoConfig :: sessionConfig where
  "demoConfig = \<lparr>cfgID = str ''a'', cfgCommand = [str ''sh''], cfgDir = [], cfgEnv = [], cfgMetadata = [],
     cfgSocketPath = str ''/r/a.sock'', cfgRetentionDir = str ''/s'', cfgRetentionCount = 1,
     cfgScrollback = \<lparr>HeadSize = 0, TailSize = 0, CompressionBacklogSize = 0, Storage = ''memory'', StoragePath = []\<rparr>\<rparr>"

definition demoSession :: "bytes session" where
  "demoSession = initSession demoConfig (newStoreBackend 2 2 2 9 Memory) recorderTerminal"

definition demoScreen :: bytes where
  "demoScreen = SnapshotPrefix @ csi ''0m'' @ modeSequences recorderTerminal"

lemma demo_snapshot: "TSnapshot recorder recorderTerminal = (recorderTerminal, Inr demoScreen)"
  by (simp add: TSnapshot_def demoScreen_def recorderTerminal_def resetModes_def Let_def recorder_def)

definition demoInput :: outFrame where
  "demoInput = \<lparr>ofTag = FrameInput, ofPayload = str ''x''\<rparr>"

definition demoEvents :: "event list" where
  "demoEvents = [EvJoin 0, EvWriter 0 True, EvFrame 0 (Some demoInput) None, EvFeed (str ''ab''),
     EvWriter 0 True, EvWriter 0 True, EvTake]"

definition demoClient :: attacher where
  "demoClient = (newAttacher demoScreen)\<lparr>writer := WriterLoop,
     sent := [\<lparr>ofTag = FrameOutput, ofPayload = demoScreen\<rparr>, \<lparr>ofTag = FrameOutput, ofPayload = str ''ab''\<rparr>]\<rparr>"

definition demoState :: "bytes session" where
  "demoState = demoSession\<lparr>sterm := TWrite recorder recorderTerminal (str ''ab''), attachers := [(0, demoClient)],
     clientCount := 1, inputBuf := str ''x'', inputPump := InputWriting (str ''x'')\<rparr>"

lemma demo_cut: "SafeCut zeroScanner (str ''ab'') 2 = 2" "Advance zeroScanner (str ''ab'') = zeroScanner"
  by code_simp+

lemma demo_run: "legal plainCodec recorder demoSession demoEvents \<and>
    daemonRun plainCodec recorder demoSession demoEvents = demoState \<and>
    inputOf plainCodec recorder demoSession demoEvents = str ''x''"
  using demo_cut
  by (simp add: demoEvents_def demoSession_def demoState_def demoClient_def demoInput_def initSession_def
      joinFanout_def demo_snapshot newAttacher_def ids_def stepWriter_def writerStep_def setAttacher_def
      clientFrame_def attachInput_def queueInput_def feedTerm_def fanout_def deliverOutput_def attachQueue_def
      pumpTake_def inputAccepted_def accepts_def ptyInputCap_def frame_tag_defs Let_def)

lemma demo_runs:
  "runs plainCodec recorder (initSession demoConfig (newStoreBackend 2 2 2 9 Memory) recorderTerminal) (str ''ab'') (str ''x'') demoState"
  using runs_daemonRun [of plainCodec recorder demoSession demoEvents] demo_run
  by (simp add: demoEvents_def demoSession_def)

lemma demo_client:
  "handlerErr demoState = []" "(0, demoClient) \<in> set (attachers demoState)" "\<not> writeFailed demoClient"
  "frames demoClient = sent demoClient" "outPending demoState = []"
  by (simp_all add: demoState_def demoClient_def newAttacher_def frames_def underWay_def demoSession_def initSession_def)

theorem input_delivered_witness:
  "str ''x'' = ptyInput demoState @ inputBuf demoState \<and> retainedInput demoState \<le> ptyInputCap"
  using input_delivered [OF demo_runs] by blast

theorem client_stream_tiles_witness:
  "\<exists>u after before snap t t'. str ''ab'' = u @ concat after @ outPending demoState \<and>
    outputs demoClient = before @ snap # after \<and> fed recorder recorderTerminal u t \<and>
    TSnapshot recorder t = (t', Inr snap)"
  by (rule client_stream_tiles [OF demo_runs demo_client(1-3)])


section \<open>The end of a session\<close>

text \<open>The writer sends all that is queued, up to the frame that ends the session.\<close>

fun upToEnded :: "outFrame list \<Rightarrow> outFrame list" where
  "upToEnded [] = []"
| "upToEnded (f # fs) = (if ofTag f = FrameEnded then [f] else f # upToEnded fs)"

definition ends :: "outFrame list \<Rightarrow> bool" where
  "ends fs \<longleftrightarrow> (\<exists>f\<in>set fs. ofTag f = FrameEnded)"

text \<open>What is still to be sent, and how many steps that takes.\<close>

definition waiting :: "attacher \<Rightarrow> outFrame list" where
  "waiting a = (case writer a of WriterSending f \<Rightarrow> [f] | _ \<Rightarrow> []) @
     (case pendingSnapshot a of Some p \<Rightarrow> [\<lparr>ofTag = FrameOutput, ofPayload = p\<rparr>] | None \<Rightarrow> []) @ obuf a"

definition writes :: "nat \<Rightarrow> attacher \<Rightarrow> attacher" where
  "writes n a = ((\<lambda>a. writerStep a True) ^^ n) a"

lemma writes_Suc: "writes (Suc n) a = writes n (writerStep a True)"
  by (simp add: writes_def funpow_Suc_right del: funpow.simps)

lemma writes_done: "writer a = WriterDone \<Longrightarrow> writes n a = a"
  by (induction n) (simp_all add: writes_def writerStep_def)

lemma drain_sending:
  assumes "writer a = WriterSending f" "ofTag f \<noteq> FrameEnded"
  shows "writer (writerStep a True) = WriterLoop \<and> sent (writerStep a True) = sent a @ [f] \<and>
    waiting a = f # waiting (writerStep a True) \<and> aclosed (writerStep a True) = aclosed a"
  using assms by (simp add: writerStep_def waiting_def)

lemma drain_loop:
  assumes "writer a = WriterLoop" "waiting a \<noteq> []" "\<not> aclosed a"
  shows "writer (writerStep a True) = WriterSending (hd (waiting a)) \<and> sent (writerStep a True) = sent a \<and>
    waiting (writerStep a True) = waiting a \<and> \<not> aclosed (writerStep a True)"
  using assms by (cases "obuf a") (auto simp: writerStep_def waiting_def split: option.splits)

lemma drains_loop:
  assumes "writer a = WriterLoop" "\<not> aclosed a"
  shows "sent (writes (2 * length (waiting a)) a) = sent a @ upToEnded (waiting a) \<and>
    (ends (waiting a) \<longrightarrow> writer (writes (2 * length (waiting a)) a) = WriterDone)"
  using assms
proof (induction "waiting a" arbitrary: a)
  case Nil
  then show ?case by (simp add: Nil.hyps [symmetric] writes_def ends_def)
next
  case (Cons f fs)
  define b where "b = writerStep a True"
  define c where "c = writerStep b True"
  have b: "writer b = WriterSending f" "sent b = sent a" "waiting b = f # fs" "\<not> aclosed b"
    using drain_loop [of a] Cons.prems Cons.hyps(2) [symmetric] by (simp_all add: b_def)
  have w: "writes (2 * length (waiting a)) a = writes (2 * length fs) c"
    by (simp add: Cons.hyps(2) [symmetric] writes_Suc b_def c_def)
  show ?case
  proof (cases "ofTag f = FrameEnded")
    case True
    then have "writer c = WriterDone" "sent c = sent a @ [f]" using b by (simp_all add: c_def writerStep_def)
    then show ?thesis using w writes_done True by (simp add: Cons.hyps(2) [symmetric])
  next
    case False
    have c: "writer c = WriterLoop" "sent c = sent a @ [f]" "fs = waiting c" "\<not> aclosed c"
      using drain_sending [OF b(1) False] b by (simp_all add: c_def)
    show ?thesis using Cons.hyps(1) [OF c(3,1,4)] c(2,3) w False
      by (simp add: Cons.hyps(2) [symmetric] ends_def)
  qed
qed


lemma drains:
  assumes "writer a \<noteq> WriterDone" "\<not> aclosed a"
  shows "\<exists>n \<le> 2 * length (waiting a). sent (writes n a) = sent a @ upToEnded (waiting a) \<and>
    (ends (waiting a) \<longrightarrow> writer (writes n a) = WriterDone)"
proof (cases "writer a")
  case (WriterSending f)
  define b where "b = writerStep a True"
  show ?thesis
  proof (cases "ofTag f = FrameEnded")
    case True
    have "waiting a = f # tl (waiting a)" using WriterSending by (simp add: waiting_def)
    moreover have "writer b = WriterDone" "sent b = sent a @ [f]"
      using True WriterSending by (simp_all add: b_def writerStep_def)
    moreover have "writes 1 a = b" by (simp add: writes_def b_def)
    ultimately show ?thesis using True
      by (intro exI [of _ 1]) (metis Suc_leI length_greater_0_conv list.discI mult_2 trans_le_add1 One_nat_def upToEnded.simps(2))
  next
    case False
    have b: "writer b = WriterLoop" "sent b = sent a @ [f]" "waiting a = f # waiting b" "\<not> aclosed b"
      using drain_sending [OF WriterSending False] assms(2) by (simp_all add: b_def)
    then show ?thesis using drains_loop [OF b(1,4)] False
      by (intro exI [of _ "Suc (2 * length (waiting b))"]) (simp add: writes_Suc ends_def flip: b_def)
  qed
qed (use drains_loop assms in auto)

lemma upToEnded_ends: "upToEnded (fs @ [f]) = (if ends fs then upToEnded fs else fs @ [f])"
  by (induction fs) (auto simp: ends_def)

text \<open>
  C13. Every client that is still attached when the session ends gets all the output: once
  \<open>endAttachers\<close> has run, its writer, given a connection that takes its writes, sends everything
  that was queued before, in order, then the frame that ends the session, and stops; it does so
  within two steps per frame. (Unless the client was told of an end before, it is the last frame.)
\<close>

theorem ended_client_drains:
  assumes "(i, a) \<in> set (attachers s)" "\<not> aclosed a" "writer a \<noteq> WriterDone" "\<not> ends (waiting a)"
  shows "\<exists>b n. (i, b) \<in> set (attachers (endAttachers s)) \<and> n \<le> 2 * length (waiting a) + 2 \<and>
    sent (writes n b) = sent a @ waiting a @ [\<lparr>ofTag = FrameEnded, ofPayload = []\<rparr>] \<and>
    writer (writes n b) = WriterDone"
proof -
  let ?e = "\<lparr>ofTag = FrameEnded, ofPayload = []\<rparr>"
  let ?b = "a\<lparr>obuf := obuf a @ [?e]\<rparr>"
  have b: "(i, ?b) \<in> set (attachers (endAttachers s))" using assms(1) by (force simp: endAttachers_def)
  have w: "waiting ?b = waiting a @ [?e]" by (simp add: waiting_def)
  then have "ends (waiting ?b)" "sent ?b = sent a" by (simp_all add: ends_def)
  then show ?thesis using drains [of ?b] assms(2-4) b w by (auto simp: upToEnded_ends)
qed

theorem ended_client_drains_witness:
  "\<exists>b n. (0, b) \<in> set (attachers (endAttachers demoState)) \<and> n \<le> 2 * length (waiting demoClient) + 2 \<and>
    sent (writes n b) = sent demoClient @ waiting demoClient @ [\<lparr>ofTag = FrameEnded, ofPayload = []\<rparr>] \<and>
    writer (writes n b) = WriterDone"
  by (rule ended_client_drains [OF demo_client(2)])
    (simp_all add: demoClient_def newAttacher_def waiting_def ends_def)

text \<open>What a client that joins too late is sent.\<close>

definition untold :: "nat \<Rightarrow> 'g session \<Rightarrow> bool" where
  "untold i s \<longleftrightarrow> (\<forall>a. (i, a) \<in> set (attachers s) \<longrightarrow> \<not> ends (frames a))"

lemma untold_setAttacher:
  assumes "untold i s" "\<And>a. \<not> ends (frames a) \<Longrightarrow> \<not> ends (frames (f a))"
  shows "untold i (setAttacher s j f)"
  using assms by (auto simp: untold_def split: if_splits)

lemma untold_cong: "attachers s' = attachers s \<Longrightarrow> untold i s \<Longrightarrow> untold i s'"
  by (simp add: untold_def)

lemma ends_append [simp]: "ends (fs @ gs) \<longleftrightarrow> ends fs \<or> ends gs" "\<not> ends []"
  by (auto simp: ends_def)

lemma ends_writerStep: "\<not> ends (frames a) \<Longrightarrow> \<not> ends (frames (writerStep a ok))"
  by (cases "writer a"; cases "obuf a"; cases "pendingSnapshot a"; cases ok)
    (auto simp: writerStep_def frames_def underWay_def Let_def ends_def)

lemma untold_deliver:
  assumes "untold i s"
  shows "untold i (deliverOutput G s j p)"
proof (cases "map_of (attachers s) j")
  case (Some a)
  obtain t r where sn: "TSnapshot G (sterm s) = (t, r)" by fastforce
  have t: "untold i (s\<lparr>sterm := t\<rparr>)" by (rule untold_cong [OF _ assms]) simp
  have "untold i (setAttacher s j (\<lambda>a. a\<lparr>obuf := obuf a @ [\<lparr>ofTag = FrameOutput, ofPayload = p\<rparr>]\<rparr>))"
    by (rule untold_setAttacher [OF assms]) (simp add: frames_def underWay_def ends_def frame_tag_defs)
  moreover have "untold i (setAttacher (s\<lparr>sterm := t\<rparr>) j (\<lambda>a. a\<lparr>obuf := [], pendingSnapshot := Some x\<rparr>))" for x
    by (rule untold_setAttacher [OF t]) (auto simp: frames_def underWay_def ends_def frame_tag_defs)
  moreover have "untold i (recordHandlerError (s\<lparr>sterm := t\<rparr>) es)" for es
    by (rule untold_cong [OF _ assms]) (simp add: recordHandlerError_def)
  ultimately show ?thesis using Some sn by (simp add: deliverOutput_def split: sum.split)
qed (use assms in \<open>simp add: deliverOutput_def\<close>)

lemma untold_fanout: "untold i s \<Longrightarrow> untold i (fanout G s p)"
proof -
  have "untold i s \<Longrightarrow> untold i (foldl (\<lambda>s i. deliverOutput G s i p) s is)" for "is"
    by (induction "is" arbitrary: s) (simp_all add: untold_deliver)
  then show "untold i s \<Longrightarrow> untold i (fanout G s p)" by (simp add: fanout_def)
qed

lemma untold_feedTerm: "untold i s \<Longrightarrow> untold i (feedTerm G s data flush)"
  unfolding feedTerm_def Let_def
  by (auto intro: untold_cong [OF _ untold_fanout [OF untold_cong [of _ s]]] untold_cong [of _ s])

lemma untold_clientFrame:
  assumes "untold i s" shows "untold i (fst (clientFrame G setsize s j r))"
proof -
  have z: "untold i (setAttacher s j (\<lambda>a. a\<lparr>acols := c, arows := w\<rparr>))" for c w
    by (rule untold_setAttacher [OF assms]) (simp add: frames_def underWay_def)
  have a: "untold i (fst (attachResize G setsize s j rp))" for rp
  proof -
    have "attachers (fst (applyMinSize G setsize u)) = attachers u" for u
      using applyMinSize_frame [OF surjective_pairing] by blast
    from untold_cong [OF this z]
    have "untold i (fst (applyMinSize G setsize (setAttacher s j (\<lambda>a. a\<lparr>acols := Cols rp, arows := Rows rp\<rparr>))))" .
    then show ?thesis using assms by (simp add: attachResize_def)
  qed
  have q: "untold i (queueInput s p)" for p
    by (rule untold_cong [OF _ assms]) (simp add: queueInput_def)
  show ?thesis using assms
    by (simp add: clientFrame_def attachInput_def a q split_beta split: option.split)
qed

lemma untold_leave: "untold i s \<Longrightarrow> untold i (fst (leaveFanout G setsize s j))"
  using applyMinSize_frame [OF surjective_pairing, of G setsize
      "s\<lparr>attachers := filter (\<lambda>(k, a). k \<noteq> j) (attachers s), clientCount := clientCount s - 1\<rparr>"]
  by (auto simp: leaveFanout_def Let_def untold_def split: prod.split)

lemma untold_join: "untold i s \<Longrightarrow> untold i (fst (joinFanout G s j))"
  by (auto simp: joinFanout_def untold_def newAttacher_def frames_def underWay_def ends_def frame_tag_defs
      split: prod.split sum.split)

lemma untold_step:
  assumes "untold i s" "ev \<noteq> EvEndAttachers"
  shows "untold i (daemonStep z G s ev)"
proof (cases ev)
  case (EvEnd e)
  then show ?thesis using untold_cong [OF _ untold_feedTerm [OF assms(1)], of "pumpEnd G s e" G "[]" True]
    by (simp add: pumpEnd_def Let_def split: read_end.split)
next
  case (EvWriter j ok)
  have "untold i (setAttacher s j (\<lambda>a. writerStep a ok))"
    by (rule untold_setAttacher [OF assms(1)]) (rule ends_writerStep)
  from untold_cong [OF _ this, of "stepWriter s j ok"] show ?thesis
    using EvWriter by (simp add: stepWriter_def Let_def)
next
  case (EvAskSize j)
  then show ?thesis unfolding EvAskSize daemonStep.simps requestSize_def enqueueFrame_def
    by (intro untold_setAttacher [OF assms(1)]) (simp add: frames_def underWay_def ends_def frame_tag_defs)
next
  case (EvRequest now req ke)
  show ?thesis unfolding EvRequest
    by (rule untold_cong [OF _ assms(1)]) (auto simp: dispatch_def queueInput_def split: option.split prod.split)
next
  case (EvWrote n e)
  show ?thesis unfolding EvWrote
    by (rule untold_cong [OF _ assms(1)])
      (auto simp: pumpWrote_def Let_def split: inputPc.split option.split write_error.split)
qed (use assms in \<open>auto simp: untold_feedTerm untold_clientFrame untold_leave untold_join
    intro: untold_cong [OF _ assms(1)]
    simp: pumpStore_def pumpAnswer_def queueInput_def pumpTake_def reap_def Let_def split: inputPc.split\<close>)

text \<open>
  C38. A client that passed the handshake before the end but joins the fanout after
  \<open>endAttachers\<close> is never told that the session ended: whatever happens next, neither its queue nor
  what it was sent holds the frame. \<open>serveAttach\<close> checks for the end once, before it joins.
\<close>

theorem late_client_not_told:
  assumes "joinFanout G (endAttachers s) i = (s', None)" "i \<notin> set (ids s)"
    "EvEndAttachers \<notin> set evs" "(i, a) \<in> set (attachers (daemonRun z G s' evs))"
  shows "\<not> ends (frames a)"
proof -
  have "untold i s'" using assms(1,2)
    by (force simp: joinFanout_def untold_def newAttacher_def frames_def underWay_def ends_def frame_tag_defs
        endAttachers_def ids_def split: prod.splits sum.splits)
  then have "untold i (daemonRun z G s' evs)" using assms(3)
    by (induction evs arbitrary: s') (auto simp: untold_step)
  then show ?thesis using assms(4) by (simp add: untold_def)
qed


definition lateClient :: attacher where
  "lateClient = (newAttacher demoScreen)\<lparr>obuf := [\<lparr>ofTag = FrameResize, ofPayload = []\<rparr>], writer := WriterLoop,
     sent := [\<lparr>ofTag = FrameOutput, ofPayload = demoScreen\<rparr>]\<rparr>"

theorem late_client_not_told_witness: "\<not> ends (frames lateClient)"
proof (rule late_client_not_told)
  show "joinFanout recorder (endAttachers demoSession) 0 =
      (demoSession\<lparr>attachers := [(0, newAttacher demoScreen)], clientCount := 1\<rparr>, None)"
    "0 \<notin> set (ids demoSession)"
    by (simp_all add: joinFanout_def endAttachers_def demoSession_def initSession_def demo_snapshot ids_def)
  show "EvEndAttachers \<notin> set [EvAskSize 0, EvWriter 0 True]" by simp
  show "(0, lateClient) \<in> set (attachers (daemonRun plainCodec recorder
      (demoSession\<lparr>attachers := [(0, newAttacher demoScreen)], clientCount := 1\<rparr>) [EvAskSize 0, EvWriter 0 True]))"
    by (simp add: requestSize_def enqueueFrame_def setAttacher_def stepWriter_def Let_def writerStep_def
        newAttacher_def lateClient_def frame_tag_defs)
qed

end
