(* ===== verification/Go_Errors.thy ===== *)
theory Go_Errors
  imports Session_Info
begin

text \<open>
  Go errors as the sources build and take them apart: sentinels, \<open>errors.New\<close>,
  \<open>fmt.Errorf\<close> with one \<open>%w\<close>, \<open>errors.Join\<close>, and the wrapper of
  \<open>client_attach.go\<close>, and the program's own error types: those with an \<open>Unwrap\<close>
  method, whose cause may be nil, and those without. A nil error is \<open>None\<close>. On these trees: \<open>withoutNetErrClosed\<close> of \<open>daemon/daemon.go\<close>,
  \<open>withoutAttachDetached\<close> and \<open>withoutExpectedAttachShutdownErrors\<close> of
  \<open>client_attach.go\<close>. Lemmas: the last keeps exactly the causes that are not expected.
\<close>

text \<open>
  Errors without a cause: \<open>ResponseError\<close> (operation, message),
  \<open>ConcurrencyLimitError\<close> (namespace, limit, active sessions), \<open>ExitError\<close>, and a
  text with its arguments.
\<close>

datatype plainError =
    ResponseError string bytes
  | ConcurrencyLimitError bytes int "Info list"
  | ExitError int
  | Text string "bytes list"

text \<open>Errors with a cause; \<open>Formatted\<close> is \<open>fmt.Errorf\<close> with more arguments than the error.\<close>

datatype wrapperError =
    ProtocolError string
  | SessionNotFoundError string bytes
  | SessionEndedError string bytes
  | AttachOptionsError
  | StartupError bytes
  | CodedError string "Info list option"
  | Formatted string "bytes list"

datatype sentinel =
    ErrEOF | ErrUnexpectedEOF | ErrShortWrite | ErrClosedPipe | ErrCanceled | ErrDeadline
  | ErrNetClosed | ErrOsClosed | ErrNotExist | ErrConnRefused | ErrConnReset | ErrBrokenPipe | ErrNotConn
  | ErrProcessDone | ErrAttachDetached | ErrAttachSocketDial | ErrSizeUnavailable
  | ErrSessionRunning | ErrSessionExists | ErrOther string | ErrPlain plainError

text \<open>The errors in a \<open>Plain\<close> are only printed in its message (\<open>%v\<close>), not wrapped.\<close>

datatype goerr =
    Sentinel sentinel
  | Errorf string goerr
  | Joined "goerr list"
  | Pruned goerr goerr
  | Wrapped wrapperError "goerr option"
  | Plain plainError "goerr list"

text \<open>\<open>errors.Join\<close> drops nil errors and is nil when none is left.\<close>

definition errorsJoin :: "goerr option list \<Rightarrow> goerr option" where
  "errorsJoin es = (case List.map_filter id es of [] \<Rightarrow> None | xs \<Rightarrow> Some (Joined xs))"

text \<open>\<open>errors.Is\<close> for a sentinel.\<close>

fun errorsIs :: "goerr \<Rightarrow> sentinel \<Rightarrow> bool" where
  "errorsIs (Sentinel x) y \<longleftrightarrow> x = y"
| "errorsIs (Errorf m e) y \<longleftrightarrow> errorsIs e y"
| "errorsIs (Joined es) y \<longleftrightarrow> list_ex (\<lambda>e. errorsIs e y) es"
| "errorsIs (Pruned w e) y \<longleftrightarrow> errorsIs e y"
| "errorsIs (Wrapped k None) y \<longleftrightarrow> False"
| "errorsIs (Wrapped k (Some e)) y \<longleftrightarrow> errorsIs e y"
| "errorsIs (Plain l es) y \<longleftrightarrow> ErrPlain l = y"

text \<open>\<open>errors.As\<close>: the first error of a kind on the way down.\<close>

fun nodes :: "goerr \<Rightarrow> goerr list" where
  "nodes (Sentinel x) = [Sentinel x]"
| "nodes (Errorf m e) = Errorf m e # nodes e"
| "nodes (Joined es) = Joined es # concat (map nodes es)"
| "nodes (Pruned w e) = Pruned w e # nodes e"
| "nodes (Wrapped k None) = [Wrapped k None]"
| "nodes (Wrapped k (Some e)) = Wrapped k (Some e) # nodes e"
| "nodes (Plain l es) = [Plain l es]"

definition errorsAs :: "(goerr \<Rightarrow> bool) \<Rightarrow> goerr \<Rightarrow> goerr option" where
  "errorsAs k e = List.find k (nodes e)"

text \<open>The causes of an error, in order.\<close>

fun causes :: "goerr \<Rightarrow> sentinel list" where
  "causes (Sentinel x) = [x]"
| "causes (Errorf m e) = causes e"
| "causes (Joined es) = concat (map causes es)"
| "causes (Pruned w e) = causes e"
| "causes (Wrapped k None) = []"
| "causes (Wrapped k (Some e)) = causes e"
| "causes (Plain l es) = [ErrPlain l]"

definition causesOf :: "goerr option \<Rightarrow> sentinel list" where
  "causesOf e = (case e of None \<Rightarrow> [] | Some x \<Rightarrow> causes x)"

section \<open>Errors of an orderly shutdown\<close>

definition expectedShutdown :: "bool \<Rightarrow> sentinel \<Rightarrow> bool" where
  "expectedShutdown includeEOF x \<longleftrightarrow>
     x = ErrCanceled \<or> x = ErrNetClosed \<or> x = ErrOsClosed \<or> x = ErrClosedPipe \<or> includeEOF \<and> x = ErrEOF"

text \<open>
  A wrapper whose cause survives becomes a \<open>prunedAttachError\<close> with the message of the whole
  error (kept here as the error itself) and the pruned cause.
\<close>

fun withoutExpected :: "bool \<Rightarrow> goerr \<Rightarrow> goerr option" where
  "withoutExpected eof (Sentinel x) = (if expectedShutdown eof x then None else Some (Sentinel x))"
| "withoutExpected eof (Errorf m e) =
     (case withoutExpected eof e of None \<Rightarrow> None | Some c \<Rightarrow> Some (Pruned (Errorf m e) c))"
| "withoutExpected eof (Pruned w e) =
     (case withoutExpected eof e of None \<Rightarrow> None | Some c \<Rightarrow> Some (Pruned (Pruned w e) c))"
| "withoutExpected eof (Joined es) = errorsJoin (map (withoutExpected eof) es)"
| "withoutExpected eof (Wrapped k None) = None"
| "withoutExpected eof (Wrapped k (Some e)) =
     (case withoutExpected eof e of None \<Rightarrow> None | Some c \<Rightarrow> Some (Pruned (Wrapped k (Some e)) c))"
| "withoutExpected eof (Plain l es) = Some (Plain l es)"

definition withoutExpectedAttachShutdownErrors :: "goerr option \<Rightarrow> bool \<Rightarrow> goerr option" where
  "withoutExpectedAttachShutdownErrors e eof = (case e of None \<Rightarrow> None | Some x \<Rightarrow> withoutExpected eof x)"

section \<open>A detach is no error\<close>

text \<open>Only joins are taken apart, so a wrapped detach stays.\<close>

fun withoutDetached :: "goerr \<Rightarrow> goerr option" where
  "withoutDetached (Sentinel x) = (if x = ErrAttachDetached then None else Some (Sentinel x))"
| "withoutDetached (Joined es) = errorsJoin (map withoutDetached es)"
| "withoutDetached e = Some e"

definition withoutAttachDetached :: "goerr option \<Rightarrow> goerr option" where
  "withoutAttachDetached e = (case e of None \<Rightarrow> None | Some x \<Rightarrow> withoutDetached x)"

section \<open>Closed connections\<close>

text \<open>
  The flag says whether the result is the very error that came in: \<open>errors.Join\<close> always makes a
  new one, and a wrapper is kept only when its cause is unchanged.
\<close>

fun withoutClosed :: "goerr \<Rightarrow> (goerr \<times> bool) option" where
  "withoutClosed (Sentinel x) = (if x = ErrNetClosed then None else Some (Sentinel x, True))"
| "withoutClosed (Joined es) =
     (case errorsJoin (map (\<lambda>e. map_option fst (withoutClosed e)) es) of
        None \<Rightarrow> None | Some j \<Rightarrow> Some (j, False))"
| "withoutClosed (Errorf m e) =
     (case withoutClosed e of
        None \<Rightarrow> None
      | Some (c, same) \<Rightarrow>
          if \<not> same then Some (c, False)
          else if errorsIs (Errorf m e) ErrNetClosed then None else Some (Errorf m e, True))"
| "withoutClosed (Pruned w e) =
     (case withoutClosed e of
        None \<Rightarrow> None
      | Some (c, same) \<Rightarrow>
          if \<not> same then Some (c, False)
          else if errorsIs (Pruned w e) ErrNetClosed then None else Some (Pruned w e, True))"
| "withoutClosed (Wrapped k None) = None"
| "withoutClosed (Wrapped k (Some e)) =
     (case withoutClosed e of
        None \<Rightarrow> None
      | Some (c, same) \<Rightarrow>
          if \<not> same then Some (c, False)
          else if errorsIs (Wrapped k (Some e)) ErrNetClosed then None else Some (Wrapped k (Some e), True))"
| "withoutClosed (Plain l es) = Some (Plain l es, True)"

definition withoutNetErrClosed :: "goerr option \<Rightarrow> goerr option" where
  "withoutNetErrClosed e = (case e of None \<Rightarrow> None | Some x \<Rightarrow> map_option fst (withoutClosed x))"

section \<open>What is kept\<close>

lemma causes_errorsJoin: "causesOf (errorsJoin es) = concat (map causesOf es)"
proof -
  have c: "concat (map causes (List.map_filter id es)) = concat (map causesOf es)" for es
    by (induction es) (auto simp: causesOf_def map_filter_simps split: option.split)
  show ?thesis
    by (cases "List.map_filter id es")
      (simp_all add: errorsJoin_def causesOf_def [of None] causesOf_def [of "Some x" for x] flip: c)
qed

lemma errorsIs_causes: "errorsIs e x \<longleftrightarrow> x \<in> set (causes e)"
  by (induction e x rule: errorsIs.induct) (auto simp: list_ex_iff)

lemma causes_withoutExpected:
  "causesOf (withoutExpected eof e) = filter (\<lambda>x. \<not> expectedShutdown eof x) (causes e)"
proof (induction eof e rule: withoutExpected.induct)
  case (4 eof es)
  then show ?case by (simp add: causes_errorsJoin filter_concat comp_def cong: map_cong)
qed (auto simp: causesOf_def expectedShutdown_def split: option.splits)

lemma errorsJoin_None: "errorsJoin es = None \<longleftrightarrow> (\<forall>e\<in>set es. e = None)"
proof -
  have "List.map_filter id es = [] \<longleftrightarrow> (\<forall>e\<in>set es. e = None)"
    by (induction es) (auto simp: map_filter_simps split: option.split)
  then show ?thesis by (cases "List.map_filter id es") (simp_all add: errorsJoin_def)
qed

lemma withoutExpected_None:
  "withoutExpected eof e = None \<longleftrightarrow> list_all (expectedShutdown eof) (causes e)"
proof (induction eof e rule: withoutExpected.induct)
  case (4 eof es)
  then show ?case by (auto simp: errorsJoin_None list_all_iff)
qed (auto simp: expectedShutdown_def split: option.split)

text \<open>
  Ending an attachment hides exactly the errors that ending it causes: of an error of any
  shape, the causes that are not the cancellation, a closed stream or (on request) the end of the
  input are all kept, in order, nothing else is added, and the result is nil just when no such
  cause is left.
\<close>

theorem withoutExpected_exact:
  "causesOf (withoutExpectedAttachShutdownErrors e eof) = filter (\<lambda>x. \<not> expectedShutdown eof x) (causesOf e) \<and>
   (withoutExpectedAttachShutdownErrors e eof = None \<longleftrightarrow> list_all (expectedShutdown eof) (causesOf e))"
  by (cases e) (simp_all add: withoutExpectedAttachShutdownErrors_def causesOf_def [of None]
      causesOf_def [of "Some x" for x] causes_withoutExpected withoutExpected_None)

lemma wrapped_withoutClosed:
  assumes "causesOf (map_option fst (withoutClosed e)) = filter (\<lambda>x. x \<noteq> ErrNetClosed) (causes e) \<and>
      (\<forall>c. withoutClosed e = Some (c, True) \<longrightarrow> c = e \<and> ErrNetClosed \<notin> set (causes e))"
    and "causes w = causes e"
    and "withoutClosed w = (case withoutClosed e of
        None \<Rightarrow> None
      | Some (c, same) \<Rightarrow>
          if \<not> same then Some (c, False) else if errorsIs w ErrNetClosed then None else Some (w, True))"
  shows "causesOf (map_option fst (withoutClosed w)) = filter (\<lambda>x. x \<noteq> ErrNetClosed) (causes w) \<and>
    (\<forall>c. withoutClosed w = Some (c, True) \<longrightarrow> c = w \<and> ErrNetClosed \<notin> set (causes w))"
proof (cases "withoutClosed e")
  case None
  then show ?thesis using assms by (simp add: causesOf_def)
next
  case (Some p)
  obtain c same where p: "p = (c, same)" by fastforce
  show ?thesis
  proof (cases same)
    case True
    then have "c = e" "ErrNetClosed \<notin> set (causes e)" using assms(1) Some p by auto
    moreover have "filter (\<lambda>x. x \<noteq> ErrNetClosed) (causes e) = causes e"
      using calculation(2) by (auto intro: filter_True)
    ultimately show ?thesis using assms(2,3) Some p True by (simp add: causesOf_def errorsIs_causes)
  next
    case False
    then show ?thesis using assms Some p by (simp add: causesOf_def)
  qed
qed

lemma causes_withoutClosed:
  "causesOf (map_option fst (withoutClosed e)) = filter (\<lambda>x. x \<noteq> ErrNetClosed) (causes e) \<and>
   (\<forall>c. withoutClosed e = Some (c, True) \<longrightarrow> c = e \<and> ErrNetClosed \<notin> set (causes e))"
proof (induction e rule: withoutClosed.induct)
  case (2 es)
  then have "causesOf (errorsJoin (map (\<lambda>e. map_option fst (withoutClosed e)) es)) =
      filter (\<lambda>x. x \<noteq> ErrNetClosed) (causes (Joined es))"
    by (simp add: causes_errorsJoin filter_concat comp_def cong: map_cong)
  then show ?case by (auto simp: causesOf_def split: option.splits)
next
  case (3 m e)
  then show ?case by (rule wrapped_withoutClosed) (simp_all split: option.split prod.split)
next
  case (4 w e)
  then show ?case by (rule wrapped_withoutClosed) (simp_all split: option.split prod.split)
next
  case (6 k e)
  then show ?case by (rule wrapped_withoutClosed) (simp_all split: option.split prod.split)
qed (simp_all add: causesOf_def)

text \<open>
  A daemon's handler errors lose only closed connections: every other cause survives, in
  order.
\<close>

theorem withoutNetErrClosed_exact:
  "causesOf (withoutNetErrClosed e) = filter (\<lambda>x. x \<noteq> ErrNetClosed) (causesOf e)"
  using causes_withoutClosed by (cases e) (simp_all add: withoutNetErrClosed_def causesOf_def [of None]
      causesOf_def [of "Some x" for x])

text \<open>A wrapper around a join loses its message even when nothing is pruned.\<close>

lemma withoutNetErrClosed_loses_context:
  "withoutNetErrClosed (Some (Errorf m (Joined [Sentinel ErrEOF]))) = Some (Joined [Sentinel ErrEOF])"
  by (simp add: withoutNetErrClosed_def errorsJoin_def map_filter_simps)

end
