(* ===== verification/Client_Api.thy ===== *)
theory Client_Api
  imports Go_Errors
begin

text \<open>
  \<open>client_api.go\<close>: the typed client, one operation per stream. A dialer is a function from the
  request to a failed dial or a stream, which may be nil; a stream is the results of the calls made
  on it and the state of the context where the code looks at it. Lemmas: when a request succeeds,
  and which errors every operation returns.
\<close>

text \<open>\<open>daemon.Response\<close> as the client decodes it\<close>

record reply =
  rOK :: bool
  rError :: bytes
  rInfo :: "Info option"
  rHistory :: bytes
  rExitCode :: "int option"

definition emptyReply :: reply where
  "emptyReply = \<lparr>rOK = False, rError = [], rInfo = None, rHistory = [], rExitCode = None\<rparr>"

record clientConn =
  encodeResult :: "goerr option"
  ctxAtEncode :: "goerr option"
  decodeResult :: "goerr + reply"
  ctxAtDecode :: "goerr option"
  closeResult :: "goerr option"

type_synonym dialer = "string \<Rightarrow> bytes \<Rightarrow> goerr + clientConn option"

text \<open>A client without a dialer is \<open>None\<close>, as is a nil client.\<close>

type_synonym client = "dialer option"

definition NewClient :: "dialer \<Rightarrow> client" where "NewClient d = Some d"

definition protocolError :: "string \<Rightarrow> goerr \<Rightarrow> goerr" where
  "protocolError op e = Wrapped (ProtocolError op) (Some e)"

text \<open>The body of \<open>request\<close> once the stream is open, before its deferred close.\<close>

definition exchange :: "clientConn \<Rightarrow> string \<Rightarrow> reply \<times> goerr option" where
  "exchange conn op =
     (case encodeResult conn of
        Some e \<Rightarrow>
          (case ctxAtEncode conn of
             Some c \<Rightarrow> (emptyReply, Some c)
           | None \<Rightarrow> (emptyReply, Some (protocolError op (Errorf ''write request: %w'' e))))
      | None \<Rightarrow>
          (case decodeResult conn of
             Inl e \<Rightarrow>
               (case ctxAtDecode conn of
                  Some c \<Rightarrow> (emptyReply, Some c)
                | None \<Rightarrow> (emptyReply, Some (protocolError op (Errorf ''decode response: %w'' e))))
           | Inr resp \<Rightarrow>
               if \<not> rOK resp then (emptyReply, Some (Plain (ResponseError op (rError resp)) []))
               else (resp, None)))"

definition requestClient :: "client \<Rightarrow> string \<Rightarrow> bytes \<Rightarrow> reply \<times> goerr option" where
  "requestClient c op input =
     (case c of
        None \<Rightarrow> (emptyReply, Some (Sentinel (ErrOther ''bgx: client has no dialer'')))
      | Some dial \<Rightarrow>
          (case dial op input of
             Inl e \<Rightarrow> (emptyReply, Some (Wrapped (Formatted ''%s: dial: %w'' [str op]) (Some e)))
           | Inr None \<Rightarrow>
               (emptyReply, Some (protocolError op (Sentinel (ErrOther ''dialer returned a nil stream''))))
           | Inr (Some conn) \<Rightarrow>
               (case exchange conn op of (resp, ret) \<Rightarrow> (resp, errorsJoin [ret, closeResult conn]))))"

definition missingResponseField :: "string \<Rightarrow> string \<Rightarrow> goerr" where
  "missingResponseField op field = protocolError op (Plain (Text ''missing %s'' [str field]) [])"

record ExitResult =
  exInfo :: Info
  exCode :: int

definition exitOperation :: "client \<Rightarrow> string \<Rightarrow> goerr + ExitResult" where
  "exitOperation c op =
     (case requestClient c op [] of
        (resp, Some e) \<Rightarrow> Inl e
      | (resp, None) \<Rightarrow>
          (case rInfo resp of
             None \<Rightarrow> Inl (missingResponseField op ''info'')
           | Some i \<Rightarrow>
               (case rExitCode resp of
                  None \<Rightarrow> Inl (missingResponseField op ''exit_code'')
                | Some n \<Rightarrow> Inr \<lparr>exInfo = i, exCode = n\<rparr>)))"

definition clientInfo :: "client \<Rightarrow> goerr + Info" where
  "clientInfo c =
     (case requestClient c ''info'' [] of
        (resp, Some e) \<Rightarrow> Inl e
      | (resp, None) \<Rightarrow> (case rInfo resp of None \<Rightarrow> Inl (missingResponseField ''info'' ''info'') | Some i \<Rightarrow> Inr i))"

definition clientWait :: "client \<Rightarrow> goerr + ExitResult" where "clientWait c = exitOperation c ''wait''"
definition clientKill :: "client \<Rightarrow> goerr + ExitResult" where "clientKill c = exitOperation c ''kill''"

definition clientSend :: "client \<Rightarrow> bytes \<Rightarrow> goerr option" where
  "clientSend c input = snd (requestClient c ''send'' input)"

definition clientHistory :: "client \<Rightarrow> goerr + bytes" where
  "clientHistory c =
     (case requestClient c ''history'' [] of (resp, Some e) \<Rightarrow> Inl e | (resp, None) \<Rightarrow> Inr (rHistory resp))"

section \<open>When a request succeeds\<close>

text \<open>
  A request succeeds only if every step of it did: the dial gave a stream, the request was
  written, a reply was decoded and says ok, and closing the stream reported nothing; the result is
  then that reply. In particular a failed close turns a request the daemon has carried out into an
  error.
\<close>

theorem request_succeeds:
  "snd (requestClient c op input) = None \<longleftrightarrow>
     (\<exists>dial conn resp. c = Some dial \<and> dial op input = Inr (Some conn) \<and> encodeResult conn = None \<and>
        decodeResult conn = Inr resp \<and> rOK resp \<and> closeResult conn = None \<and> fst (requestClient c op input) = resp)"
  by (auto simp: requestClient_def exchange_def errorsJoin_def map_filter_simps split: option.split sum.split)

text \<open>The error of a refused request carries the daemon's message.\<close>

lemma request_refused:
  assumes "c = Some dial" "dial op input = Inr (Some conn)" "encodeResult conn = None" "decodeResult conn = Inr resp"
    "\<not> rOK resp"
  shows "\<exists>e. snd (requestClient c op input) = Some e \<and>
    errorsAs (\<lambda>x. case x of Plain (ResponseError _ _) _ \<Rightarrow> True | _ \<Rightarrow> False) e = Some (Plain (ResponseError op (rError resp)) [])"
  using assms by (cases "closeResult conn")
    (simp_all add: requestClient_def exchange_def errorsJoin_def map_filter_simps errorsAs_def)

end
