(* ===== verification/Session_Serve.thy ===== *)
theory Session_Serve
  imports Session_Run Client_Api
begin

text \<open>
  How a daemon serves its socket and ends: the accept loop, one connection, and \<open>run\<close> around
  the critical sections of \<open>Session\<close>, from \<open>daemon/daemon.go\<close>; and the meeting of the
  daemon with the typed client. Waiting for goroutines is not a step: the pumps have stopped when
  \<open>runFinish\<close> is applied. Lemmas: what the daemon answers is what the client's operations
  need, so that each succeeds with the session's own data.
\<close>

section \<open>Connections\<close>

record connCalls =
  ccLine :: "bytes \<times> goerr option"
  ccDecode :: "bytes \<Rightarrow> goerr + request"
  ccEncode :: "goerr option"
  ccClose :: "goerr option"

datatype handled = HandledNothing | HandledAttach | HandledReply response

text \<open>\<open>handle\<close>; \<open>None\<close> while the request waits. An attach request goes on in \<open>Fanout\<close>.\<close>

definition handleConn :: "zstd \<Rightarrow> 'g session \<Rightarrow> int \<Rightarrow> sess_error option \<Rightarrow> connCalls \<Rightarrow>
    'g session \<times> (handled \<times> goerr option) option" where
  "handleConn z s now killErr c =
     (case ccLine c of
        ([], Some e) \<Rightarrow>
          (s, Some (HandledNothing, errorsJoin [if errorsIs e ErrEOF then None else Some e, ccClose c]))
      | (line, _) \<Rightarrow>
          (case ccDecode c line of
             Inl e \<Rightarrow> (s, Some (HandledNothing, errorsJoin [Some e, ccClose c]))
           | Inr req \<Rightarrow>
               if reqOp req = ''attach'' then (s, Some (HandledAttach, None))
               else
                 (case dispatch z s now req killErr of
                    (s, None) \<Rightarrow> (s, None)
                  | (s, Some resp) \<Rightarrow> (s, Some (HandledReply resp, errorsJoin [ccEncode c, ccClose c])))))"

text \<open>The accept loop: how many handlers it started, and its errors.\<close>

record acceptor =
  acConns :: nat
  acceptErr :: "goerr option"
  acHandlerErr :: "goerr option"
  acDone :: bool

definition recordServed :: "acceptor \<Rightarrow> goerr option \<Rightarrow> acceptor" where
  "recordServed a e =
     (case withoutNetErrClosed e of None \<Rightarrow> a | Some x \<Rightarrow> a\<lparr>acHandlerErr := errorsJoin [acHandlerErr a, Some x]\<rparr>)"

text \<open>One round; \<open>Inr\<close> is a connection, with what closing it would give.\<close>

definition acceptRound :: "'g session \<Rightarrow> acceptor \<Rightarrow> goerr + goerr option \<Rightarrow> acceptor" where
  "acceptRound s a r =
     (if acDone a then a
      else case r of
        Inl e \<Rightarrow> (if \<not> closing s then a\<lparr>acceptErr := errorsJoin [acceptErr a, Some e]\<rparr> else a)\<lparr>acDone := True\<rparr>
      | Inr close \<Rightarrow> if closing s then recordServed a close else a\<lparr>acConns := acConns a + 1\<rparr>)"

definition serveConn :: "acceptor \<Rightarrow> goerr option \<Rightarrow> acceptor" where
  "serveConn a e = (recordServed a e)\<lparr>acConns := acConns a - 1\<rparr>"

section \<open>run\<close>

text \<open>The failures before the command runs; the errors are joined in this order.\<close>

definition runListenFailed :: "sess_error \<Rightarrow> sess_error list \<Rightarrow> sess_error list" where
  "runListenFailed e storeClose = e # storeClose"

definition runStartFailed :: "zstd \<Rightarrow> json \<Rightarrow> 'g session \<Rightarrow> int \<Rightarrow> sess_error \<Rightarrow> bytes \<Rightarrow> sess_error list \<Rightarrow> sess_error list \<Rightarrow>
    fsys \<Rightarrow> 'g session \<times> fsys \<times> sess_error list" where
  "runStartFailed z js s now e cause listenerClose storeClose fs =
     (case persistSpawnError z js s now cause fs of
        (s, fs, persistErr) \<Rightarrow>
          (case removeSocket fs (cfgSocketPath (cfg s)) of
             (fs, removeErr) \<Rightarrow>
               (s, fs, [e] @ persistErr @ listenerClose @ map FsFailed (optList removeErr) @ storeClose)))"

text \<open>The command has been reaped: no further connection is served.\<close>

definition runStopAccepting :: "'g session \<Rightarrow> 'g session" where "runStopAccepting s = s\<lparr>closing := True\<rparr>"

text \<open>Both pumps have stopped: the clients are told, the record is stored, the socket removed.\<close>

definition runFinish :: "zstd \<Rightarrow> sorter \<Rightarrow> json \<Rightarrow> (bytes \<Rightarrow> dial) \<Rightarrow> 'g session \<Rightarrow> int \<Rightarrow> fsys \<Rightarrow>
    'g session \<times> fsys \<times> sess_error list \<times> sess_error list" where
  "runFinish z sortDesc js dialUnix s now fs =
     (case persist z sortDesc js dialUnix (endAttachers s) now fs of
        (s, fs, persistErr) \<Rightarrow>
          (case removeSocket fs (cfgSocketPath (cfg s)) of
             (fs, removeErr) \<Rightarrow> (s, fs, persistErr, map FsFailed (optList removeErr))))"

text \<open>The answer of \<open>waitConns\<close>, then the error of \<open>run\<close>, from the state its last locked section sees.\<close>

definition waitConns :: "bool \<Rightarrow> sess_error list" where
  "waitConns connsDone = (if connsDone then [] else [ConnDrainTimeout])"

definition runErrors :: "'g session \<Rightarrow> sess_error list \<Rightarrow> sess_error list \<Rightarrow> sess_error list \<Rightarrow> sess_error list \<Rightarrow>
    sess_error list \<Rightarrow> sess_error list \<Rightarrow> sess_error list \<Rightarrow> sess_error list" where
  "runErrors s listenerClose ptyClose accepted conn persistErr removeErr storeClose =
     listenerClose @ ptyClose @ outputErr s @ inputErr s @ accepted @ handlerErr s @ conn @ persistErr @ removeErr @ storeClose"

section \<open>The daemon and its client\<close>

text \<open>The reply a client decodes from a response; an error is its text.\<close>

definition replyOf :: "(resp_error \<Rightarrow> bytes) \<Rightarrow> response \<Rightarrow> reply" where
  "replyOf errText r =
     \<lparr>rOK = respOK r, rError = (case respError r of None \<Rightarrow> [] | Some e \<Rightarrow> errText e), rInfo = respInfo r,
      rHistory = respHistory r, rExitCode = respExitCode r\<rparr>"

text \<open>A stream to a daemon in state \<open>s\<close> that nothing disturbs.\<close>

definition served :: "zstd \<Rightarrow> (resp_error \<Rightarrow> bytes) \<Rightarrow> 'g session \<Rightarrow> int \<Rightarrow> sess_error option \<Rightarrow> client" where
  "served z errText s now killErr =
     Some (\<lambda>op input. Inr (Some
       \<lparr>encodeResult = None, ctxAtEncode = None,
        decodeResult = (case snd (dispatch z s now \<lparr>reqOp = op, reqInput = input\<rparr> killErr) of
                          None \<Rightarrow> Inl (Sentinel ErrEOF) | Some resp \<Rightarrow> Inr (replyOf errText resp)),
        ctxAtDecode = None, closeResult = None\<rparr>))"

lemma requestClient_served:
  assumes "snd (dispatch z s now \<lparr>reqOp = op, reqInput = input\<rparr> killErr) = Some resp" "respOK resp"
  shows "requestClient (served z errText s now killErr) op input = (replyOf errText resp, None)"
  using assms by (simp add: requestClient_def served_def exchange_def replyOf_def errorsJoin_def map_filter_simps)

text \<open>
  C14. Daemon and client fit together: on an undisturbed stream, info gives the session's metadata,
  wait and kill of a reaped session give its metadata with its exit code, sending succeeds, and
  history gives the scrollback as long as the store has not failed; no operation finds a field of
  the answer missing.
\<close>

theorem client_daemon_agree:
  assumes "waitForExit s = Some code" "\<not> busy (scroll s)" "Snapshot z (scroll s) = (sc, history)" "storeErr sc = []"
  shows "clientInfo (served z errText s now None) = Inr (sessionInfo s now) \<and>
    clientWait (served z errText s now None) = Inr \<lparr>exInfo = sessionInfo s now, exCode = code\<rparr> \<and>
    clientKill (served z errText s now None) = Inr \<lparr>exInfo = sessionInfo s now, exCode = code\<rparr> \<and>
    clientSend (served z errText s now None) input = None \<and>
    clientHistory (served z errText s now None) = Inr history \<and>
    iExitCode (sessionInfo s now) = Some code \<and> \<not> iRunning (sessionInfo s now)"
proof -
  let ?q = "\<lambda>op. \<lparr>reqOp = op, reqInput = []\<rparr>"
  have ok: "respOK okResponse" by (simp add: okResponse_def)
  have e: "exitResponse s now = Some (okResponse\<lparr>respInfo := Some (sessionInfo s now), respExitCode := Some code\<rparr>)"
    using assms(1) by (simp add: exitResponse_def)
  have "snd (dispatch z s now (?q ''info'') None) = Some (okResponse\<lparr>respInfo := Some (sessionInfo s now)\<rparr>)"
    "snd (dispatch z s now (?q ''wait'') None) = exitResponse s now"
    "snd (dispatch z s now (?q ''kill'') None) = exitResponse s now"
    "snd (dispatch z s now \<lparr>reqOp = ''send'', reqInput = input\<rparr> None) = Some okResponse"
    "snd (dispatch z s now (?q ''history'') None) = Some (okResponse\<lparr>respHistory := history\<rparr>)"
    using assms(2-4) by (simp_all add: dispatch_def)
  note d = this [unfolded e]
  note r = requestClient_served [OF d(1), of errText] requestClient_served [OF d(2), of errText]
    requestClient_served [OF d(3), of errText] requestClient_served [OF d(4), of errText] requestClient_served [OF d(5), of errText]
  have "iExitCode (sessionInfo s now) = Some code \<and> \<not> iRunning (sessionInfo s now)"
    using assms(1) by (simp add: sessionInfo_def waitForExit_def split: if_splits)
  then show ?thesis
    using r ok by (simp add: clientInfo_def clientWait_def clientKill_def clientSend_def clientHistory_def exitOperation_def replyOf_def)
qed

definition demoDaemon :: "bytes session" where
  "demoDaemon = demoSession\<lparr>sended := True, exitCode := 7\<rparr>"

definition demoErrText :: "resp_error \<Rightarrow> bytes" where "demoErrText e = str ''error''"

lemma demoDaemon_ended: "waitForExit demoDaemon = Some 7" "\<not> busy (scroll demoDaemon)"
  "Snapshot plainCodec (scroll demoDaemon) = (scroll demoDaemon, [])" "storeErr (scroll demoDaemon) = []"
  by (simp_all add: demoDaemon_def demoSession_def initSession_def newStoreBackend_def sizeOr_def
    waitForExit_def Snapshot_def)

theorem client_daemon_agree_witness:
  "clientInfo (served plainCodec demoErrText demoDaemon 5 None) = Inr (sessionInfo demoDaemon 5) \<and>
    clientWait (served plainCodec demoErrText demoDaemon 5 None) = Inr \<lparr>exInfo = sessionInfo demoDaemon 5, exCode = 7\<rparr> \<and>
    clientKill (served plainCodec demoErrText demoDaemon 5 None) = Inr \<lparr>exInfo = sessionInfo demoDaemon 5, exCode = 7\<rparr> \<and>
    clientSend (served plainCodec demoErrText demoDaemon 5 None) (str ''x'') = None \<and>
    clientHistory (served plainCodec demoErrText demoDaemon 5 None) = Inr [] \<and>
    iExitCode (sessionInfo demoDaemon 5) = Some 7 \<and> \<not> iRunning (sessionInfo demoDaemon 5)"
  by (rule client_daemon_agree [OF demoDaemon_ended])

end
