(* ===== verification/Session_History.thy ===== *)
theory Session_History
  imports Session_Run
begin

text \<open>
  What a run of the daemon leaves in its store and in its exit state. The store sees a run as a
  schedule of its own operations, the output pump goes through its reads in order, and the command
  is reaped once. Lemmas: the store has been given exactly the output the clients were fed, and the
  exit code is that of the command's end.
\<close>

section \<open>The output pump\<close>

text \<open>
  Where \<open>pumpOutputFrom\<close> is: reading, with a read that is stored and to be rendered, with one to be
  answered, or stopped. A step is \<open>None\<close> when the pump cannot take it there.
\<close>

datatype pumpPc = PumpRead | PumpFeed bytes | PumpAnswer bytes | PumpStopped

fun pumpStep :: "pumpPc \<Rightarrow> event \<Rightarrow> pumpPc option" where
  "pumpStep pos (EvStore data) = (if pos = PumpRead then Some (PumpFeed data) else None)"
| "pumpStep pos (EvFeed data) = (if pos = PumpFeed data then Some (PumpAnswer data) else None)"
| "pumpStep pos (EvAnswer data) = (if pos = PumpAnswer data then Some PumpRead else None)"
| "pumpStep pos (EvEnd e) = (if pos = PumpRead then Some PumpStopped else None)"
| "pumpStep pos ev = Some pos"

fun pumpRun :: "pumpPc \<Rightarrow> event list \<Rightarrow> pumpPc option" where
  "pumpRun pos [] = Some pos"
| "pumpRun pos (ev # evs) = Option.bind (pumpStep pos ev) (\<lambda>pos. pumpRun pos evs)"

fun outputStored :: "event \<Rightarrow> bytes" where
  "outputStored (EvStore data) = data"
| "outputStored ev = []"

text \<open>What is stored and not yet rendered.\<close>

fun unfed :: "pumpPc \<Rightarrow> bytes" where
  "unfed (PumpFeed data) = data"
| "unfed pos = []"

lemma pumpStep_output: "pumpStep pos ev = Some pos' \<Longrightarrow> unfed pos @ outputStored ev = outputFed ev @ unfed pos'"
  by (cases ev; cases pos) (auto split: if_splits)

lemma pumpRun_output:
  "pumpRun pos evs = Some pos' \<Longrightarrow>
    unfed pos @ concat (map outputStored evs) = concat (map outputFed evs) @ unfed pos'"
proof (induction evs arbitrary: pos)
  case (Cons ev evs)
  then obtain pos1 where 1: "pumpStep pos ev = Some pos1" "pumpRun pos1 evs = Some pos'"
    by (auto simp: bind_eq_Some_conv)
  have "unfed pos @ outputStored ev @ concat (map outputStored evs) = outputFed ev @ unfed pos1 @ concat (map outputStored evs)"
    using pumpStep_output [OF 1(1)] by (metis append_assoc)
  then show ?case using Cons.IH [OF 1(2)] by simp
qed simp

section \<open>What a step leaves alone\<close>

definition ledger :: "'g session \<Rightarrow> sessionConfig \<times> store \<times> bool \<times> int \<times> int" where
  "ledger s = (cfg s, scroll s, sended s, exitCode s, endedAt s)"

lemma ledger_setAttacher [simp]: "ledger (setAttacher s i f) = ledger s"
  by (simp add: ledger_def setAttacher_def)

lemma ledger_resize: "resizeSession G setsize s c w = (s', e) \<Longrightarrow> ledger s' = ledger s"
  by (auto simp: ledger_def resizeSession_def Let_def split: option.splits sum.splits if_splits)

lemma ledger_applyMinSize: "applyMinSize G setsize s = (s', e) \<Longrightarrow> ledger s' = ledger s"
  using ledger_resize by (fastforce simp: applyMinSize_def split: prod.splits if_splits)

lemma ledger_attachResize: "attachResize G setsize s i rp = (s', e) \<Longrightarrow> ledger s' = ledger s"
  using ledger_applyMinSize by (fastforce simp: attachResize_def split: if_splits)

lemma ledger_queueInput [simp]: "ledger (queueInput s p) = ledger s"
  by (simp add: ledger_def queueInput_def)

lemma ledger_clientFrame: "clientFrame G setsize s i r = (s', e, b) \<Longrightarrow> ledger s' = ledger s"
  by (auto simp: clientFrame_def attachInput_def split: if_splits option.splits prod.splits dest!: ledger_attachResize)

lemma ledger_leave: "leaveFanout G setsize s i = (s', e) \<Longrightarrow> ledger s' = ledger s"
  by (auto simp: leaveFanout_def Let_def split: prod.splits dest!: ledger_applyMinSize) (simp_all add: ledger_def)

lemma ledger_join: "joinFanout G s i = (s', e) \<Longrightarrow> ledger s' = ledger s"
  by (auto simp: joinFanout_def ledger_def split: prod.splits sum.splits)

lemma ledger_deliver [simp]: "ledger (deliverOutput G s i p) = ledger s"
  by (simp add: ledger_def deliverOutput_def recordHandlerError_def setAttacher_def split: option.split prod.split sum.split)

lemma ledger_fanout [simp]: "ledger (fanout G s p) = ledger s"
proof -
  have "ledger (foldl (\<lambda>s i. deliverOutput G s i p) s is) = ledger s" for "is"
    by (induction "is" arbitrary: s) simp_all
  then show ?thesis by (simp add: fanout_def)
qed

lemma ledger_cong: "cfg s = cfg t \<Longrightarrow> scroll s = scroll t \<Longrightarrow> sended s = sended t \<Longrightarrow> exitCode s = exitCode t \<Longrightarrow> endedAt s = endedAt t \<Longrightarrow> ledger s = ledger t"
  by (simp add: ledger_def)

lemma ledger_feed [simp]: "ledger (feedTerm G s data flush) = ledger s"
proof -
  have f: "cfg (fanout G u p) = cfg u" "sended (fanout G u p) = sended u" "exitCode (fanout G u p) = exitCode u"
    "scroll (fanout G u p) = scroll u" "endedAt (fanout G u p) = endedAt u" for u p
    using ledger_fanout [of G u p] by (simp_all add: ledger_def)
  show ?thesis by (rule ledger_cong) (simp_all add: feedTerm_def Let_def f)
qed

text \<open>The store sees a step as at most one of its own operations.\<close>

fun storeActions :: "event \<Rightarrow> action list" where
  "storeActions (EvStore data) = [AWrite data]"
| "storeActions EvDrain = [ADrain]"
| "storeActions (EvRequest now req ke) = (if reqOp req = ''history'' then [ASnapshot] else [])"
| "storeActions ev = []"

lemma written_stored: "written (concat (map storeActions evs)) = concat (map outputStored evs)"
proof (induction evs)
  case (Cons ev evs)
  then show ?case by (cases ev) simp_all
qed simp

definition reaping :: "event \<Rightarrow> bool" where
  "reaping ev \<longleftrightarrow> (case ev of EvReap r t \<Rightarrow> True | _ \<Rightarrow> False)"

definition stepLedger :: "zstd \<Rightarrow> 'g session \<Rightarrow> event \<Rightarrow> 'g session \<Rightarrow> bool" where
  "stepLedger z s ev s' \<longleftrightarrow> cfg s' = cfg s \<and> scroll s' = Store.run z (scroll s) (storeActions ev) \<and>
     (\<not> reaping ev \<longrightarrow> sended s' = sended s \<and> exitCode s' = exitCode s \<and> endedAt s' = endedAt s)"

lemma stepLedger_same: "ledger s' = ledger s \<Longrightarrow> storeActions ev = [] \<Longrightarrow> stepLedger z s ev s'"
  by (simp add: stepLedger_def ledger_def Store.run_def)

lemma dispatch_ledger: "stepLedger z s (EvRequest now req ke) (fst (dispatch z s now req ke))"
  by (auto simp: stepLedger_def dispatch_def Store.run_def act_def queueInput_def split: option.split prod.split)

lemma step_ledger: "stepLedger z s ev (daemonStep z G s ev)"
proof (cases ev)
  case (EvStore data)
  then show ?thesis by (simp add: stepLedger_def pumpStore_def Store.run_def act_def)
next
  case EvDrain
  then show ?thesis by (simp add: stepLedger_def Store.run_def act_def)
next
  case (EvRequest now req ke)
  then show ?thesis using dispatch_ledger by simp
next
  case (EvReap r t)
  then show ?thesis by (simp add: stepLedger_def reap_def reaping_def Store.run_def)
next
  case (EvFeed data)
  then show ?thesis by (simp add: stepLedger_same)
next
  case (EvAnswer data)
  then have "ledger (daemonStep z G s ev) = ledger s" by (simp add: pumpAnswer_def Let_def)
  then show ?thesis using EvAnswer by (simp add: stepLedger_same)
next
  case (EvEnd e)
  have "cfg (feedTerm G s [] True) = cfg s" "scroll (feedTerm G s [] True) = scroll s"
    "sended (feedTerm G s [] True) = sended s" "exitCode (feedTerm G s [] True) = exitCode s"
    "endedAt (feedTerm G s [] True) = endedAt s"
    using ledger_feed [of G s "[]" True] by (simp_all add: ledger_def)
  then have "ledger (daemonStep z G s ev) = ledger s"
    using EvEnd by (cases e) (simp_all add: pumpEnd_def Let_def ledger_def)
  then show ?thesis using EvEnd by (simp add: stepLedger_same)
next
  case (EvJoin i)
  moreover have "ledger (daemonStep z G s ev) = ledger s" using EvJoin ledger_join [OF surjective_pairing] by simp
  ultimately show ?thesis by (simp add: stepLedger_same del: daemonStep.simps)
next
  case (EvAskSize i)
  moreover have "ledger (requestSize s i) = ledger s"
    by (simp add: requestSize_def enqueueFrame_def ledger_def setAttacher_def Let_def split: option.split)
  ultimately show ?thesis by (simp add: stepLedger_same)
next
  case (EvFrame i r se)
  moreover have "ledger (daemonStep z G s ev) = ledger s"
    using EvFrame ledger_clientFrame [of G "\<lambda>c w. se" s i r] by (cases "clientFrame G (\<lambda>c w. se) s i r") simp
  ultimately show ?thesis by (simp add: stepLedger_same del: daemonStep.simps)
next
  case (EvLeave i se)
  moreover have "ledger (daemonStep z G s ev) = ledger s" using EvLeave ledger_leave [OF surjective_pairing] by simp
  ultimately show ?thesis by (simp add: stepLedger_same del: daemonStep.simps)
next
  case (EvWriter i ok)
  moreover have "ledger (stepWriter s i ok) = ledger s"
    by (simp add: stepWriter_def ledger_def setAttacher_def Let_def split: option.split)
  ultimately show ?thesis by (simp add: stepLedger_same)
next
  case (EvKill k g)
  then show ?thesis by (simp add: stepLedger_same ledger_def)
next
  case EvTake
  have "ledger (pumpTake s) = ledger s" by (simp add: pumpTake_def ledger_def split: inputPc.split)
  then show ?thesis using EvTake by (simp add: stepLedger_same)
next
  case (EvWrote n e)
  have "ledger (pumpWrote s n e) = ledger s"
    by (simp add: pumpWrote_def ledger_def Let_def split: inputPc.split option.split write_error.split)
  then show ?thesis using EvWrote by (simp add: stepLedger_same)
next
  case EvClosing
  then show ?thesis by (simp add: stepLedger_same ledger_def)
next
  case EvEndAttachers
  then show ?thesis by (simp add: stepLedger_same ledger_def endAttachers_def)
qed

section \<open>What a run leaves\<close>

lemma daemonRun_ledger:
  "cfg (daemonRun z G s evs) = cfg s \<and> scroll (daemonRun z G s evs) = Store.run z (scroll s) (concat (map storeActions evs))"
proof (induction evs arbitrary: s)
  case (Cons ev evs)
  note st = step_ledger [of z s ev G, unfolded stepLedger_def]
  show ?case using st Cons.IH [of "daemonStep z G s ev"] by (simp add: Store.run_def)
qed (simp add: Store.run_def)

text \<open>The command is reaped once: from then on its end stays.\<close>

lemma reaped_stays:
  "legal z G s evs \<Longrightarrow> sended s \<Longrightarrow> sended (daemonRun z G s evs) \<and> exitCode (daemonRun z G s evs) = exitCode s \<and>
    endedAt (daemonRun z G s evs) = endedAt s"
proof (induction evs arbitrary: s)
  case (Cons ev evs)
  then have "\<not> reaping ev" by (auto simp: reaping_def split: event.splits)
  then have "sended (daemonStep z G s ev)" "exitCode (daemonStep z G s ev) = exitCode s"
    "endedAt (daemonStep z G s ev) = endedAt s"
    using step_ledger [of z s ev G] Cons.prems(2) by (simp_all add: stepLedger_def)
  then show ?case using Cons.IH [of "daemonStep z G s ev"] Cons.prems(1) by simp
qed simp

lemma daemonRun_exit:
  "legal z G s evs \<Longrightarrow> \<not> sended s \<Longrightarrow> sended (daemonRun z G s evs) \<Longrightarrow>
    \<exists>r t. EvReap r t \<in> set evs \<and> exitCode (daemonRun z G s evs) = conventionalExitCode r \<and>
      endedAt (daemonRun z G s evs) = t"
proof (induction evs arbitrary: s)
  case (Cons ev evs)
  show ?case
  proof (cases "reaping ev")
    case True
    then obtain r t where ev: "ev = EvReap r t" by (auto simp: reaping_def split: event.splits)
    have "exitCode (daemonRun z G (daemonStep z G s ev) evs) = exitCode (daemonStep z G s ev)"
      "endedAt (daemonRun z G (daemonStep z G s ev) evs) = endedAt (daemonStep z G s ev)"
      using reaped_stays [of z G "daemonStep z G s ev" evs] Cons.prems(1) by (simp_all add: ev reap_def)
    then show ?thesis by (auto simp: ev reap_def)
  next
    case False
    then have "\<not> sended (daemonStep z G s ev)" using step_ledger [of z s ev G] Cons.prems(2) by (simp add: stepLedger_def)
    then show ?thesis using Cons.IH [of "daemonStep z G s ev"] Cons.prems by auto
  qed
qed simp

text \<open>A pump that has stopped has rendered all it stored, so the scrollback is of what clients saw.\<close>

lemma written_fed: "pumpRun PumpRead evs = Some PumpStopped \<Longrightarrow> written (concat (map storeActions evs)) = concat (map outputFed evs)"
  using pumpRun_output [of PumpRead evs PumpStopped] by (simp add: written_stored)

text \<open>A snapshot of the idle store a run leaves: all that was fed, with at most its middle cut out.\<close>

definition cutMiddle :: "bytes \<Rightarrow> bytes \<Rightarrow> bool" where
  "cutMiddle w out \<longleftrightarrow> (\<exists>head mid tail. w = head @ mid @ tail \<and>
     out = (if mid = [] then head else appendTruncation head (length mid)) @ tail)"

lemma daemonRun_snapshot:
  assumes "lossless z" "newSession newDisk G c = Inr s0" "startSession ps env t s0 = Inr s1" "s = daemonRun z G s1 evs"
    and "pumpRun PumpRead evs = Some PumpStopped" "\<not> busy (scroll s)" "Snapshot z (scroll s) = (sc, out)" "storeErr sc = []"
  shows "cutMiddle (concat (map outputFed evs)) out \<and> totalBytes (scroll s) = length (concat (map outputFed evs))"
proof -
  obtain h' t' c' f' b' where s0: "scroll s0 = newStoreBackend h' t' c' f' b'"
    using assms(2) by (auto simp: newSession_def New_def initSession_def split: sum.splits)
  moreover have "scroll s1 = scroll s0" using assms(3) by (auto simp: startSession_def split: if_splits sum.splits)
  ultimately have "scroll s = Store.run z (newStoreBackend h' t' c' f' b') (concat (map storeActions evs))"
    using daemonRun_ledger [of z G s1 evs] assms(4) by simp
  then have inv: "store_inv z (scroll s) (concat (map outputFed evs))"
    using run_inv_init [OF assms(1)] written_fed [OF assms(5)] by metis
  obtain hd m d where "concat (map outputFed evs) = hd @ m @ d" "out = (if m = [] then hd else appendTruncation hd (length m)) @ d"
    using Snapshot_split [OF assms(1) inv assms(6-8)] by metis
  moreover have "totalBytes (scroll s) = length (concat (map outputFed evs))"
    using inv content_okD(2) by (auto simp: store_inv_def)
  ultimately show ?thesis unfolding cutMiddle_def by blast
qed

end
