(* ===== verification/Session_Ops.thy ===== *)
theory Session_Ops
  imports Session_Run
begin

text \<open>
  Single operations of the session: the PTY takes the smallest reported size, the command gets
  the overrides of its environment, and what \<open>persist\<close> and \<open>writeRecord\<close> leave on disk.
\<close>

section \<open>The size of the terminal\<close>

definition sized :: "(nat \<times> attacher) list \<Rightarrow> (nat \<times> attacher) list" where
  "sized as = filter (\<lambda>(i, a). acols a \<noteq> 0 \<and> arows a \<noteq> 0) as"

definition smallest :: "(attacher \<Rightarrow> 16 word) \<Rightarrow> (nat \<times> attacher) list \<Rightarrow> 16 word \<Rightarrow> bool" where
  "smallest f as w \<longleftrightarrow> (\<exists>(i, a)\<in>set as. f a = w) \<and> (\<forall>(i, a)\<in>set as. w \<le> f a)"

lemma minSizeLoop_some:
  assumes "minSizeLoop as (c, r, True) = (c', r', b)"
  shows "b \<and> c' \<le> c \<and> r' \<le> r \<and> (c' = c \<or> (\<exists>(i, a)\<in>set (sized as). acols a = c')) \<and>
    (r' = r \<or> (\<exists>(i, a)\<in>set (sized as). arows a = r')) \<and>
    (\<forall>(i, a)\<in>set (sized as). c' \<le> acols a \<and> r' \<le> arows a)"
  using assms
proof (induction as arbitrary: c r)
  case (Cons p as)
  obtain i a where p: "p = (i, a)" by fastforce
  show ?case
  proof (cases "acols a = 0 \<or> arows a = 0")
    case True
    then show ?thesis using Cons.IH [of c r] Cons.prems p by (auto simp: sized_def)
  next
    case False
    let ?c = "if acols a < c then acols a else c" and ?r = "if arows a < r then arows a else r"
    have m: "minSizeLoop as (?c, ?r, True) = (c', r', b)" using Cons.prems False p by simp
    have h: "?c \<le> c" "?c \<le> acols a" "?r \<le> r" "?r \<le> arows a" "?c = c \<or> ?c = acols a" "?r = r \<or> ?r = arows a"
      by auto
    have s: "set (sized (p # as)) = insert (i, a) (set (sized as))" using False p by (simp add: sized_def)
    show ?thesis using Cons.IH [OF m] h unfolding s by (smt (verit) case_prodI insertCI insertE case_prod_conv order_trans)
  qed
qed (simp add: sized_def)


lemma minSizeLoop_none:
  "minSizeLoop as (0, 0, False) = (c, r, b) \<Longrightarrow>
    (if b then smallest acols (sized as) c \<and> smallest arows (sized as) r else sized as = [])"
proof (induction as)
  case (Cons p as)
  obtain i a where p: "p = (i, a)" by fastforce
  show ?case
  proof (cases "acols a = 0 \<or> arows a = 0")
    case True
    then show ?thesis using Cons p by (auto simp: sized_def split: if_splits)
  next
    case False
    then have s: "sized (p # as) = (i, a) # sized as" using p by (simp add: sized_def)
    have "minSizeLoop as (acols a, arows a, True) = (c, r, b)" using Cons.prems False p by simp
    from minSizeLoop_some [OF this] show ?thesis unfolding s smallest_def by auto
  qed
qed (simp add: sized_def)


definition twoClients :: "bytes session" where
  "twoClients = demoSession\<lparr>started := True,
     attachers := [(0, newAttacher []), (1, (newAttacher [])\<lparr>acols := 100, arows := 30\<rparr>)]\<rparr>"


section \<open>The environment of the command\<close>

text \<open>What the command sees of a name: as with \<open>exec.Cmd\<close>, its last entry.\<close>

fun envGet :: "bytes list \<Rightarrow> bytes \<Rightarrow> bytes option" where
  "envGet [] n = None"
| "envGet (e # es) n =
     (case envGet es n of
        Some v \<Rightarrow> Some v
      | None \<Rightarrow> if entryName e = Some n then Some (drop (Suc (length n)) e) else None)"

text \<open>The map has the place of the last entry of each name.\<close>

definition indexed :: "(bytes \<rightharpoonup> nat) \<Rightarrow> bytes list \<Rightarrow> bool" where
  "indexed index env \<longleftrightarrow>
     (\<forall>n i. index n = Some i \<longrightarrow> i < length env \<and> entryName (env ! i) = Some n) \<and>
     (\<forall>j n. j < length env \<longrightarrow> entryName (env ! j) = Some n \<longrightarrow> (\<exists>i. index n = Some i \<and> j \<le> i))"

lemma envGet_append:
  "envGet (xs @ ys) n = (case envGet ys n of Some v \<Rightarrow> Some v | None \<Rightarrow> envGet xs n)"
  by (induction xs) (auto split: option.splits)

lemma envGet_none: "envGet es n = None \<longleftrightarrow> (\<forall>e\<in>set es. entryName e \<noteq> Some n)"
  by (induction es) (auto split: option.splits)

lemma envGet_indexed:
  assumes "indexed index env"
  shows "envGet env n = map_option (\<lambda>i. drop (Suc (length n)) (env ! i)) (index n)"
proof (cases "index n")
  case None
  then have "\<forall>e\<in>set env. entryName e \<noteq> Some n"
    using assms unfolding indexed_def by (metis in_set_conv_nth option.distinct(1))
  then show ?thesis using None by (simp add: envGet_none)
next
  case (Some i)
  then have i: "i < length env" "entryName (env ! i) = Some n" using assms by (auto simp: indexed_def)
  have "entryName (env ! j) \<noteq> Some n" if "i < j" "j < length env" for j
    using assms Some that unfolding indexed_def by (metis leD option.inject)
  then have "envGet (drop (Suc i) env) n = None"
    by (auto simp: envGet_none in_set_conv_nth)
  moreover have "env = take i env @ env ! i # drop (Suc i) env" using i(1) by (rule id_take_nth_drop)
  ultimately have "envGet env n = Some (drop (Suc (length n)) (env ! i))"
    using i(2) envGet_append [of "take i env" "env ! i # drop (Suc i) env" n] by simp
  then show ?thesis using Some by simp
qed

lemma envIndex_indexed:
  "indexed index front \<Longrightarrow> indexed (envIndex es (length front) index) (front @ es)"
proof (induction es arbitrary: index front)
  case (Cons e es)
  have "indexed (case entryName e of None \<Rightarrow> index | Some n \<Rightarrow> index(n \<mapsto> length front)) (front @ [e])"
  proof (cases "entryName e")
    case None
    then show ?thesis using Cons.prems by (fastforce simp: indexed_def nth_append less_Suc_eq)
  next
    case (Some m)
    then show ?thesis using Cons.prems
      by (auto simp: indexed_def nth_append less_Suc_eq less_imp_le split: if_splits)
  qed
  from Cons.IH [OF this] show ?case by (cases "entryName e") (simp_all del: fun_upd_apply)
qed simp

lemma IndexByte_first: "c \<notin> set n \<Longrightarrow> IndexByte (n @ c # v) c = Some (length n)"
  by (induction n) auto

lemma entryName_entry: "equalsSign \<notin> set n \<Longrightarrow> entryName (n @ equalsSign # v) = Some n"
  by (simp add: entryName_def IndexByte_first)

lemma override_indexed:
  assumes "indexed index env" "equalsSign \<notin> set n" "index n = Some i"
  shows "indexed index (env[i := n @ equalsSign # v])"
proof -
  let ?e = "n @ equalsSign # v"
  have e: "entryName ?e = Some n" by (rule entryName_entry [OF assms(2)])
  have i: "i < length env" "entryName (env ! i) = Some n" using assms(1,3) by (simp_all add: indexed_def)
  then have same: "entryName (env[i := ?e] ! j) = entryName (env ! j)" if "j < length env" for j
    using e that by (cases "j = i") simp_all
  show ?thesis using assms(1) unfolding indexed_def length_list_update using same by metis
qed

lemma add_indexed:
  assumes "indexed index env" "equalsSign \<notin> set n" "index n = None"
  shows "indexed (index(n \<mapsto> length env)) (env @ [n @ equalsSign # v])"
  using assms entryName_entry [OF assms(2)]
  by (auto simp: indexed_def nth_append less_Suc_eq less_imp_le split: if_splits)

lemma envOverride_get:
  "indexed index env \<Longrightarrow> \<forall>(m, v)\<in>set ovs. equalsSign \<notin> set m \<Longrightarrow> distinct (map fst ovs) \<Longrightarrow>
    envGet (envOverride ovs index env) n = (case map_of ovs n of Some v \<Rightarrow> Some v | None \<Rightarrow> envGet env n)"
proof (induction index env rule: envOverride.induct)
  case (2 m v ovs index env)
  have m: "equalsSign \<notin> set m" using "2.prems" by simp
  have out: "map_of ovs m = None" using "2.prems" by (auto simp: map_of_eq_None_iff)
  show ?case
  proof (cases "index m")
    case None
    note i = add_indexed [OF "2.prems"(1) m None, of v]
    have "envGet (env @ [m @ equalsSign # v]) n = (if n = m then Some v else envGet env n)"
      using entryName_entry [OF m, of v] by (auto simp: envGet_append split: option.split)
    moreover have "envGet (envOverride ovs (index(m \<mapsto> length env)) (env @ [m @ equalsSign # v])) n =
        (case map_of ovs n of Some v \<Rightarrow> Some v | None \<Rightarrow> envGet (env @ [m @ equalsSign # v]) n)"
      using "2.IH"(1) [OF refl None i] "2.prems" by (simp del: fun_upd_apply)
    ultimately show ?thesis using None out by (cases "n = m") (auto split: option.split)
  next
    case (Some j)
    note i = override_indexed [OF "2.prems"(1) m Some, of v]
    have j: "j < length env" "index n = Some j \<Longrightarrow> n = m"
      using Some "2.prems"(1) unfolding indexed_def by (metis option.inject)+
    have "envGet (env[j := m @ equalsSign # v]) n = (if n = m then Some v else envGet env n)"
      using j Some by (cases "index n") (auto simp: envGet_indexed [OF i] envGet_indexed [OF "2.prems"(1)] nth_list_update)
    then show ?thesis using "2.IH"(2) [OF refl Some i] "2.prems" Some out by (auto split: option.split)
  qed
qed simp

text \<open>
  The command sees each override of the configuration, whatever order the map of overrides is
  walked in, and the daemon's own environment for every other name; an environment that repeats a
  name is handled like \<open>exec.Cmd\<close> handles it (the last entry counts).
\<close>

theorem environmentWithOverrides_get:
  assumes "distinct (map fst overrides)" "\<forall>(m, v)\<in>set overrides. equalsSign \<notin> set m"
  shows "envGet (environmentWithOverrides environ overrides) n =
    (case map_of overrides n of Some v \<Rightarrow> Some v | None \<Rightarrow> envGet environ n)"
proof -
  have "indexed (envIndex environ 0 Map.empty) environ"
    using envIndex_indexed [of Map.empty "[]" environ] by (simp add: indexed_def)
  then show ?thesis unfolding environmentWithOverrides_def by (rule envOverride_get [OF _ assms(2,1)])
qed

theorem environmentWithOverrides_get_witness:
  "envGet (environmentWithOverrides [str ''A=1'', str ''A=2'', str ''junk''] [(str ''B'', str ''x''), (str ''A'', str ''3'')])
     (str ''A'') = Some (str ''3'')"
proof -
  have "distinct (map fst [(str ''B'', str ''x''), (str ''A'', str ''3'')])"
    "\<forall>(m, v)\<in>set [(str ''B'', str ''x''), (str ''A'', str ''3'')]. equalsSign \<notin> set m"
    "map_of [(str ''B'', str ''x''), (str ''A'', str ''3'')] (str ''A'') = Some (str ''3'')"
    by code_simp+
  then show ?thesis using environmentWithOverrides_get by (metis (no_types, lifting) option.simps(5))
qed


section \<open>What is kept of an ended session\<close>

text \<open>A JSON codec that keeps the end of a session, which is all \<open>pruneRetention\<close> reads.\<close>

definition endJson :: json where
  "endJson = \<lparr>marshalInfo = (\<lambda>i. Inr [word_of_int (case iEndedAt i of Some t \<Rightarrow> t | None \<Rightarrow> 0)]),
     unmarshalInfo = (\<lambda>d. case d of [b] \<Rightarrow>
        Some \<lparr>iID = [], iRunning = False, iPid = 0, iCommand = [], iMetadata = [], iStartedAt = 0,
          iEndedAt = Some (uint b), iDurationMS = 0, iOutputBytes = 0, iExitCode = None, iKilled = False,
          iError = []\<rparr>
      | _ \<Rightarrow> None)\<rparr>"

text \<open>Another session ended later and has stored its record first.\<close>

definition otherRecord :: fsys where
  "otherRecord = \<lparr>fsFiles = [(str ''/s/_global/b.json'', ([9], 9))],
     fsDirs = [str ''/s/_global'', str ''/s'', str ''/r''], fsFaults = [], fsNow = 10\<rparr>"

definition endedSession :: "bytes session" where
  "endedSession = demoSession\<lparr>started := True, sended := True, endedAt := 5, closing := True, outDone := True\<rparr>"



definition bothRecords :: fsys where
  "bothRecords = otherRecord\<lparr>fsFiles :=
     (str ''/s/_global/a.json'', ([5], 10)) # (str ''/s/_global/a.history'', ([], 10)) # fsFiles otherRecord\<rparr>"

lemma demo_paths:
  "RecordPath (str ''/s'') (str ''a'') = str ''/s/_global/a.json''"
  "HistoryPath (str ''/s'') (str ''a'') = str ''/s/_global/a.history''"
  "namespaceDir (str ''/s'') (str ''a'') = str ''/s/_global''"
  "dirName (str ''/r/a.sock'') = str ''/r''"
  by code_simp+

lemma other_paths:
  "str ''/s/_global/b.json'' \<noteq> str ''/s/_global/a.json''" "str ''/s/_global/b.json'' \<noteq> str ''/s/_global/a.history''"
  "str ''/s/_global/a.history'' \<noteq> str ''/s/_global/a.json''"
  "List.insert (str ''/s/_global'') [str ''/s/_global'', str ''/s'', str ''/r''] = [str ''/s/_global'', str ''/s'', str ''/r'']"
  by code_simp+

lemma both_active: "activeNamespaceSessions (\<lambda>p. DialRefused) bothRecords (str ''/r'') (str ''a'') = (bothRecords, (0, []))"
  by code_simp

lemma both_prune:
  "case pruneRetention sortNewest endJson bothRecords (str ''/s'') (str ''a'') 1 of
     (fs, es) \<Rightarrow> es = [] \<and> map fst (fsFiles fs) = [str ''/s/_global/b.json'']"
  by code_simp

lemma demo_cfg:
  "cfgRetentionDir demoConfig = str ''/s''" "cfgID demoConfig = str ''a''" "cfgRetentionCount demoConfig = 1"
  "cfgSocketPath demoConfig = str ''/r/a.sock''" "str ''/s'' \<noteq> []"
  by (simp_all add: demoConfig_def)

lemma both_written:
  "iID i = str ''a'' \<Longrightarrow> iEndedAt i = Some 5 \<Longrightarrow> writeRecord endJson otherRecord (str ''/s'') i [] = (bothRecords, None)"
  using other_paths
  by (simp add: writeRecord_def demo_paths endJson_def fsMkdirAll_def fsFault_def otherRecord_def fsWriteFile_def
      fsStore_def bothRecords_def del: str_Cons)

text \<open>
  The record of the session that has just ended is not always kept: when another session of
  the namespace has ended later but was faster to store its record, and one record may be kept,
  \<open>persist\<close> succeeds and has removed the very record it has written (and the history).
\<close>
theorem persist_drops_own_record:
  "\<exists>s fs. persist plainCodec sortNewest endJson (\<lambda>p. DialRefused) endedSession 12 otherRecord = (s, fs, []) \<and>
     map fst (fsFiles fs) = [str ''/s/_global/b.json'']"
proof -
  obtain fs where p: "pruneRetention sortNewest endJson bothRecords (str ''/s'') (str ''a'') 1 = (fs, [])"
      "map fst (fsFiles fs) = [str ''/s/_global/b.json'']"
    using both_prune by (auto split: prod.splits)
  obtain so where sn: "Snapshot plainCodec (newStoreBackend 2 2 2 9 Memory) = (so, [])" "storeErr so = []"
  proof -
    have "snd (Snapshot plainCodec (newStoreBackend 2 2 2 9 Memory)) = []" "storeErr (fst (Snapshot plainCodec (newStoreBackend 2 2 2 9 Memory))) = []"
      by code_simp+
    then show thesis using that by (metis prod.collapse)
  qed
  have f: "cfg endedSession = demoConfig" "scroll endedSession = newStoreBackend 2 2 2 9 Memory"
    by (simp_all add: endedSession_def demoSession_def initSession_def)
  have "iID (sessionInfo (endedSession\<lparr>scroll := so\<rparr>) 12) = str ''a''"
      "iEndedAt (sessionInfo (endedSession\<lparr>scroll := so\<rparr>) 12) = Some 5"
    by (simp_all add: sessionInfo_def endedSession_def demoSession_def initSession_def demoConfig_def del: str_Cons)
  from both_written [OF this]
  have "persist plainCodec sortNewest endJson (\<lambda>p. DialRefused) endedSession 12 otherRecord =
      (endedSession\<lparr>scroll := so\<rparr>, fs, [])"
    by (simp add: persist_def Let_def f sn demo_paths both_active p demo_cfg del: str_Cons)
  then show ?thesis using p(2) by (intro exI conjI)
qed

lemma map_of_filter_other: "p \<noteq> q \<Longrightarrow> map_of (filter (\<lambda>(k, v). k \<noteq> p) xs) q = map_of xs q"
  by (induction xs) auto

text \<open>
  C15. A stored record never refers to a history that was not stored: whatever fails, a file system
  in which \<open>writeRecord\<close> has changed the record file has the whole history in the history
  file, because the history is written first.
\<close>

theorem writeRecord_history_first:
  assumes "writeRecord js fs rdir i h = (fs', e)"
    "map_of (fsFiles fs') (RecordPath rdir (iID i)) \<noteq> map_of (fsFiles fs) (RecordPath rdir (iID i))"
  shows "\<exists>t. map_of (fsFiles fs') (HistoryPath rdir (iID i)) = Some (h, t)"
proof -
  let ?r = "RecordPath rdir (iID i)" and ?h = "HistoryPath rdir (iID i)"
  have ne: "?h \<noteq> ?r"
  proof
    assume "?h = ?r"
    then have "last (splitSlash ?h) = last (splitSlash ?r)" by simp
    then have "last (encodeName (iID i) @ str ''.history'') = last (encodeName (iID i) @ str ''.json'')"
      unfolding last_RecordPath last_HistoryPath by simp
    then show False by (simp add: last_append)
  qed
  have at: "map_of (fsFiles (fsStore f p d)) q = (if q = p then Some (d, fsNow f) else map_of (fsFiles f) q)" for f p d q
    by (auto simp: fsStore_def map_of_filter_other)
  have fa: "fsFault f = (g, x) \<Longrightarrow> fsFiles g = fsFiles f" for f g x by (auto simp: fsFault_def split: list.splits)
  show ?thesis using assms ne
    by (auto simp: writeRecord_def fsMkdirAll_def fsWriteFile_def Let_def at dest!: fa split: prod.splits option.splits sum.splits)
qed


theorem writeRecord_history_first_witness:
  "\<exists>t. map_of (fsFiles bothRecords) (HistoryPath (str ''/s'') (str ''a'')) = Some ([], t)"
proof -
  define i where "i = sessionInfo endedSession 12"
  have i: "iID i = str ''a''" "iEndedAt i = Some 5"
    by (simp_all add: i_def sessionInfo_def endedSession_def demoSession_def initSession_def demo_cfg del: str_Cons)
  have "map_of (fsFiles bothRecords) (RecordPath (str ''/s'') (iID i)) \<noteq> None"
    "map_of (fsFiles otherRecord) (RecordPath (str ''/s'') (iID i)) = None"
    using other_paths by (simp_all add: bothRecords_def otherRecord_def i demo_paths del: str_Cons)
  then show ?thesis using writeRecord_history_first [OF both_written [OF i]] unfolding i(1) by metis
qed

end
