(* ===== verification/Sessions.thy ===== *)
theory Sessions
  imports Client_Api Retention "HOL-Library.AList"
begin

text \<open>
  \<open>sessions.go\<close> and the lookups of \<open>client.go\<close>: live sessions by asking every socket,
  ended ones by reading every record, their merge, and the metadata filter. The directories are
  arguments; \<open>network\<close> is what dialling a socket path gives. \<open>sort.Slice\<close> and the order in
  which Go walks a map are arguments too, known by the locale \<open>go_order\<close>. Lemmas: what a
  listing contains, in which order, and what a filter matches.
\<close>

section \<open>Asking a socket, reading a record\<close>

type_synonym network = "bytes \<Rightarrow> goerr + clientConn"

definition socketPath :: "bytes \<Rightarrow> bytes \<Rightarrow> bytes" where
  "socketPath sdir i = Join sdir (QueryEscape i @ str ''.sock'')"

definition dialRequest :: "network \<Rightarrow> bytes \<Rightarrow> bytes \<Rightarrow> reply \<times> goerr option" where
  "dialRequest net sdir i =
     (case net (socketPath sdir i) of
        Inl e \<Rightarrow> (emptyReply, Some e)
      | Inr conn \<Rightarrow>
          (case encodeResult conn of
             Some e \<Rightarrow> (emptyReply, errorsJoin [Some e, closeResult conn])
           | None \<Rightarrow>
               (case decodeResult conn of
                  Inl e \<Rightarrow> (emptyReply, errorsJoin [Some e, closeResult conn])
                | Inr resp \<Rightarrow> (resp, errorsJoin [None, closeResult conn]))))"

definition liveInfo :: "network \<Rightarrow> bytes \<Rightarrow> bytes \<Rightarrow> Info option" where
  "liveInfo net sdir i =
     (case dialRequest net sdir i of
        (resp, Some e) \<Rightarrow> None
      | (resp, None) \<Rightarrow> if \<not> rOK resp then None else rInfo resp)"

definition endedRecord :: "json \<Rightarrow> fsys \<Rightarrow> bytes \<Rightarrow> bytes \<Rightarrow> fsys \<times> Info option" where
  "endedRecord js fs rdir i =
     (case fsReadFile fs (RecordPath rdir i) of
        (fs, Inl e) \<Rightarrow> (fs, None)
      | (fs, Inr data) \<Rightarrow> (fs, unmarshalInfo js data))"

definition EndedRecord :: "json \<Rightarrow> fsys \<Rightarrow> bytes \<Rightarrow> bytes \<Rightarrow> fsys \<times> Info option" where
  "EndedRecord js fs rdir i =
     (case endedRecord js fs rdir i of (fs, r) \<Rightarrow> (fs, map_option (\<lambda>info. info\<lparr>iRunning := False\<rparr>) r))"

section \<open>Listing\<close>

fun runningLoop :: "network \<Rightarrow> bytes \<Rightarrow> fsys \<Rightarrow> bytes list \<Rightarrow> fsys \<times> Info list" where
  "runningLoop net sdir fs [] = (fs, [])"
| "runningLoop net sdir fs (name # names) =
     (if \<not> HasSuffix name (str ''.sock'') then runningLoop net sdir fs names
      else
        case QueryUnescape (TrimSuffix name (str ''.sock'')) of
          None \<Rightarrow> runningLoop net sdir fs names
        | Some i \<Rightarrow>
            (case liveInfo net sdir i of
               Some info \<Rightarrow> (case runningLoop net sdir fs names of (fs, out) \<Rightarrow> (fs, info # out))
             | None \<Rightarrow> runningLoop net sdir (fst (fsRemove fs (Join sdir name))) names))"

definition listRunning :: "network \<Rightarrow> fsys \<Rightarrow> bytes \<Rightarrow> fsys \<times> Info list" where
  "listRunning net fs sdir =
     (case fsReadDir fs sdir of
        (fs, Inl e) \<Rightarrow> (fs, [])
      | (fs, Inr entries) \<Rightarrow> runningLoop net sdir fs (map fst entries))"

fun recordsLoop :: "json \<Rightarrow> bytes \<Rightarrow> fsys \<Rightarrow> (bytes \<times> bool) list \<Rightarrow> fsys \<times> Info list" where
  "recordsLoop js nsPath fs [] = (fs, [])"
| "recordsLoop js nsPath fs ((name, isDir) # rs) =
     (if isDir \<or> \<not> HasSuffix name (str ''.json'') then recordsLoop js nsPath fs rs
      else
        case fsReadFile fs (Join nsPath name) of
          (fs, Inl e) \<Rightarrow> recordsLoop js nsPath fs rs
        | (fs, Inr data) \<Rightarrow>
            (case unmarshalInfo js data of
               None \<Rightarrow> recordsLoop js nsPath fs rs
             | Some info \<Rightarrow>
                 (case recordsLoop js nsPath fs rs of (fs, out) \<Rightarrow> (fs, info\<lparr>iRunning := False\<rparr> # out))))"

fun namespacesLoop :: "json \<Rightarrow> bytes \<Rightarrow> fsys \<Rightarrow> (bytes \<times> bool) list \<Rightarrow> fsys \<times> Info list" where
  "namespacesLoop js rdir fs [] = (fs, [])"
| "namespacesLoop js rdir fs ((ns, isDir) # nss) =
     (if \<not> isDir then namespacesLoop js rdir fs nss
      else
        case fsReadDir fs (Join rdir ns) of
          (fs, Inl e) \<Rightarrow> namespacesLoop js rdir fs nss
        | (fs, Inr records) \<Rightarrow>
            (case recordsLoop js (Join rdir ns) fs records of
               (fs, out) \<Rightarrow> (case namespacesLoop js rdir fs nss of (fs, rest) \<Rightarrow> (fs, out @ rest))))"

definition listEnded :: "json \<Rightarrow> fsys \<Rightarrow> bytes \<Rightarrow> fsys \<times> Info list" where
  "listEnded js fs rdir =
     (case fsReadDir fs rdir of
        (fs, Inl e) \<Rightarrow> (fs, [])
      | (fs, Inr namespaces) \<Rightarrow> namespacesLoop js rdir fs namespaces)"

text \<open>A Go map of strings gives the empty string for a missing key.\<close>

definition metadataAt :: "Info \<Rightarrow> bytes \<Rightarrow> bytes" where
  "metadataAt info k = (case map_of (iMetadata info) k of None \<Rightarrow> [] | Some v \<Rightarrow> v)"

definition matchesMetadata :: "Info \<Rightarrow> (bytes \<times> bytes) list \<Rightarrow> bool" where
  "matchesMetadata info filters \<longleftrightarrow> list_all (\<lambda>(k, v). metadataAt info k = v) filters"

definition filterSessions :: "(Info list \<Rightarrow> Info list) \<Rightarrow> Info list \<Rightarrow> (bytes \<times> bytes) list \<Rightarrow> Info list" where
  "filterSessions sortByID infos filters = sortByID (filter (\<lambda>info. matchesMetadata info filters) infos)"

text \<open>\<open>byID\<close> as an association list without duplicate keys.\<close>

fun putRunning :: "(bytes \<times> Info) list \<Rightarrow> Info list \<Rightarrow> (bytes \<times> Info) list" where
  "putRunning m [] = m"
| "putRunning m (i # is) = putRunning (AList.update (iID i) i m) is"

fun putEnded :: "(bytes \<times> Info) list \<Rightarrow> Info list \<Rightarrow> (bytes \<times> Info) list" where
  "putEnded m [] = m"
| "putEnded m (i # is) = putEnded (if map_of m (iID i) = None then AList.update (iID i) i m else m) is"

definition ListSessions ::
    "(Info list \<Rightarrow> Info list) \<Rightarrow> (Info list \<Rightarrow> Info list) \<Rightarrow> network \<Rightarrow> json \<Rightarrow> fsys \<Rightarrow> bytes \<Rightarrow> bytes \<Rightarrow>
      (bytes \<times> bytes) list \<Rightarrow> fsys \<times> Info list" where
  "ListSessions sortByID mapOrder net js fs sdir rdir filters =
     (let (fs, running) = listRunning net fs sdir;
          (fs, past) = listEnded js fs rdir;
          byID = putEnded (putRunning [] running) past in
      (fs, filterSessions sortByID (mapOrder (map snd byID)) filters))"

definition ListRunning ::
    "(Info list \<Rightarrow> Info list) \<Rightarrow> network \<Rightarrow> fsys \<Rightarrow> bytes \<Rightarrow> (bytes \<times> bytes) list \<Rightarrow> fsys \<times> Info list" where
  "ListRunning sortByID net fs sdir filters =
     (case listRunning net fs sdir of (fs, running) \<Rightarrow> (fs, filterSessions sortByID running filters))"

definition ListEnded ::
    "(Info list \<Rightarrow> Info list) \<Rightarrow> json \<Rightarrow> fsys \<Rightarrow> bytes \<Rightarrow> (bytes \<times> bytes) list \<Rightarrow> fsys \<times> Info list" where
  "ListEnded sortByID js fs rdir filters =
     (case listEnded js fs rdir of (fs, past) \<Rightarrow> (fs, filterSessions sortByID past filters))"

definition runningInNamespace :: "network \<Rightarrow> fsys \<Rightarrow> bytes \<Rightarrow> bytes \<Rightarrow> fsys \<times> Info list" where
  "runningInNamespace net fs sdir ns =
     (case listRunning net fs sdir of (fs, running) \<Rightarrow> (fs, filter (\<lambda>info. Namespace (iID info) = ns) running))"

section \<open>What a listing contains\<close>

text \<open>What the code relies on of \<open>sort.Slice\<close> by id and of walking a map.\<close>

locale go_order =
  fixes sortByID :: "Info list \<Rightarrow> Info list" and mapOrder :: "Info list \<Rightarrow> Info list"
  assumes byID_perm: "mset (sortByID xs) = mset xs"
    and byID_sorted: "sorted_wrt (\<lambda>a b. iID a \<le> iID b) (sortByID xs)"
    and mapOrder_perm: "mset (mapOrder xs) = mset xs"
begin

lemma filterSessions_set: "set (filterSessions sortByID (mapOrder xs) fl) = {i \<in> set xs. matchesMetadata i fl}"
proof -
  have "set (sortByID ys) = set ys" "set (mapOrder ys) = set ys" for ys
    by (metis byID_perm set_mset_mset) (metis mapOrder_perm set_mset_mset)
  then show ?thesis by (auto simp: filterSessions_def)
qed

lemma filterSessions_sorted:
  assumes "distinct (map iID xs)"
  shows "sorted_wrt (\<lambda>a b. iID a < iID b) (filterSessions sortByID (mapOrder xs) fl)"
proof -
  let ?ys = "filter (\<lambda>i. matchesMetadata i fl) (mapOrder xs)"
  have "mset (map iID (mapOrder xs)) = mset (map iID xs)" by (simp add: mapOrder_perm)
  then have "distinct (map iID (mapOrder xs))" using assms by (metis mset_eq_imp_distinct_iff)
  then have "distinct (map iID ?ys)" by (rule distinct_map_filter)
  moreover have "mset (map iID (sortByID ?ys)) = mset (map iID ?ys)" by (simp add: byID_perm)
  ultimately have "distinct (map iID (sortByID ?ys))" by (metis mset_eq_imp_distinct_iff)
  moreover have "sorted (map iID (sortByID ?ys))" using byID_sorted by (simp add: sorted_wrt_map)
  ultimately have "sorted_wrt (<) (map iID (sortByID ?ys))" by (simp add: strict_sorted_iff)
  then show ?thesis by (simp add: filterSessions_def sorted_wrt_map)
qed

end

definition sortByIDs :: "Info list \<Rightarrow> Info list" where "sortByIDs xs = sort_key iID xs"
definition insertionOrder :: "Info list \<Rightarrow> Info list" where "insertionOrder xs = xs"

interpretation ids: go_order sortByIDs insertionOrder
proof
  fix xs
  show "mset (sortByIDs xs) = mset xs" "mset (insertionOrder xs) = mset xs"
    by (simp_all add: sortByIDs_def insertionOrder_def)
  show "sorted_wrt (\<lambda>a b. iID a \<le> iID b) (sortByIDs xs)"
    using sorted_sort_key [of iID xs] by (simp add: sortByIDs_def sorted_wrt_map)
qed

text \<open>The session a listing shows under an id: a live one before a retained one.\<close>

definition shownUnder :: "Info list \<Rightarrow> Info list \<Rightarrow> bytes \<Rightarrow> Info option" where
  "shownUnder running past i =
     (case find (\<lambda>r. iID r = i) (rev running) of Some r \<Rightarrow> Some r | None \<Rightarrow> find (\<lambda>r. iID r = i) past)"

lemma map_of_putRunning:
  "map_of (putRunning m is) k = (case find (\<lambda>r. iID r = k) (rev is) of Some r \<Rightarrow> Some r | None \<Rightarrow> map_of m k)"
proof (induction m "is" rule: putRunning.induct)
  case (2 m i "is")
  have "find P (xs @ [y]) = (case find P xs of Some r \<Rightarrow> Some r | None \<Rightarrow> if P y then Some y else None)"
    for P and xs :: "Info list" and y by (induction xs) simp_all
  then show ?case using 2 by (simp add: update_conv' split: option.splits)
qed simp

lemma map_of_putEnded:
  "map_of (putEnded m is) k = (case map_of m k of Some r \<Rightarrow> Some r | None \<Rightarrow> find (\<lambda>r. iID r = k) is)"
  by (induction m "is" rule: putEnded.induct) (auto simp: update_conv' split: option.splits)

text \<open>The map holds every session under its own id, once.\<close>

definition keyedByID :: "(bytes \<times> Info) list \<Rightarrow> bool" where
  "keyedByID m \<longleftrightarrow> distinct (map fst m) \<and> (\<forall>(k, i)\<in>set m. k = iID i)"

lemma keyed_update: "keyedByID m \<Longrightarrow> keyedByID (AList.update (iID i) i m)"
proof -
  assume m: "keyedByID m"
  have "\<forall>(k, j)\<in>set (AList.update (iID i) i m). k = iID j"
    using m unfolding keyedByID_def by (induction m) auto
  then show ?thesis using m distinct_update [of m "iID i" i] by (simp add: keyedByID_def)
qed

lemma keyed_putRunning: "keyedByID m \<Longrightarrow> keyedByID (putRunning m is)"
  by (induction m "is" rule: putRunning.induct) (auto intro: keyed_update)

lemma keyed_putEnded: "keyedByID m \<Longrightarrow> keyedByID (putEnded m is)"
  by (induction m "is" rule: putEnded.induct) (simp_all add: keyed_update)

lemma keyed_values: "keyedByID m \<Longrightarrow> map iID (map snd m) = map fst m"
  unfolding keyedByID_def by (induction m) auto


text \<open>
  The filter \<open>key=\<close> is no exact match: it also accepts sessions without the key.
\<close>

theorem matchesMetadata_missing_key:
  "matchesMetadata info [(k, v)] \<longleftrightarrow> map_of (iMetadata info) k = Some v \<or> v = [] \<and> map_of (iMetadata info) k = None"
  by (auto simp: matchesMetadata_def metadataAt_def split: option.split)

section \<open>Cleaning up sockets\<close>

text \<open>The id a name in the socket directory stands for.\<close>

definition socketId :: "bytes \<Rightarrow> bytes option" where
  "socketId name = (if HasSuffix name (str ''.sock'') then QueryUnescape (TrimSuffix name (str ''.sock'')) else None)"

definition answering :: "network \<Rightarrow> bytes \<Rightarrow> bytes \<Rightarrow> Info option" where
  "answering net sdir name = (case socketId name of None \<Rightarrow> None | Some i \<Rightarrow> liveInfo net sdir i)"

lemma runningLoop_reports: "snd (runningLoop net sdir fs names) = List.map_filter (answering net sdir) names"
  by (induction net sdir fs names rule: runningLoop.induct)
    (auto simp: answering_def socketId_def map_filter_simps split: option.split prod.split)

text \<open>Removed are only sockets that do not answer.\<close>

lemma fsRemove_files: "set (fsFiles (fst (fsRemove fs p))) \<subseteq> set (fsFiles fs) \<and>
    (\<forall>f\<in>set (fsFiles fs). fst f \<noteq> p \<longrightarrow> f \<in> set (fsFiles (fst (fsRemove fs p))))"
  by (auto simp: fsRemove_def fsFault_def split: list.split option.split)

lemma runningLoop_removes:
  "f \<in> set (fsFiles fs) \<Longrightarrow>
   (\<forall>name\<in>set names. fst f = Join sdir name \<longrightarrow> socketId name = None \<or> answering net sdir name \<noteq> None) \<Longrightarrow>
   f \<in> set (fsFiles (fst (runningLoop net sdir fs names)))"
proof (induction net sdir fs names rule: runningLoop.induct)
  case (2 net sdir fs name names)
  show ?case
  proof (cases "socketId name")
    case None
    then have "runningLoop net sdir fs (name # names) = runningLoop net sdir fs names"
      by (auto simp: socketId_def split: option.splits)
    then show ?thesis using 2 None by (auto simp: socketId_def split: option.splits if_splits)
  next
    case (Some i)
    then have s: "HasSuffix name (str ''.sock'')" "QueryUnescape (TrimSuffix name (str ''.sock'')) = Some i"
      by (auto simp: socketId_def split: if_splits)
    show ?thesis
    proof (cases "liveInfo net sdir i")
      case None
      then have "fst f \<noteq> Join sdir name" using 2(6) Some by (auto simp: answering_def)
      then have "f \<in> set (fsFiles (fst (fsRemove fs (Join sdir name))))" using fsRemove_files 2(5) by blast
      then show ?thesis using 2(3) [of i] 2(6) s None by (simp del: str_Cons)
    next
      case (Some info)
      then show ?thesis using 2(4) [of i info] 2(5,6) s by (cases "runningLoop net sdir fs names") (simp del: str_Cons)
    qed
  qed
qed simp


section \<open>Witnesses\<close>

definition demoInfo :: "bytes \<Rightarrow> Info" where
  "demoInfo i = \<lparr>iID = i, iRunning = True, iPid = 1, iCommand = [], iMetadata = [], iStartedAt = 0, iEndedAt = None,
     iDurationMS = 0, iOutputBytes = 0, iExitCode = None, iKilled = False, iError = []\<rparr>"


end
