(* ===== verification/Dirs.thy ===== *)
theory Dirs
  imports Paths
begin

text \<open>
  \<open>dirs.go\<close>: the fallback chains for the directories of sockets and of retained data, and
  their resolution once per process. The environment and what trying a directory gives are
  arguments of every call, so they may change between calls; the process keeps the two memoized
  results and what it has printed. Lemmas: the first usable candidate is chosen, candidates are
  distinct, and the answers of a process never change.
\<close>

section \<open>Candidates\<close>

record dirCandidate =
  cName :: bytes
  cPath :: bytes

text \<open>The environment variables (empty when unset), the \<open>xdg\<close> package and the \<open>os\<close> calls.\<close>

record dirEnv =
  runtimeVar :: bytes
  stateVar :: bytes
  xdgRuntimeDir :: bytes
  xdgStateHome :: bytes
  userHome :: "bytes option"
  tempDir :: bytes
  workDir :: "bytes option"

text \<open>The closure \<open>add\<close> on the list and the set \<open>seen\<close>.\<close>

definition addCandidate :: "bytes \<Rightarrow> bytes \<Rightarrow> dirCandidate list \<times> bytes list \<Rightarrow> dirCandidate list \<times> bytes list" where
  "addCandidate name path acc =
     (case acc of (out, seen) \<Rightarrow>
        if path = [] \<or> path \<in> set seen then (out, seen)
        else (out @ [\<lparr>cName = name, cPath = path\<rparr>], path # seen))"

definition bgxIn :: "bytes \<Rightarrow> bytes" where "bgxIn d = Join d (str ''bgx'')"
definition dotBgxIn :: "bytes \<Rightarrow> bytes" where "dotBgxIn d = Join d (str ''.bgx'')"

definition addCommonDirCandidates :: "dirEnv \<Rightarrow> dirCandidate list \<times> bytes list \<Rightarrow> dirCandidate list \<times> bytes list" where
  "addCommonDirCandidates env acc =
     (let acc = (case userHome env of
                   Some home \<Rightarrow> if home \<noteq> [] then addCandidate (str ''$HOME/.bgx'') (dotBgxIn home) acc else acc
                 | None \<Rightarrow> acc);
          acc = addCandidate (str ''/tmp/bgx'') (bgxIn (tempDir env)) acc in
      case workDir env of
        Some cwd \<Rightarrow> if cwd \<noteq> [] then addCandidate (str ''./.bgx'') (dotBgxIn cwd) acc else acc
      | None \<Rightarrow> acc)"

definition dirCandidates :: "dirEnv \<Rightarrow> dirCandidate list" where
  "dirCandidates env =
     (let acc = ([], []);
          acc = (if runtimeVar env \<noteq> [] then addCandidate (str ''$XDG_RUNTIME_DIR'') (bgxIn (runtimeVar env)) acc else acc);
          acc = (if xdgRuntimeDir env \<noteq> []
                 then addCandidate (str ''default XDG runtime dir'') (bgxIn (xdgRuntimeDir env)) acc else acc) in
      fst (addCommonDirCandidates env acc))"

definition stateDirCandidates :: "dirEnv \<Rightarrow> dirCandidate list" where
  "stateDirCandidates env =
     (let acc = ([], []);
          acc = (if stateVar env \<noteq> [] then addCandidate (str ''$XDG_STATE_HOME'') (bgxIn (stateVar env)) acc else acc);
          acc = (if xdgStateHome env \<noteq> []
                 then addCandidate (str ''default XDG state dir'') (bgxIn (xdgStateHome env)) acc else acc) in
      fst (addCommonDirCandidates env acc))"

section \<open>Trying directories\<close>

text \<open>The results of the calls of \<open>usableDir\<close>; an error is its text.\<close>

record dirTrial =
  trMkdirAll :: "bytes option"
  trCreateTemp :: "bytes option"
  trClose :: "bytes option"
  trRemove :: "bytes option"

fun joinTexts :: "bytes \<Rightarrow> bytes list \<Rightarrow> bytes" where
  "joinTexts sep [] = []"
| "joinTexts sep [t] = t"
| "joinTexts sep (t # u # ts) = t @ sep @ joinTexts sep (u # ts)"

text \<open>The text of \<open>errors.Join\<close>, none when every error is nil.\<close>

definition joinErrors :: "bytes option list \<Rightarrow> bytes option" where
  "joinErrors es = (case List.map_filter id es of [] \<Rightarrow> None | ts \<Rightarrow> Some (joinTexts [0x0A] ts))"

definition usableDir :: "(bytes \<Rightarrow> dirTrial) \<Rightarrow> bytes \<Rightarrow> bytes option" where
  "usableDir trial dir =
     (case trMkdirAll (trial dir) of
        Some e \<Rightarrow> Some e
      | None \<Rightarrow>
          (case trCreateTemp (trial dir) of
             Some e \<Rightarrow> Some e
           | None \<Rightarrow> joinErrors [trClose (trial dir), trRemove (trial dir)]))"

record dirResolution =
  resBase :: bytes
  resNotice :: bytes
  resErr :: "bytes option"

definition attemptText :: "dirCandidate \<Rightarrow> bytes \<Rightarrow> bytes" where
  "attemptText c err = cName c @ str '' ('' @ cPath c @ str ''): '' @ err"

definition noticeText :: "dirCandidate \<Rightarrow> dirCandidate \<Rightarrow> bytes list \<Rightarrow> bytes" where
  "noticeText first c attempts =
     str ''bgx: '' @ cName first @ str '' unusable, falling back to '' @ cName c @ str '' ('' @ cPath c @
     str ''); skipped: '' @ joinTexts (str ''; '') attempts"

text \<open>The loop; \<open>failed\<close> is the text of the error when every candidate was tried.\<close>

fun resolveLoop :: "(bytes \<Rightarrow> dirTrial) \<Rightarrow> bytes \<Rightarrow> dirCandidate list \<Rightarrow> nat \<Rightarrow> dirCandidate list \<Rightarrow> bytes list \<Rightarrow> dirResolution" where
  "resolveLoop trial failed candidates i [] attempts =
     \<lparr>resBase = [], resNotice = [], resErr = Some (failed @ joinTexts (str ''; '') attempts)\<rparr>"
| "resolveLoop trial failed candidates i (c # cs) attempts =
     (case usableDir trial (cPath c) of
        Some err \<Rightarrow> resolveLoop trial failed candidates (i + 1) cs (attempts @ [attemptText c err])
      | None \<Rightarrow>
          \<lparr>resBase = cPath c, resNotice = (if i > 0 then noticeText (candidates ! 0) c attempts else []), resErr = None\<rparr>)"

definition computeDirResolution :: "(bytes \<Rightarrow> dirTrial) \<Rightarrow> dirCandidate list \<Rightarrow> bytes \<Rightarrow> dirResolution" where
  "computeDirResolution trial candidates kind =
     resolveLoop trial (str ''all base directory fallbacks failed ('' @ kind @ str ''): '') candidates 0 candidates []"

definition computeDirCandidates :: "(bytes \<Rightarrow> dirTrial) \<Rightarrow> dirCandidate list \<Rightarrow> dirResolution" where
  "computeDirCandidates trial candidates =
     resolveLoop trial (str ''all base directory fallbacks failed: '') candidates 0 candidates []"

definition computeDirs :: "(bytes \<Rightarrow> dirTrial) \<Rightarrow> dirEnv \<Rightarrow> dirResolution" where
  "computeDirs trial env = computeDirResolution trial (dirCandidates env) (str ''runtime'')"

section \<open>Once per process\<close>

record dirProcess =
  dirResult :: "dirResolution option"
  stateResult :: "dirResolution option"
  printed :: "bytes list"

definition printNotice :: "dirProcess \<Rightarrow> dirResolution \<Rightarrow> dirProcess" where
  "printNotice s r = (if resNotice r \<noteq> [] then s\<lparr>printed := printed s @ [resNotice r]\<rparr> else s)"

definition resolveDirs :: "(bytes \<Rightarrow> dirTrial) \<Rightarrow> dirEnv \<Rightarrow> dirProcess \<Rightarrow> dirProcess \<times> dirResolution" where
  "resolveDirs trial env s =
     (case dirResult s of
        Some r \<Rightarrow> (s, r)
      | None \<Rightarrow> let r = computeDirs trial env in (printNotice (s\<lparr>dirResult := Some r\<rparr>) r, r))"

definition resolveStateDir :: "(bytes \<Rightarrow> dirTrial) \<Rightarrow> dirEnv \<Rightarrow> dirProcess \<Rightarrow> dirProcess \<times> dirResolution" where
  "resolveStateDir trial env s =
     (case stateResult s of
        Some r \<Rightarrow> (s, r)
      | None \<Rightarrow>
          let r = computeDirResolution trial (stateDirCandidates env) (str ''state'') in
          (printNotice (s\<lparr>stateResult := Some r\<rparr>) r, r))"

definition ensureDirs :: "(bytes \<Rightarrow> dirTrial) \<Rightarrow> dirEnv \<Rightarrow> dirProcess \<Rightarrow> dirProcess \<times> bytes option" where
  "ensureDirs trial env s =
     (let (s, r) = resolveDirs trial env s;
          (s, q) = resolveStateDir trial env s in
      (s, joinErrors [resErr r, resErr q]))"

definition EnsureDirs :: "(bytes \<Rightarrow> dirTrial) \<Rightarrow> dirEnv \<Rightarrow> dirProcess \<Rightarrow> dirProcess \<times> bytes option" where
  "EnsureDirs = ensureDirs"

definition fallbackNotice :: "(bytes \<Rightarrow> dirTrial) \<Rightarrow> dirEnv \<Rightarrow> dirProcess \<Rightarrow> dirProcess \<times> bytes" where
  "fallbackNotice trial env s =
     (let (s, r) = resolveDirs trial env s;
          notices = (if resNotice r \<noteq> [] then [resNotice r] else []);
          (s, q) = resolveStateDir trial env s;
          notices = (if resNotice q \<noteq> [] then notices @ [resNotice q] else notices) in
      (s, joinTexts (str ''; '') notices))"

definition socketDir :: "(bytes \<Rightarrow> dirTrial) \<Rightarrow> dirEnv \<Rightarrow> dirProcess \<Rightarrow> dirProcess \<times> bytes" where
  "socketDir trial env s =
     (case resolveDirs trial env s of (s, r) \<Rightarrow> (s, if resBase r = [] then [] else Join (resBase r) (str ''run'')))"

definition retentionDir :: "(bytes \<Rightarrow> dirTrial) \<Rightarrow> dirEnv \<Rightarrow> dirProcess \<Rightarrow> dirProcess \<times> bytes" where
  "retentionDir trial env s =
     (case resolveStateDir trial env s of (s, r) \<Rightarrow> (s, if resBase r = [] then [] else Join (resBase r) (str ''ended'')))"

section \<open>The first usable candidate\<close>

definition attemptsOf :: "(bytes \<Rightarrow> dirTrial) \<Rightarrow> dirCandidate list \<Rightarrow> bytes list" where
  "attemptsOf trial cs = map (\<lambda>c. attemptText c (the (usableDir trial (cPath c)))) cs"

lemma resolveLoop_skip:
  "\<forall>c\<in>set pre. usableDir trial (cPath c) \<noteq> None \<Longrightarrow>
   resolveLoop trial f candidates i (pre @ cs) as =
     resolveLoop trial f candidates (i + length pre) cs (as @ attemptsOf trial pre)"
  by (induction pre arbitrary: i as) (auto simp: attemptsOf_def)

text \<open>
  The first usable candidate becomes the base directory; when it is not the preferred one, the
  notice names the preferred one, the one taken, and every one skipped with its reason, in order.
\<close>

theorem computeDirResolution_first:
  assumes "\<forall>d\<in>set pre. usableDir trial (cPath d) \<noteq> None" "usableDir trial (cPath c) = None"
  shows "computeDirResolution trial (pre @ c # post) kind =
    \<lparr>resBase = cPath c, resNotice = (if pre = [] then [] else noticeText (hd pre) c (attemptsOf trial pre)), resErr = None\<rparr>"
  using resolveLoop_skip [OF assms(1), of _ _ 0 "c # post" "[]"] assms(2)
  by (cases pre) (simp_all add: computeDirResolution_def)

lemma computeDirResolution_none:
  assumes "\<forall>d\<in>set cs. usableDir trial (cPath d) \<noteq> None"
  shows "resBase (computeDirResolution trial cs kind) = [] \<and> resNotice (computeDirResolution trial cs kind) = [] \<and>
    resErr (computeDirResolution trial cs kind) \<noteq> None"
  using resolveLoop_skip [OF assms, of _ _ 0 "[]" "[]"] by (simp add: computeDirResolution_def)

text \<open>Candidates are distinct directories, and none is the empty path.\<close>

definition candidatesOk :: "dirCandidate list \<times> bytes list \<Rightarrow> bool" where
  "candidatesOk acc \<longleftrightarrow> distinct (map cPath (fst acc)) \<and> set (snd acc) = cPath ` set (fst acc) \<and> [] \<notin> set (map cPath (fst acc))"

lemma addCandidate_ok [intro]: "candidatesOk acc \<Longrightarrow> candidatesOk (addCandidate n p acc)"
  by (cases acc) (auto simp: candidatesOk_def addCandidate_def)

lemma addCommon_ok: "candidatesOk acc \<Longrightarrow> candidatesOk (addCommonDirCandidates env acc)"
  unfolding addCommonDirCandidates_def Let_def by (auto split: option.splits)

lemma candidates_distinct:
  "distinct (map cPath (dirCandidates env)) \<and> [] \<notin> set (map cPath (dirCandidates env))"
  "distinct (map cPath (stateDirCandidates env)) \<and> [] \<notin> set (map cPath (stateDirCandidates env))"
proof -
  have n: "candidatesOk ([], [])" by (simp add: candidatesOk_def)
  have f: "candidatesOk acc \<Longrightarrow> distinct (map cPath (fst (addCommonDirCandidates env acc)))
      \<and> [] \<notin> set (map cPath (fst (addCommonDirCandidates env acc)))" for acc
    using addCommon_ok [of acc env] by (simp add: candidatesOk_def)
  show "distinct (map cPath (dirCandidates env)) \<and> [] \<notin> set (map cPath (dirCandidates env))"
    unfolding dirCandidates_def Let_def by (rule f) (simp add: n addCandidate_ok del: str_Cons)
  show "distinct (map cPath (stateDirCandidates env)) \<and> [] \<notin> set (map cPath (stateDirCandidates env))"
    unfolding stateDirCandidates_def Let_def by (rule f) (simp add: n addCandidate_ok del: str_Cons)
qed

section \<open>One answer per process\<close>

datatype dirCall = AskSocketDir | AskRetentionDir | AskEnsure | AskNotice

definition answerDir ::
    "(bytes \<Rightarrow> dirTrial) \<Rightarrow> dirEnv \<Rightarrow> dirProcess \<Rightarrow> dirCall \<Rightarrow> dirProcess \<times> bytes option" where
  "answerDir trial env s q =
     (case q of
        AskSocketDir \<Rightarrow> (case socketDir trial env s of (s, d) \<Rightarrow> (s, Some d))
      | AskRetentionDir \<Rightarrow> (case retentionDir trial env s of (s, d) \<Rightarrow> (s, Some d))
      | AskEnsure \<Rightarrow> EnsureDirs trial env s
      | AskNotice \<Rightarrow> (case fallbackNotice trial env s of (s, t) \<Rightarrow> (s, Some t)))"

fun answerDirs :: "dirProcess \<Rightarrow> (dirCall \<times> (bytes \<Rightarrow> dirTrial) \<times> dirEnv) list \<Rightarrow> dirProcess \<times> bytes option list" where
  "answerDirs s [] = (s, [])"
| "answerDirs s ((q, trial, env) # qs) =
     (let (s, a) = answerDir trial env s q; (s, as) = answerDirs s qs in (s, a # as))"

definition freshDirs :: dirProcess where
  "freshDirs = \<lparr>dirResult = None, stateResult = None, printed = []\<rparr>"

text \<open>The answer that the memoized results determine.\<close>

definition memoAnswer :: "dirProcess \<Rightarrow> dirCall \<Rightarrow> bytes option" where
  "memoAnswer s q = snd (answerDir (\<lambda>_. undefined) undefined s q)"

definition resolvedFor :: "dirProcess \<Rightarrow> dirCall \<Rightarrow> bool" where
  "resolvedFor s q \<longleftrightarrow> (q \<noteq> AskRetentionDir \<longrightarrow> dirResult s \<noteq> None) \<and> (q \<noteq> AskSocketDir \<longrightarrow> stateResult s \<noteq> None)"

text \<open>A later state keeps what is resolved.\<close>

definition keeps :: "dirProcess \<Rightarrow> dirProcess \<Rightarrow> bool" where
  "keeps s s' \<longleftrightarrow> (dirResult s = None \<or> dirResult s' = dirResult s) \<and> (stateResult s = None \<or> stateResult s' = stateResult s)"

definition noticeBudget :: "dirProcess \<Rightarrow> nat" where
  "noticeBudget s = (if dirResult s = None then 1 else 0) + (if stateResult s = None then 1 else 0)"

lemmas dir_calls = answerDir_def socketDir_def retentionDir_def EnsureDirs_def ensureDirs_def fallbackNotice_def
  resolveDirs_def resolveStateDir_def Let_def

lemma printNotice_fields [simp]:
  "dirResult (printNotice s r) = dirResult s" "stateResult (printNotice s r) = stateResult s"
  "length (printed (printNotice s r)) = length (printed s) + (if resNotice r \<noteq> [] then 1 else 0)"
  by (simp_all add: printNotice_def)

lemma answerDir_step:
  assumes "answerDir trial env s q = (s', a)"
  shows "resolvedFor s' q \<and> keeps s s' \<and> a = memoAnswer s' q \<and>
    length (printed s') + noticeBudget s' \<le> length (printed s) + noticeBudget s"
  using assms by (cases q; cases "dirResult s"; cases "stateResult s")
    (auto simp: dir_calls resolvedFor_def keeps_def memoAnswer_def noticeBudget_def)

lemma memoAnswer_keeps: "resolvedFor s q \<Longrightarrow> keeps s s' \<Longrightarrow> memoAnswer s' q = memoAnswer s q"
  by (cases q) (auto simp: resolvedFor_def keeps_def memoAnswer_def dir_calls)

lemma answerDirs_step:
  "answerDirs s qs = (s', as) \<Longrightarrow> keeps s s' \<and> length (printed s') + noticeBudget s' \<le> length (printed s) + noticeBudget s \<and>
    as = map (\<lambda>(q, _). memoAnswer s' q) qs"
proof (induction s qs arbitrary: s' as rule: answerDirs.induct)
  case (2 s q trial env qs)
  obtain s1 a where 1: "answerDir trial env s q = (s1, a)" by fastforce
  obtain bs where r: "answerDirs s1 qs = (s', bs)" "as = a # bs"
    using "2.prems" 1 by (auto split: prod.splits)
  note A = answerDir_step [OF 1] and B = "2.IH" [OF 1 [symmetric] refl r(1)]
  have "keeps s s'" using A B by (auto simp: keeps_def)
  moreover have "a = memoAnswer s' q" using A B memoAnswer_keeps by auto
  ultimately show ?case using A B r(2) by auto
qed (simp add: keeps_def)



definition demoTrial :: "bytes \<Rightarrow> dirTrial" where
  "demoTrial d = \<lparr>trMkdirAll = (if d = str ''/r/bgx'' then Some (str ''denied'') else None), trCreateTemp = None,
     trClose = None, trRemove = None\<rparr>"

theorem computeDirResolution_first_witness:
  "computeDirResolution demoTrial [\<lparr>cName = str ''R'', cPath = str ''/r/bgx''\<rparr>, \<lparr>cName = str ''T'', cPath = str ''/t/bgx''\<rparr>]
     (str ''runtime'') =
   \<lparr>resBase = str ''/t/bgx'',
     resNotice = str ''bgx: R unusable, falling back to T (/t/bgx); skipped: R (/r/bgx): denied'', resErr = None\<rparr>"
  using computeDirResolution_first [of "[\<lparr>cName = str ''R'', cPath = str ''/r/bgx''\<rparr>]" demoTrial
      "\<lparr>cName = str ''T'', cPath = str ''/t/bgx''\<rparr>" "[]" "str ''runtime''"]
  by (simp add: usableDir_def demoTrial_def joinErrors_def map_filter_simps noticeText_def attemptsOf_def attemptText_def)

definition demoEnv :: dirEnv where
  "demoEnv = \<lparr>runtimeVar = str ''/r'', stateVar = [], xdgRuntimeDir = [], xdgStateHome = str ''/h/.local/state'',
     userHome = Some (str ''/h''), tempDir = str ''/tmp'', workDir = Some (str ''/w'')\<rparr>"


end
