(* ===== verification/Command_Api.thy ===== *)
theory Command_Api
  imports Sessions Dirs
begin

text \<open>
  \<open>command_api.go\<close>: the operations behind the commands. Each asks the session first and, when
  the session is unavailable, answers from what was retained. The client is the one that dials the
  session's socket; the file system is state, as other processes leave it before each look of a
  poll. Lemmas: when an operation answers from the record, and which errors remain.
\<close>

section \<open>Results and errors\<close>

record InfoResult =
  irExists :: bool
  irInfo :: "Info option"

record SendResult =
  srID :: bytes
  srSent :: bool

record VersionInfo =
  viVersion :: bytes
  viSocketDir :: bytes
  viRetentionDir :: bytes
  viFallback :: bytes

definition isSessionUnavailable :: "goerr \<Rightarrow> bool" where
  "isSessionUnavailable e \<longleftrightarrow> errorsIs e ErrEOF \<or> errorsIs e ErrNotExist \<or> errorsIs e ErrConnRefused \<or>
     errorsIs e ErrConnReset \<or> errorsIs e ErrBrokenPipe"

definition sessionNotFound :: "string \<Rightarrow> bytes \<Rightarrow> goerr option \<Rightarrow> goerr" where
  "sessionNotFound op i cause = Wrapped (SessionNotFoundError op i) cause"

section \<open>Operations\<close>

definition InfoOp :: "json \<Rightarrow> client \<Rightarrow> fsys \<Rightarrow> bytes \<Rightarrow> bytes \<Rightarrow> fsys \<times> (goerr + InfoResult)" where
  "InfoOp js c fs rdir i =
     (case clientInfo c of
        Inr info \<Rightarrow> (fs, Inr \<lparr>irExists = True, irInfo = Some info\<rparr>)
      | Inl e \<Rightarrow>
          if \<not> isSessionUnavailable e then (fs, Inl e)
          else
            (case EndedRecord js fs rdir i of
               (fs, Some info) \<Rightarrow> (fs, Inr \<lparr>irExists = True, irInfo = Some info\<rparr>)
             | (fs, None) \<Rightarrow> (fs, Inr \<lparr>irExists = False, irInfo = None\<rparr>)))"

definition endedExitResult :: "json \<Rightarrow> fsys \<Rightarrow> bytes \<Rightarrow> bytes \<Rightarrow> fsys \<times> ExitResult option" where
  "endedExitResult js fs rdir i =
     (case EndedRecord js fs rdir i of
        (fs, None) \<Rightarrow> (fs, None)
      | (fs, Some info) \<Rightarrow>
          (fs, case iExitCode info of None \<Rightarrow> None | Some n \<Rightarrow> Some \<lparr>exInfo = info, exCode = n\<rparr>))"

text \<open>What ends a pause between two polls.\<close>

datatype pollEvent = PollCanceled goerr | PollTimeout | PollTick

text \<open>Each poll sees the file system as it then is.\<close>

fun waitForEndedExitResult ::
    "json \<Rightarrow> bytes \<Rightarrow> bytes \<Rightarrow> (fsys \<times> pollEvent) list \<Rightarrow> (goerr + ExitResult option) option" where
  "waitForEndedExitResult js rdir i [] = None"
| "waitForEndedExitResult js rdir i ((fs, ev) # ps) =
     (case snd (endedExitResult js fs rdir i) of
        Some r \<Rightarrow> Some (Inr (Some r))
      | None \<Rightarrow>
          (case ev of
             PollCanceled e \<Rightarrow> Some (Inl e)
           | PollTimeout \<Rightarrow> Some (Inr None)
           | PollTick \<Rightarrow> waitForEndedExitResult js rdir i ps))"

definition WaitOp ::
    "json \<Rightarrow> client \<Rightarrow> fsys \<Rightarrow> (fsys \<times> pollEvent) list \<Rightarrow> bytes \<Rightarrow> bytes \<Rightarrow> bytes \<Rightarrow> (goerr + ExitResult) option" where
  "WaitOp js c fs polls sdir rdir i =
     (case clientWait c of
        Inr r \<Rightarrow> Some (Inr r)
      | Inl e \<Rightarrow>
          if \<not> isSessionUnavailable e then Some (Inl e)
          else
            (case endedExitResult js fs rdir i of
               (fs, Some r) \<Rightarrow> Some (Inr r)
             | (fs, None) \<Rightarrow>
                 (case fsStat fs (socketPath sdir i) of
                    (fs, Inl _) \<Rightarrow> Some (Inl (sessionNotFound ''wait'' i (Some e)))
                  | (fs, Inr _) \<Rightarrow>
                      (case waitForEndedExitResult js rdir i polls of
                         None \<Rightarrow> None
                       | Some (Inl we) \<Rightarrow> Some (Inl we)
                       | Some (Inr (Some r)) \<Rightarrow> Some (Inr r)
                       | Some (Inr None) \<Rightarrow> Some (Inl (sessionNotFound ''wait'' i (Some e)))))))"

definition KillOp :: "json \<Rightarrow> client \<Rightarrow> fsys \<Rightarrow> bytes \<Rightarrow> bytes \<Rightarrow> fsys \<times> (goerr + InfoResult)" where
  "KillOp js c fs rdir i =
     (case clientKill c of
        Inr r \<Rightarrow> (fs, Inr \<lparr>irExists = True, irInfo = Some (exInfo r)\<rparr>)
      | Inl e \<Rightarrow>
          if \<not> isSessionUnavailable e then (fs, Inl e)
          else
            (case EndedRecord js fs rdir i of
               (fs, Some info) \<Rightarrow> (fs, Inr \<lparr>irExists = True, irInfo = Some info\<rparr>)
             | (fs, None) \<Rightarrow> (fs, Inl (sessionNotFound ''kill'' i (Some e)))))"

definition SendOp :: "client \<Rightarrow> bytes \<Rightarrow> bytes \<Rightarrow> goerr + SendResult" where
  "SendOp c i input =
     (case clientSend c input of
        Some e \<Rightarrow> if isSessionUnavailable e then Inl (sessionNotFound ''send'' i (Some e)) else Inl e
      | None \<Rightarrow> Inr \<lparr>srID = i, srSent = True\<rparr>)"

definition HistoryOp :: "json \<Rightarrow> client \<Rightarrow> fsys \<Rightarrow> bytes \<Rightarrow> bytes \<Rightarrow> fsys \<times> (goerr + bytes)" where
  "HistoryOp js c fs rdir i =
     (case clientHistory c of
        Inr h \<Rightarrow> (fs, Inr h)
      | Inl e \<Rightarrow>
          if \<not> isSessionUnavailable e then (fs, Inl e)
          else
            (case EndedRecord js fs rdir i of
               (fs, None) \<Rightarrow> (fs, Inl (sessionNotFound ''history'' i (Some e)))
             | (fs, Some _) \<Rightarrow>
                 (case fsReadFile fs (HistoryPath rdir i) of
                    (fs, Inr h) \<Rightarrow> (fs, Inr h)
                  | (fs, Inl (FsNotExist p)) \<Rightarrow>
                      (fs, Inl (Wrapped (Formatted ''history: read retained session %q: %w'' [i]) (Some (Sentinel ErrNotExist))))
                  | (fs, Inl (FsFault m)) \<Rightarrow>
                      (fs, Inl (Wrapped (Formatted ''history: read retained session %q: %w'' [i]) (Some (Sentinel (ErrOther m))))))))"

definition VersionOp :: "bytes \<Rightarrow> (bytes \<Rightarrow> dirTrial) \<Rightarrow> dirEnv \<Rightarrow> dirProcess \<Rightarrow> dirProcess \<times> VersionInfo" where
  "VersionOp v trial env s =
     (let (s, sd) = socketDir trial env s; (s, rd) = retentionDir trial env s; (s, fb) = fallbackNotice trial env s in
      (s, \<lparr>viVersion = v, viSocketDir = sd, viRetentionDir = rd, viFallback = fb\<rparr>))"

section \<open>Answers from the record\<close>

definition unavailable :: "client \<Rightarrow> bool" where
  "unavailable c \<longleftrightarrow> (\<forall>op input. op \<in> {''info'', ''wait'', ''kill'', ''send'', ''history''} \<longrightarrow>
     (\<exists>e. snd (requestClient c op input) = Some e \<and> isSessionUnavailable e))"

lemma unavailable_request:
  assumes "unavailable c" "op \<in> {''info'', ''wait'', ''kill'', ''send'', ''history''}"
  shows "\<exists>r e. requestClient c op input = (r, Some e) \<and> isSessionUnavailable e"
  using assms by (metis unavailable_def prod.collapse)

text \<open>Each operation with the record of a session that is gone.\<close>

lemma EndedRecord_quiet:
  assumes "fsFaults fs = []" "snd (endedRecord js fs rdir i) = Some info"
  shows "EndedRecord js fs rdir i = (fs, Some (info\<lparr>iRunning := False\<rparr>))"
  using assms by (auto simp: EndedRecord_def endedRecord_def fsReadFile_def fsFault_def split: option.splits)

lemma InfoOp_retained:
  assumes "unavailable c" "EndedRecord js fs rdir i = (fs, Some info)"
  shows "snd (InfoOp js c fs rdir i) = Inr \<lparr>irExists = True, irInfo = Some info\<rparr>"
  using unavailable_request [OF assms(1), of "''info''" "[]"] assms(2) by (auto simp: InfoOp_def clientInfo_def)

lemma KillOp_retained:
  assumes "unavailable c" "EndedRecord js fs rdir i = (fs, Some info)"
  shows "snd (KillOp js c fs rdir i) = Inr \<lparr>irExists = True, irInfo = Some info\<rparr>"
  using unavailable_request [OF assms(1), of "''kill''" "[]"] assms(2) by (auto simp: KillOp_def clientKill_def exitOperation_def)

lemma WaitOp_retained:
  assumes "unavailable c" "EndedRecord js fs rdir i = (fs, Some info)" "iExitCode info = Some n"
  shows "WaitOp js c fs polls sdir rdir i = Some (Inr \<lparr>exInfo = info, exCode = n\<rparr>)"
  using unavailable_request [OF assms(1), of "''wait''" "[]"] assms(2,3)
  by (auto simp: WaitOp_def clientWait_def exitOperation_def endedExitResult_def)

lemma HistoryOp_retained:
  assumes "unavailable c" "EndedRecord js fs rdir i = (fs, Some info)" "snd (fsReadFile fs (HistoryPath rdir i)) = Inr h"
  shows "snd (HistoryOp js c fs rdir i) = Inr h"
  using unavailable_request [OF assms(1), of "''history''" "[]"] assms(2,3)
  by (cases "fsReadFile fs (HistoryPath rdir i)") (auto simp: HistoryOp_def clientHistory_def)

text \<open>
  C22. A session that has ended stays available: when its socket no longer answers and its record is
  readable, info, kill and wait answer from that record (marked as not running) without an error,
  and history returns the retained history; sending input reports the session as not found.
\<close>

theorem retained_answers:
  assumes "unavailable c" "fsFaults fs = []" "snd (endedRecord js fs rdir i) = Some info" "iExitCode info = Some n"
    "snd (fsReadFile fs (HistoryPath rdir i)) = Inr h"
  shows "snd (InfoOp js c fs rdir i) = Inr \<lparr>irExists = True, irInfo = Some (info\<lparr>iRunning := False\<rparr>)\<rparr> \<and>
    snd (KillOp js c fs rdir i) = Inr \<lparr>irExists = True, irInfo = Some (info\<lparr>iRunning := False\<rparr>)\<rparr> \<and>
    WaitOp js c fs polls sdir rdir i = Some (Inr \<lparr>exInfo = info\<lparr>iRunning := False\<rparr>, exCode = n\<rparr>) \<and>
    snd (HistoryOp js c fs rdir i) = Inr h \<and>
    (\<exists>e. SendOp c i input = Inl (sessionNotFound ''send'' i (Some e)))"
proof -
  note e = EndedRecord_quiet [OF assms(2,3)]
  have "\<exists>e. SendOp c i input = Inl (sessionNotFound ''send'' i (Some e))"
    using unavailable_request [OF assms(1), of "''send''" input] by (auto simp: SendOp_def clientSend_def)
  then show ?thesis
    using InfoOp_retained [OF assms(1) e] KillOp_retained [OF assms(1) e] HistoryOp_retained [OF assms(1) e assms(5)]
      WaitOp_retained [OF assms(1) e, of n] assms(4) by simp
qed

text \<open>Waiting for the record ends with the timer at the latest.\<close>

lemma waitForEndedExitResult_ends:
  "list_ex (\<lambda>(f, ev). ev \<noteq> PollTick) ps \<Longrightarrow> waitForEndedExitResult js rdir i ps \<noteq> None"
  by (induction js rdir i ps rule: waitForEndedExitResult.induct) (auto split: option.split pollEvent.split)

text \<open>
  Without a resolved base directory the path of a socket is relative, and so looked up in the
  working directory, although \<open>socketDir\<close> is empty so that no relative path is made.
\<close>

lemma socketPath_unresolved: "socketPath [] i = Clean (QueryEscape i @ str ''.sock'')"
  by (simp add: socketPath_def Join_def)

section \<open>Witnesses\<close>

definition refusing :: client where "refusing = NewClient (\<lambda>op input. Inl (Sentinel ErrConnRefused))"

lemma refusing_unavailable: "unavailable refusing"
  by (simp add: unavailable_def refusing_def NewClient_def requestClient_def isSessionUnavailable_def)

definition demoEnded :: json where
  "demoEnded = \<lparr>marshalInfo = (\<lambda>i. Inr []), unmarshalInfo = (\<lambda>d. Some ((demoInfo (str ''a''))\<lparr>iExitCode := Some 3\<rparr>))\<rparr>"

definition demoEndedFs :: fsys where
  "demoEndedFs = \<lparr>fsFiles = [(RecordPath (str ''/s'') (str ''a''), (str ''{}'', 0)),
     (HistoryPath (str ''/s'') (str ''a''), (str ''out'', 0))], fsDirs = [], fsFaults = [], fsNow = 0\<rparr>"

theorem retained_answers_witness:
  "snd (HistoryOp demoEnded refusing demoEndedFs (str ''/s'') (str ''a'')) = Inr (str ''out'') \<and>
   WaitOp demoEnded refusing demoEndedFs [] (str ''/r'') (str ''/s'') (str ''a'') =
     Some (Inr \<lparr>exInfo = (demoInfo (str ''a''))\<lparr>iExitCode := Some 3, iRunning := False\<rparr>, exCode = 3\<rparr>)"
proof -
  have 1: "fsFaults demoEndedFs = []" by (simp add: demoEndedFs_def)
  have 2: "snd (endedRecord demoEnded demoEndedFs (str ''/s'') (str ''a'')) = Some ((demoInfo (str ''a''))\<lparr>iExitCode := Some 3\<rparr>)"
    by code_simp
  have 3: "snd (fsReadFile demoEndedFs (HistoryPath (str ''/s'') (str ''a''))) = Inr (str ''out'')" by code_simp
  have 4: "iExitCode ((demoInfo (str ''a''))\<lparr>iExitCode := Some 3\<rparr>) = Some 3" by simp
  note retained_answers [OF refusing_unavailable 1 2 4 3, of "[]" "str ''/r''" "[]"]
  then show ?thesis by (elim conjE, intro conjI)
qed

end
