(* ===== verification/Lifecycle.thy ===== *)
theory Lifecycle
  imports Session_Serve Session_History Session_Ops Command_Api
begin

text \<open>
  The life of a session from \<open>Serve\<close> (\<open>daemon/daemon.go\<close>) to the answers of the commands
  after its end: the stages of \<open>run\<close> around any run of its critical sections, and what the
  daemon leaves for its clients. Lemmas: a record that no other one pushes out survives pruning and
  the removal of the socket, so that the commands answer with the session's own data.
\<close>

section \<open>Serve\<close>

text \<open>What the system answers, and the errors of closing.\<close>

record serveCalls =
  scNetListen :: "fs_error option"
  scPtyStart :: "bytes list \<Rightarrow> bytes \<Rightarrow> bytes list \<Rightarrow> sess_error + int"
  scEnviron :: "bytes list"
  scStartTime :: int
  scErrText :: "sess_error \<Rightarrow> bytes"
  scListenerClose :: "sess_error list"
  scPtyClose :: "sess_error list"
  scAccepted :: "sess_error list"
  scConnsDone :: bool
  scPersistTime :: int
  scStoreClose :: "sess_error list"

text \<open>
  \<open>evs\<close> are the critical sections until both pumps have stopped after the end of the command
  and the store is idle, \<open>late\<close> those of the clients until the connections are drained;
  \<open>None\<close> while the session runs, and of a list that no run has.
\<close>

definition finishedRun :: "zstd \<Rightarrow> 'g ghostty \<Rightarrow> 'g session \<Rightarrow> event list \<Rightarrow> bool" where
  "finishedRun z G s evs \<longleftrightarrow>
     legal z G s evs \<and> pumpRun PumpRead evs = Some PumpStopped \<and>
     (let s = daemonRun z G s evs in
      sended s \<and> closing s \<and> outDone s \<and> inputPump s = InputDone \<and> \<not> busy (scroll s))"

definition Serve ::
    "zstd \<Rightarrow> sorter \<Rightarrow> json \<Rightarrow> (bytes \<Rightarrow> dial) \<Rightarrow> (bytes \<Rightarrow> sb_error + diskBackend) \<Rightarrow> 'g ghostty \<Rightarrow> sessionConfig \<Rightarrow>
      serveCalls \<Rightarrow> event list \<Rightarrow> event list \<Rightarrow> fsys \<Rightarrow> (fsys \<times> sess_error list) option" where
  "Serve z sortDesc js dialUnix newDisk G c k evs late fs =
     (case newSession newDisk G c of
        Inl es \<Rightarrow> Some (fs, es)
      | Inr s \<Rightarrow>
          (case listenSocket fs (cfgSocketPath c) (scNetListen k) of
             (fs, Some e) \<Rightarrow> Some (fs, runListenFailed (FsFailed e) (scStoreClose k))
           | (fs, None) \<Rightarrow>
               (case startSession (scPtyStart k) (scEnviron k) (scStartTime k) s of
                  Inl e \<Rightarrow>
                    Some (snd (runStartFailed z js s (scPersistTime k) e (scErrText k e) (scListenerClose k) (scStoreClose k) fs))
                | Inr s \<Rightarrow>
                    if finishedRun z G s evs then
                      (case runFinish z sortDesc js dialUnix (daemonRun z G s evs) (scPersistTime k) fs of
                         (s, fs, persistErr, removeErr) \<Rightarrow>
                           Some (fs, runErrors (daemonRun z G s late) (scListenerClose k) (scPtyClose k) (scAccepted k)
                                       (waitConns (scConnsDone k)) persistErr removeErr (scStoreClose k)))
                    else None)))"

section \<open>Quiet file systems\<close>

lemma map_of_fsStore: "map_of (fsFiles (fsStore f p d)) q = (if q = p then Some (d, fsNow f) else map_of (fsFiles f) q)"
  by (auto simp: fsStore_def map_of_filter_other)

lemma distinct_filter_keys: "distinct (map fst xs) \<Longrightarrow> distinct (map fst (filter P xs))"
  by (induction xs) auto

lemma distinct_fsStore: "distinct (map fst (fsFiles f)) \<Longrightarrow> distinct (map fst (fsFiles (fsStore f p d)))"
  by (auto simp: fsStore_def distinct_filter_keys)

lemma HistoryPath_not_RecordPath: "HistoryPath d i \<noteq> RecordPath d i"
proof
  assume "HistoryPath d i = RecordPath d i"
  then have "last (encodeName i @ str ''.history'') = last (encodeName i @ str ''.json'')"
    by (metis last_RecordPath last_HistoryPath)
  then show False by (simp add: last_append)
qed

lemma writeRecord_quiet:
  assumes "fsFaults fs = []" "writeRecord js fs rdir info h = (w, None)"
  shows "\<exists>data t. marshalInfo js info = Inr data \<and> fsFaults w = [] \<and> namespaceDir rdir (iID info) \<in> set (fsDirs w) \<and>
    map_of (fsFiles w) (RecordPath rdir (iID info)) = Some (data, t) \<and>
    map_of (fsFiles w) (HistoryPath rdir (iID info)) = Some (h, t) \<and>
    (\<forall>p. p \<notin> {RecordPath rdir (iID info), HistoryPath rdir (iID info)} \<longrightarrow> map_of (fsFiles w) p = map_of (fsFiles fs) p) \<and>
    (distinct (map fst (fsFiles fs)) \<longrightarrow> distinct (map fst (fsFiles w)))"
proof -
  let ?m = "fs\<lparr>fsDirs := List.insert (namespaceDir rdir (iID info)) (fsDirs fs)\<rparr>"
  have q: "fsFault f = (f, None)" if "fsFaults f = []" for f using that by (simp add: fsFault_none)
  obtain data where d: "marshalInfo js info = Inr data"
    and w: "w = fsStore (fsStore ?m (HistoryPath rdir (iID info)) h) (RecordPath rdir (iID info)) data"
    using assms by (auto simp: writeRecord_def fsMkdirAll_def fsWriteFile_def q fsStore_def Let_def split: sum.splits)
  have n: "fsNow (fsStore f p x) = fsNow f" "fsDirs (fsStore f p x) = fsDirs f" "fsFaults (fsStore f p x) = fsFaults f" for f p x
    by (simp_all add: fsStore_def)
  have dist: "distinct (map fst (fsFiles fs)) \<Longrightarrow> distinct (map fst (fsFiles w))"
    unfolding w by (intro distinct_fsStore) simp
  show ?thesis
    using d dist HistoryPath_not_RecordPath [of rdir "iID info"]
    by (auto simp: w map_of_fsStore n assms(1))
qed

lemma activeNamespaceSessions_quiet:
  "fsFaults fs = [] \<Longrightarrow> fst (activeNamespaceSessions dialUnix fs sdir i) = fs"
  by (auto simp: activeNamespaceSessions_def fsReadDir_def fsFault_none split: sum.split)

section \<open>A record that stays\<close>

lemma entryOf_Some: "entryOf d p = Some n \<Longrightarrow> component n \<and> p = Join d n"
  by (auto simp: entryOf_def Let_def split: if_splits)

lemma entryOf_Join: "d \<noteq> [] \<Longrightarrow> component n \<Longrightarrow> entryOf d (Join d n) = Some n"
  by (simp add: entryOf_def Join_last)

lemma set_map_filter: "set (List.map_filter f xs) = {y. \<exists>x\<in>set xs. f x = Some y}"
  by (induction xs) (auto simp: map_filter_simps split: option.split)

lemma distinct_entries:
  "distinct (map fst fl) \<Longrightarrow> distinct (List.map_filter (\<lambda>(p, _). entryOf d p) fl)"
proof (induction fl)
  case (Cons x fl)
  obtain p y where x: "x = (p, y)" by fastforce
  have "n \<notin> set (List.map_filter (\<lambda>(p, _). entryOf d p) fl)" if n: "entryOf d p = Some n" for n
  proof
    assume "n \<in> set (List.map_filter (\<lambda>(p, _). entryOf d p) fl)"
    then obtain q z where "(q, z) \<in> set fl" "entryOf d q = Some n" by (auto simp: set_map_filter)
    then have "q = p" "q \<in> fst ` set fl" using entryOf_Some n by (blast, force)
    then show False using Cons.prems x by auto
  qed
  then show ?case using Cons by (simp add: x map_filter_simps split: option.split)
qed (simp add: map_filter_simps)

text \<open>A record's name is its base with the suffix, and bases tell records apart.\<close>

lemma TrimSuffix_json: "HasSuffix n (str ''.json'') \<Longrightarrow> TrimSuffix n (str ''.json'') @ str ''.json'' = n"
  by (metis HasSuffix_iff TrimSuffix_append)

lemma recordsIn_names:
  assumes "r \<in> set (recordsIn js fs d)"
  shows "component (base r @ str ''.json'') \<and> component (base r @ str ''.history'') \<and> r = recordOf js fs d (base r @ str ''.json'')"
proof -
  obtain n p where n: "entryOf d p = Some n" "HasSuffix n (str ''.json'')" "r = recordOf js fs d n"
    using assms by (auto simp: recordsIn_def set_map_filter simp del: str_Cons)
  have c: "component n" using entryOf_Some [OF n(1)] by simp
  have b: "base r @ str ''.json'' = n" using n(2,3) by (simp add: recordOf_def TrimSuffix_json del: str_Cons)
  have "slash \<notin> set (base r)" using c unfolding component_def b [symmetric] by simp
  then have "component (base r @ str ''.history'')" by (intro component_suffix suffix_no_slash) simp_all
  then show ?thesis using b c n(3) by metis
qed

lemma distinct_bases:
  assumes "distinct (map fst (fsFiles fs))" shows "distinct (map base (recordsIn js fs d))"
proof -
  have i: "inj_on (base \<circ> recordOf js fs d) {n. HasSuffix n (str ''.json'')}"
  proof (rule inj_onI)
    fix m n assume h: "m \<in> {n. HasSuffix n (str ''.json'')}" "n \<in> {n. HasSuffix n (str ''.json'')}"
      "(base \<circ> recordOf js fs d) m = (base \<circ> recordOf js fs d) n"
    then have "TrimSuffix m (str ''.json'') = TrimSuffix n (str ''.json'')" by (simp add: recordOf_def del: str_Cons)
    moreover have "TrimSuffix m (str ''.json'') @ str ''.json'' = m" "TrimSuffix n (str ''.json'') @ str ''.json'' = n"
      using h(1,2) by (simp_all only: mem_Collect_eq TrimSuffix_json)
    ultimately show "m = n" by metis
  qed
  show ?thesis unfolding recordsIn_def map_map
    by (intro distinct_map [THEN iffD2] conjI distinct_filter distinct_entries [OF assms] inj_on_subset [OF i]) auto
qed

text \<open>The session's record ended last of those stored in its namespace.\<close>

definition lastEnded :: "json \<Rightarrow> fsys \<Rightarrow> bytes \<Rightarrow> bytes \<Rightarrow> bool" where
  "lastEnded js fs rdir i \<longleftrightarrow>
     list_all (\<lambda>r. base r = encodeName i \<or> ended r < ended (recordOf js fs (namespaceDir rdir i) (encodeName i @ str ''.json'')))
       (recordsIn js fs (namespaceDir rdir i))"

lemma last_record_not_dropped:
  assumes "go_sort sortDesc" "mset rs = mset (recordsIn js fs (namespaceDir rdir i))" "distinct (map fst (fsFiles fs))"
    "lastEnded js fs rdir i" "0 < limit" "limit < length rs" "r \<in> set (drop limit (sortDesc ended rs))"
  shows "base r \<noteq> encodeName i"
proof
  let ?d = "namespaceDir rdir i" and ?l = "sortDesc ended rs"
  assume b: "base r = encodeName i"
  have m: "mset ?l = mset (recordsIn js fs ?d)" using go_sort.sort_perm [OF assms(1)] assms(2) by simp
  then have s: "set ?l = set (recordsIn js fs ?d)" by (metis set_mset_mset)
  have "mset (map base ?l) = mset (map base (recordsIn js fs ?d))" using m by simp
  then have dist: "distinct (map base ?l)" using distinct_bases [OF assms(3)] by (metis mset_eq_imp_distinct_iff)
  have r: "r \<in> set (recordsIn js fs ?d)" using assms(7) s by (metis in_set_dropD)
  have own: "r = recordOf js fs ?d (encodeName i @ str ''.json'')" using recordsIn_names [OF r] b by metis
  have "?l \<noteq> []" using assms(6) go_sort.sort_length [OF assms(1), of ended rs] by auto
  then have a: "hd ?l \<in> set (take limit ?l)" using assms(5) by (cases ?l; cases limit) auto
  then have le: "ended r \<le> ended (hd ?l)" using go_sort.sort_take_newer [OF assms(1) _ assms(7)] by blast
  have "hd ?l \<in> set (recordsIn js fs ?d)" using \<open>?l \<noteq> []\<close> s by (metis hd_in_set)
  then have "base (hd ?l) = encodeName i"
    using assms(4) le unfolding lastEnded_def list_all_iff own [symmetric] by fastforce
  moreover have "base (hd ?l) \<in> set (map base (take limit ?l))" using a by simp
  moreover have "base r \<in> set (map base (drop limit ?l))" using assms(7) by simp
  moreover have "distinct (map base (take limit ?l) @ map base (drop limit ?l))"
    using dist by (metis append_take_drop_id map_append)
  ultimately show False using b by auto
qed

lemma own_files_kept:
  assumes "r \<in> set (recordsIn js fs (namespaceDir rdir i))" "base r \<noteq> encodeName i" "p \<in> {RecordPath rdir i, HistoryPath rdir i}"
  shows "p \<notin> recordFiles (namespaceDir rdir i) r"
proof -
  let ?d = "namespaceDir rdir i"
  note c = recordsIn_names [OF assms(1)]
  have l: "last (splitSlash (Join ?d (base r @ str ''.json''))) = base r @ str ''.json''"
    "last (splitSlash (Join ?d (base r @ str ''.history''))) = base r @ str ''.history''"
    using c by (simp_all add: Join_last del: str_Cons)
  have o: "last (splitSlash p) \<in> {encodeName i @ str ''.json'', encodeName i @ str ''.history''}"
    using assms(3) by (auto simp: last_RecordPath last_HistoryPath simp del: str_Cons)
  have "last (a @ str ''.json'') \<noteq> last (b @ str ''.history'')" for a b by simp
  then have "a @ str ''.json'' \<noteq> b @ str ''.history''" for a b by metis
  then show ?thesis using l o assms(2) unfolding recordFiles_def by (metis append_same_eq insert_iff singletonD)
qed

lemma map_of_filter_keeps: "(\<And>v. P (q, v)) \<Longrightarrow> map_of (filter P xs) q = map_of xs q"
  by (induction xs) auto

lemma pruneRetention_own:
  assumes "go_sort sortDesc" "fsFaults fs = []" "namespaceDir rdir i \<in> set (fsDirs fs)" "distinct (map fst (fsFiles fs))"
    "lastEnded js fs rdir i" "p \<in> {RecordPath rdir i, HistoryPath rdir i}"
  shows "map_of (fsFiles (fst (pruneRetention sortDesc js fs rdir i keep))) p = map_of (fsFiles fs) p \<and>
    fsFaults (fst (pruneRetention sortDesc js fs rdir i keep)) = []"
proof -
  define limit :: nat where "limit = (if keep \<le> 0 then 10 else nat keep)"
  obtain rs where rs: "mset rs = mset (recordsIn js fs (namespaceDir rdir i))"
    "pruneRetention sortDesc js fs rdir i keep =
      (if length rs \<le> limit then (fs, []) else removeRecords fs (namespaceDir rdir i) (drop limit (sortDesc ended rs)))"
    using pruneRetention_drops [OF assms(2) refl assms(3) limit_def] by blast
  have "p \<notin> recordFiles (namespaceDir rdir i) r" if "limit < length rs" "r \<in> set (drop limit (sortDesc ended rs))" for r
  proof -
    have "mset (sortDesc ended rs) = mset (recordsIn js fs (namespaceDir rdir i))"
      using go_sort.sort_perm [OF assms(1)] rs(1) by simp
    then have "r \<in> set (recordsIn js fs (namespaceDir rdir i))" using that(2) by (metis in_set_dropD set_mset_mset)
    moreover have "base r \<noteq> encodeName i"
      using last_record_not_dropped [OF assms(1) rs(1) assms(4,5) _ that] by (simp add: limit_def)
    ultimately show ?thesis using own_files_kept assms(6) by blast
  qed
  then have "limit < length rs \<Longrightarrow> map_of (filter (\<lambda>(p, _). \<forall>r\<in>set (drop limit (sortDesc ended rs)).
      p \<notin> recordFiles (namespaceDir rdir i) r) (fsFiles fs)) p = map_of (fsFiles fs) p"
    by (intro map_of_filter_keeps) auto
  then show ?thesis unfolding rs(2) using assms(2) by (simp add: removeRecords_none)
qed

section \<open>What the daemon leaves\<close>

lemma persist_clean:
  assumes "persist z sortDesc js dialUnix s now fs = (s', fs', [])" "cfgRetentionDir (cfg s) \<noteq> []"
    "Snapshot z (scroll s) = (sc, h)"
  shows "\<exists>w keep. writeRecord js fs (cfgRetentionDir (cfg s)) (sessionInfo (s\<lparr>scroll := sc\<rparr>) now) h = (w, None) \<and>
    fs' = fst (pruneRetention sortDesc js
      (fst (activeNamespaceSessions dialUnix w (dirName (cfgSocketPath (cfg s))) (cfgID (cfg s)))) (cfgRetentionDir (cfg s)) (cfgID (cfg s)) keep)"
proof -
  obtain w e where w: "writeRecord js fs (cfgRetentionDir (cfg s)) (sessionInfo (s\<lparr>scroll := sc\<rparr>) now) h = (w, e)" by fastforce
  obtain w2 a es where a: "activeNamespaceSessions dialUnix w (dirName (cfgSocketPath (cfg s))) (cfgID (cfg s)) = (w2, (a, es))"
    by (metis prod.collapse)
  have c: "storeErr sc = []" "e = None" using assms w by (auto simp: persist_def Let_def split: if_splits option.splits)
  have "es = []" using assms w a c by (auto simp: persist_def Let_def split: if_splits)
  then show ?thesis using assms w a c by (auto simp: persist_def Let_def split: prod.splits) (metis fst_conv)
qed

lemma endAttachers_fields: "cfg (endAttachers s) = cfg s" "scroll (endAttachers s) = scroll s"
  "sessionInfo ((endAttachers s)\<lparr>scroll := sc\<rparr>) now = sessionInfo (s\<lparr>scroll := sc\<rparr>) now"
  by (simp_all add: endAttachers_def sessionInfo_def)

lemma persist_cfg: "persist z sortDesc js dialUnix s now fs = (s', fs', es) \<Longrightarrow> cfg s' = cfg s"
  by (auto simp: persist_def Let_def split: prod.splits if_splits option.splits)

lemma removeSocket_quiet:
  assumes "fsFaults fs = []"
  shows "map_of (fsFiles (fst (removeSocket fs p))) q = (if q = p then None else map_of (fsFiles fs) q) \<and>
    fsFaults (fst (removeSocket fs p)) = []"
proof -
  have "fst (removeSocket fs p) = fst (fsRemove fs p)"
    by (auto simp: removeSocket_def split: prod.splits option.splits fs_error.splits)
  moreover have "map_of (filter (\<lambda>(k, v). k \<noteq> p) (fsFiles fs)) p = None" by (auto simp: map_of_eq_None_iff)
  ultimately show ?thesis using assms by (auto simp: fsRemove_none map_of_filter_other)
qed

text \<open>
  What a daemon leaves is what the commands find: when a session's shutdown stores it without an
  error and its record is the last to end of those kept in its namespace, then once the socket is
  gone info and wait answer with the session's own metadata and exit code, and history with the
  whole snapshot of its output, whatever else was retained or pruned.
\<close>

theorem ended_session_answers:
  assumes "runFinish z sortDesc js dialUnix s now fs = (s', fs', [], removeErr)" "sended s"
    and "rdir = cfgRetentionDir (cfg s)" "rdir \<noteq> []" "i = cfgID (cfg s)"
    and "Snapshot z (scroll s) = (sc, history)" "info = sessionInfo (s\<lparr>scroll := sc\<rparr>) now"
    and "\<forall>data. marshalInfo js info = Inr data \<longrightarrow> unmarshalInfo js data = Some info"
    and "go_sort sortDesc" "fsFaults fs = []" "distinct (map fst (fsFiles fs))"
    and "cfgSocketPath (cfg s) \<notin> {RecordPath rdir i, HistoryPath rdir i}"
    and "lastEnded js (fst (writeRecord js fs rdir info history)) rdir i" "unavailable c"
  shows "map_of (fsFiles fs') (cfgSocketPath (cfg s)) = None \<and>
    snd (InfoOp js c fs' rdir i) = Inr \<lparr>irExists = True, irInfo = Some info\<rparr> \<and>
    WaitOp js c fs' polls sdir rdir i = Some (Inr \<lparr>exInfo = info, exCode = exitCode s\<rparr>) \<and>
    snd (HistoryOp js c fs' rdir i) = Inr history"
proof -
  obtain s1 fs1 where p: "persist z sortDesc js dialUnix (endAttachers s) now fs = (s1, fs1, [])"
    and r: "fs' = fst (removeSocket fs1 (cfgSocketPath (cfg s)))"
    using assms(1) persist_cfg by (fastforce simp: runFinish_def endAttachers_fields split: prod.splits)
  obtain w keep where w: "writeRecord js fs rdir info history = (w, None)"
    and q: "fs1 = fst (pruneRetention sortDesc js
      (fst (activeNamespaceSessions dialUnix w (dirName (cfgSocketPath (cfg s))) i)) rdir i keep)"
    using persist_clean [OF p] assms(3-7) unfolding endAttachers_fields by blast
  have i: "iID info = i" "iRunning info = False" "iExitCode info = Some (exitCode s)"
    using assms(2,5,7) by (simp_all add: sessionInfo_def)
  obtain data t where d: "marshalInfo js info = Inr data" "fsFaults w = []" "namespaceDir rdir i \<in> set (fsDirs w)"
    "map_of (fsFiles w) (RecordPath rdir i) = Some (data, t)" "map_of (fsFiles w) (HistoryPath rdir i) = Some (history, t)"
    "distinct (map fst (fsFiles w))"
    using writeRecord_quiet [OF assms(10) w] assms(11) unfolding i(1) by blast
  have "lastEnded js w rdir i" using assms(13) w by simp
  have own: "map_of (fsFiles fs1) (RecordPath rdir i) = Some (data, t)" "map_of (fsFiles fs1) (HistoryPath rdir i) = Some (history, t)"
    "fsFaults fs1 = []"
    using pruneRetention_own [OF assms(9) d(2,3,6) \<open>lastEnded js w rdir i\<close>, of "RecordPath rdir i" keep]
      pruneRetention_own [OF assms(9) d(2,3,6) \<open>lastEnded js w rdir i\<close>, of "HistoryPath rdir i" keep] d(4,5)
    unfolding q activeNamespaceSessions_quiet [OF d(2)] by simp_all
  note rs = removeSocket_quiet [OF own(3), of "cfgSocketPath (cfg s)", folded r]
  have f: "fsFaults fs' = []" "map_of (fsFiles fs') (cfgSocketPath (cfg s)) = None"
    "map_of (fsFiles fs') (RecordPath rdir i) = Some (data, t)" "map_of (fsFiles fs') (HistoryPath rdir i) = Some (history, t)"
    using rs own(1,2) assms(12) by auto
  have e: "snd (endedRecord js fs' rdir i) = Some info" "snd (fsReadFile fs' (HistoryPath rdir i)) = Inr history"
    using f assms(8) d(1) by (simp_all add: endedRecord_def fsReadFile_def fsFault_none)
  have "EndedRecord js fs' rdir i = (fs', Some info)" using EndedRecord_quiet [OF f(1) e(1)] i(2) by simp
  then show ?thesis
    using f(2) InfoOp_retained [OF assms(14)] WaitOp_retained [OF assms(14) _ i(3)] HistoryOp_retained [OF assms(14) _ e(2)] by blast
qed


section \<open>Witness\<close>

definition lifeFs :: fsys where
  "lifeFs = \<lparr>fsFiles = [(str ''/r/a.sock'', ([], 0))], fsDirs = [str ''/s/_global'', str ''/s'', str ''/r''], fsFaults = [], fsNow = 10\<rparr>"

definition lifeInfo :: Info where
  "lifeInfo = \<lparr>iID = str ''a'', iRunning = False, iPid = 0, iCommand = [str ''sh''], iMetadata = [], iStartedAt = 0,
     iEndedAt = Some 5, iDurationMS = 0, iOutputBytes = 0, iExitCode = Some 0, iKilled = False, iError = []\<rparr>"

definition lifeJson :: json where
  "lifeJson = \<lparr>marshalInfo = (\<lambda>i. Inr (str ''{}'')), unmarshalInfo = (\<lambda>d. Some lifeInfo)\<rparr>"

lemma life_evaluated:
  "case runFinish plainCodec sortNewest lifeJson (\<lambda>p. DialRefused) endedSession 12 lifeFs of (s', fs', pe, re) \<Rightarrow> pe = []"
  "lastEnded lifeJson (fst (writeRecord lifeJson lifeFs (str ''/s'') lifeInfo [])) (str ''/s'') (str ''a'')"
  "distinct (map fst (fsFiles lifeFs))"
  "cfgSocketPath demoConfig \<notin> {RecordPath (str ''/s'') (str ''a''), HistoryPath (str ''/s'') (str ''a'')}"
  "snd (Snapshot plainCodec (scroll endedSession)) = []"
  "sessionInfo (endedSession\<lparr>scroll := fst (Snapshot plainCodec (scroll endedSession))\<rparr>) 12 = lifeInfo"
  by code_simp+

theorem ended_session_answers_witness:
  "\<exists>s' fs' re. runFinish plainCodec sortNewest lifeJson (\<lambda>p. DialRefused) endedSession 12 lifeFs = (s', fs', [], re) \<and>
     map_of (fsFiles fs') (str ''/r/a.sock'') = None \<and>
     WaitOp lifeJson refusing fs' [] (str ''/r'') (str ''/s'') (str ''a'') = Some (Inr \<lparr>exInfo = lifeInfo, exCode = 0\<rparr>)"
proof -
  obtain s' fs' re where r: "runFinish plainCodec sortNewest lifeJson (\<lambda>p. DialRefused) endedSession 12 lifeFs = (s', fs', [], re)"
    using life_evaluated(1) by (auto split: prod.splits)
  have s: "sended endedSession" "cfg endedSession = demoConfig" "exitCode endedSession = 0"
    by (simp_all add: endedSession_def demoSession_def initSession_def)
  have sn: "Snapshot plainCodec (scroll endedSession) = (fst (Snapshot plainCodec (scroll endedSession)), [])"
    using life_evaluated(5) by (metis prod.collapse)
  have c: "str ''/s'' = cfgRetentionDir (cfg endedSession)" "str ''a'' = cfgID (cfg endedSession)"
    "cfgSocketPath (cfg endedSession) = str ''/r/a.sock''"
    unfolding s(2) demo_cfg by (rule refl)+
  have j: "\<forall>data. marshalInfo lifeJson lifeInfo = Inr data \<longrightarrow> unmarshalInfo lifeJson data = Some lifeInfo"
    by (simp add: lifeJson_def)
  have f: "fsFaults lifeFs = []" by (simp add: lifeFs_def)
  note ended_session_answers [OF r s(1) c(1) demo_cfg(5) c(2) sn life_evaluated(6) [symmetric] j newest.go_sort_axioms f
      life_evaluated(3) life_evaluated(4) [folded s(2)] life_evaluated(2) refusing_unavailable, of "[]" "str ''/r''"]
  then show ?thesis using r unfolding c(3) s(3) by blast
qed

section \<open>A session without failures\<close>

lemma newSession_failed: "newSession newDisk G c \<noteq> Inl []"
  by (auto simp: newSession_def split: sum.split)

text \<open>
  \<open>Serve\<close> returns nil only after the command was reaped, all output and input were handled, and
  the end was stored without an error.
\<close>

lemma Serve_clean:
  assumes "Serve z sortDesc js dialUnix newDisk G c k evs late fs = Some (fs', [])"
  shows "\<exists>s0 s1 fs0 s'. newSession newDisk G c = Inr s0 \<and> listenSocket fs (cfgSocketPath c) (scNetListen k) = (fs0, None) \<and>
    startSession (scPtyStart k) (scEnviron k) (scStartTime k) s0 = Inr s1 \<and> finishedRun z G s1 evs \<and>
    runFinish z sortDesc js dialUnix (daemonRun z G s1 evs) (scPersistTime k) fs0 = (s', fs', [], []) \<and>
    outputErr (daemonRun z G s' late) = []"
  using assms newSession_failed [of newDisk G c]
  by (force simp: Serve_def runListenFailed_def runStartFailed_def runErrors_def
      split: sum.splits prod.splits option.splits if_splits)

section \<open>Records other sessions left\<close>

lemma recordsIn_iff:
  "r \<in> set (recordsIn js fs d) \<longleftrightarrow>
    (\<exists>n. HasSuffix n (str ''.json'') \<and> r = recordOf js fs d n \<and> component n \<and>
       entryOf d (Join d n) = Some n \<and> map_of (fsFiles fs) (Join d n) \<noteq> None)"
proof
  assume "r \<in> set (recordsIn js fs d)"
  then obtain n p x where n: "(p, x) \<in> set (fsFiles fs)" "entryOf d p = Some n" "HasSuffix n (str ''.json'')" "r = recordOf js fs d n"
    by (auto simp: recordsIn_def set_map_filter simp del: str_Cons)
  moreover have "component n \<and> p = Join d n" using entryOf_Some [OF n(2)] .
  moreover have "map_of (fsFiles fs) p \<noteq> None" using n(1) unfolding map_of_eq_None_iff by force
  ultimately show "\<exists>n. HasSuffix n (str ''.json'') \<and> r = recordOf js fs d n \<and> component n \<and>
       entryOf d (Join d n) = Some n \<and> map_of (fsFiles fs) (Join d n) \<noteq> None" by blast
next
  assume "\<exists>n. HasSuffix n (str ''.json'') \<and> r = recordOf js fs d n \<and> component n \<and>
       entryOf d (Join d n) = Some n \<and> map_of (fsFiles fs) (Join d n) \<noteq> None"
  then obtain n x where n: "HasSuffix n (str ''.json'')" "r = recordOf js fs d n" "entryOf d (Join d n) = Some n"
    "(Join d n, x) \<in> set (fsFiles fs)" by (auto dest: map_of_SomeD simp del: str_Cons)
  then have "n \<in> set (List.map_filter (\<lambda>(p, _). entryOf d p) (fsFiles fs))" by (force simp: set_map_filter)
  then show "r \<in> set (recordsIn js fs d)" using n(1,2) by (simp add: recordsIn_def del: str_Cons)
qed

lemma recordEndedAt_cong:
  assumes "fsFaults f = []" "fsFaults fs = []" "map_of (fsFiles f) p = map_of (fsFiles fs) p"
  shows "snd (recordEndedAt js f p) = snd (recordEndedAt js fs p)"
  using assms by (auto simp: recordEndedAt_def fsReadFile_def fsStat_def fsFault_none split: option.split)

text \<open>Changing some paths leaves the records at the others as they were.\<close>

lemma recordsIn_changed:
  assumes "fsFaults f = []" "fsFaults fs = []" "\<And>p. p \<notin> C \<Longrightarrow> map_of (fsFiles f) p = map_of (fsFiles fs) p"
    and "r \<in> set (recordsIn js f d)"
  shows "r \<in> set (recordsIn js fs d) \<or>
    (\<exists>n. HasSuffix n (str ''.json'') \<and> component n \<and> r = recordOf js f d n \<and> Join d n \<in> C \<and> map_of (fsFiles f) (Join d n) \<noteq> None)"
proof -
  obtain n where n: "HasSuffix n (str ''.json'')" "r = recordOf js f d n" "component n" "entryOf d (Join d n) = Some n"
    "map_of (fsFiles f) (Join d n) \<noteq> None" using assms(4) unfolding recordsIn_iff by blast
  show ?thesis
  proof (cases "Join d n \<in> C")
    case False
    then have "recordOf js f d n = recordOf js fs d n" "map_of (fsFiles fs) (Join d n) \<noteq> None"
      using assms(3) n(5) recordEndedAt_cong [OF assms(1,2), of "Join d n"] by (simp_all add: recordOf_def)
    then show ?thesis using n unfolding recordsIn_iff by metis
  qed (use n in blast)
qed

text \<open>All records of the namespace but the session's own ended before \<open>t\<close>.\<close>

definition othersBefore :: "json \<Rightarrow> fsys \<Rightarrow> bytes \<Rightarrow> bytes \<Rightarrow> int \<Rightarrow> bool" where
  "othersBefore js fs rdir i t \<longleftrightarrow>
     list_all (\<lambda>r. base r = encodeName i \<or> ended r < t) (recordsIn js fs (namespaceDir rdir i))"

lemma othersBefore_removed:
  assumes "fsFaults f = []" "fsFaults fs = []" "\<And>p. map_of (fsFiles f) p = (if p = q then None else map_of (fsFiles fs) p)"
    and "othersBefore js fs rdir i t"
  shows "othersBefore js f rdir i t"
  using recordsIn_changed [OF assms(1,2), of "{q}"] assms(3,4) unfolding othersBefore_def list_all_iff by fastforce

lemma history_no_json: "\<not> HasSuffix (b @ str ''.history'') (str ''.json'')"
proof
  assume "HasSuffix (b @ str ''.history'') (str ''.json'')"
  then obtain a where "b @ str ''.history'' = a @ str ''.json''" unfolding HasSuffix_iff by blast
  then have "last (b @ str ''.history'') = last (a @ str ''.json'')" by (rule arg_cong)
  then show False by simp
qed

lemma lastEnded_written:
  assumes "fsFaults fs = []" "writeRecord js fs rdir info h = (w, None)" "iID info = i" "iEndedAt info = Some t"
    and "\<forall>data. marshalInfo js info = Inr data \<longrightarrow> unmarshalInfo js data = Some info" "othersBefore js fs rdir i t"
  shows "lastEnded js w rdir i"
proof -
  let ?d = "namespaceDir rdir i"
  obtain data u where d: "marshalInfo js info = Inr data" "fsFaults w = []" "map_of (fsFiles w) (RecordPath rdir i) = Some (data, u)"
    using writeRecord_quiet [OF assms(1,2)] assms(3) by blast
  have own: "ended (recordOf js w ?d (encodeName i @ str ''.json'')) = t"
    using d assms(4,5) unfolding recordOf_def RecordPath_def [symmetric]
    by (simp add: recordEndedAt_def fsReadFile_def fsFault_none)
  have same: "map_of (fsFiles w) p = map_of (fsFiles fs) p" if "p \<notin> {RecordPath rdir i, HistoryPath rdir i}" for p
    using writeRecord_quiet [OF assms(1,2)] that unfolding assms(3) by blast
  have "base r = encodeName i \<or> ended r < t" if r: "r \<in> set (recordsIn js w ?d)" for r
  proof -
    consider "r \<in> set (recordsIn js fs ?d)"
      | n where "HasSuffix n (str ''.json'')" "component n" "r = recordOf js w ?d n" "Join ?d n \<in> {RecordPath rdir i, HistoryPath rdir i}"
      using recordsIn_changed [OF d(2) assms(1) same r] by blast
    then show ?thesis
    proof cases
      case 1
      then show ?thesis using assms(6) by (auto simp: othersBefore_def list_all_iff)
    next
      case 2
      then have "n = encodeName i @ str ''.json'' \<or> n = encodeName i @ str ''.history''"
        using Join_last [of ?d n] last_RecordPath [of rdir i] last_HistoryPath [of rdir i] by auto
      then have "n = encodeName i @ str ''.json''" using 2(1) history_no_json by blast
      then show ?thesis using 2(3) by (simp add: recordOf_def del: str_Cons)
    qed
  qed
  then show ?thesis unfolding lastEnded_def list_all_iff own by blast
qed

lemma listenSocket_quiet:
  assumes "fsFaults fs = []" "listenSocket fs path nl = (fs', None)"
  shows "fsFaults fs' = [] \<and> (distinct (map fst (fsFiles fs)) \<longrightarrow> distinct (map fst (fsFiles fs'))) \<and>
    (\<forall>p. map_of (fsFiles fs') p = (if p = path then None else map_of (fsFiles fs) p))"
proof -
  let ?m = "fs\<lparr>fsDirs := List.insert (dirName path) (fsDirs fs)\<rparr>"
  have "fs' = fst (removeSocket ?m path)"
    using assms by (auto simp: listenSocket_def fsMkdirAll_def fsFault_none split: prod.splits option.splits)
  moreover have "fst (removeSocket ?m path) = fst (fsRemove ?m path)"
    by (auto simp: removeSocket_def split: prod.splits option.splits fs_error.splits)
  ultimately show ?thesis
    using removeSocket_quiet [of ?m path] assms(1) by (simp add: fsRemove_none distinct_filter_keys)
qed

section \<open>From Serve to the commands\<close>

lemma started_cfg:
  assumes "newSession newDisk G c = Inr s0" "startSession ps env t s0 = Inr s1"
  shows "cfg s1 = c \<and> \<not> sended s1"
  using assms by (auto simp: newSession_def startSession_def initSession_def split: sum.splits if_splits)

lemma runFinish_store:
  assumes "runFinish z sortDesc js dialUnix s now fs = (s', fs', [], removeErr)" "cfgRetentionDir (cfg s) \<noteq> []"
    "Snapshot z (scroll s) = (sc, out)"
  shows "storeErr sc = [] \<and> (\<exists>w. writeRecord js fs (cfgRetentionDir (cfg s)) (sessionInfo (s\<lparr>scroll := sc\<rparr>) now) out = (w, None))"
proof -
  obtain s1 fs1 where p: "persist z sortDesc js dialUnix (endAttachers s) now fs = (s1, fs1, [])"
    using assms(1) by (fastforce simp: runFinish_def split: prod.splits)
  then have "storeErr sc = []"
    using assms(2,3) by (auto simp: persist_def Let_def endAttachers_fields split: if_splits)
  then show ?thesis using persist_clean [OF p] assms(2,3) unfolding endAttachers_fields by blast
qed

lemma session_outcome:
  assumes "Serve z sortDesc js dialUnix newDisk G c k evs late fs = Some (fs', [])"
    and "\<forall>d. decodeAll z (encodeAll z d) = Some d" "go_sort sortDesc"
    and "rdir = cfgRetentionDir c" "rdir \<noteq> []" "i = cfgID c" "unavailable cl"
    and "\<forall>info data. iID info = i \<and> marshalInfo js info = Inr data \<longrightarrow> unmarshalInfo js data = Some info"
    and "fsFaults fs = []" "distinct (map fst (fsFiles fs))"
    and "cfgSocketPath c \<notin> {RecordPath rdir i, HistoryPath rdir i}"
    and "\<forall>r t. EvReap r t \<in> set evs \<longrightarrow> othersBefore js fs rdir i t"
  shows "\<exists>r t info out. EvReap r t \<in> set evs \<and> iCommand info = cfgCommand c \<and> \<not> iRunning info \<and>
    iExitCode info = Some (conventionalExitCode r) \<and> iEndedAt info = Some t \<and>
    iOutputBytes info = length (concat (map outputFed evs)) \<and>
    cutMiddle (concat (map outputFed evs)) out \<and>
    map_of (fsFiles fs') (cfgSocketPath c) = None \<and>
    snd (InfoOp js cl fs' rdir i) = Inr \<lparr>irExists = True, irInfo = Some info\<rparr> \<and>
    WaitOp js cl fs' polls sdir rdir i = Some (Inr \<lparr>exInfo = info, exCode = conventionalExitCode r\<rparr>) \<and>
    snd (HistoryOp js cl fs' rdir i) = Inr out"
proof -
  obtain s0 s1 fs0 s' where n: "newSession newDisk G c = Inr s0"
    and l: "listenSocket fs (cfgSocketPath c) (scNetListen k) = (fs0, None)"
    and s1: "startSession (scPtyStart k) (scEnviron k) (scStartTime k) s0 = Inr s1" and f: "finishedRun z G s1 evs"
    and r: "runFinish z sortDesc js dialUnix (daemonRun z G s1 evs) (scPersistTime k) fs0 = (s', fs', [], [])"
    using Serve_clean [OF assms(1)] by blast
  define s where "s = daemonRun z G s1 evs"
  have z: "lossless z" using assms(2) by (simp add: lossless_def)
  note s1' = started_cfg [OF n s1]
  have run: "legal z G s1 evs" "pumpRun PumpRead evs = Some PumpStopped" "sended s" "\<not> busy (scroll s)"
    using f by (simp_all add: finishedRun_def s_def Let_def)
  have c: "cfg s = c" using daemonRun_ledger [of z G s1 evs] s1' by (simp add: s_def)
  obtain rr t where reap: "EvReap rr t \<in> set evs" "exitCode s = conventionalExitCode rr" "endedAt s = t"
    using daemonRun_exit [OF run(1)] s1' run(3) unfolding s_def by blast
  obtain sc out where sn: "Snapshot z (scroll s) = (sc, out)" by fastforce
  define info where "info = sessionInfo (s\<lparr>scroll := sc\<rparr>) (scPersistTime k)"
  obtain w where w: "storeErr sc = []" "writeRecord js fs0 rdir info out = (w, None)"
    using runFinish_store [OF r [folded s_def] _ sn] assms(4,5) c unfolding info_def by blast
  have out: "cutMiddle (concat (map outputFed evs)) out" "totalBytes (scroll s) = length (concat (map outputFed evs))"
    using daemonRun_snapshot [OF z n s1 s_def run(2,4) sn w(1)] by blast+
  have "totalBytes sc = totalBytes (scroll s)" using Snapshot_frame [OF sn] by force
  then have info: "iID info = i" "iCommand info = cfgCommand c" "\<not> iRunning info" "iExitCode info = Some (exitCode s)"
    "iEndedAt info = Some t" "iOutputBytes info = length (concat (map outputFed evs))"
    using run(3) reap(3) out(2) c assms(6) by (simp_all add: info_def sessionInfo_def)
  note q = listenSocket_quiet [OF assms(9) l]
  have js: "\<forall>data. marshalInfo js info = Inr data \<longrightarrow> unmarshalInfo js data = Some info" using assms(8) info(1) by blast
  have "othersBefore js fs0 rdir i t"
    using othersBefore_removed [of fs0 fs "cfgSocketPath c"] q assms(9,12) reap(1) by blast
  then have last: "lastEnded js (fst (writeRecord js fs0 rdir info out)) rdir i"
    using lastEnded_written [OF _ w(2) info(1,5) js] q w(2) by simp
  have rdir: "rdir = cfgRetentionDir (cfg s)" "i = cfgID (cfg s)" using assms(4,6) c by simp_all
  have ne: "cfgSocketPath (cfg s) \<notin> {RecordPath rdir i, HistoryPath rdir i}" using assms(11) c by simp
  have d: "fsFaults fs0 = []" "distinct (map fst (fsFiles fs0))" using q assms(10) by simp_all
  note a = ended_session_answers [OF r [folded s_def] run(3) rdir(1) assms(5) rdir(2) sn info_def js assms(3) d ne last assms(7)]
  show ?thesis
    by (intro exI conjI) (rule reap info(2,3) info(4) [unfolded reap(2)] info(5,6) out(1) a [unfolded c reap(2), THEN conjunct1]
      a [unfolded c reap(2), THEN conjunct2, THEN conjunct1] a [unfolded c reap(2), THEN conjunct2, THEN conjunct2, THEN conjunct1]
      a [unfolded c reap(2), THEN conjunct2, THEN conjunct2, THEN conjunct2])+
qed


section \<open>Witness\<close>

definition wholeSocket :: bytes where "wholeSocket = str ''/r/bgx/run/a.sock''"
definition wholeKeep :: bytes where "wholeKeep = str ''/s/bgx/ended''"

definition wholeBefore :: fsys where
  "wholeBefore = \<lparr>fsFiles = [(wholeSocket, ([], 0))], fsDirs = [str ''/s/bgx/ended/_global'', wholeKeep, str ''/r/bgx/run''],
     fsFaults = [], fsNow = 10\<rparr>"

lemma whole_before: "fsFaults wholeBefore = []" "distinct (map fst (fsFiles wholeBefore))" "wholeKeep \<noteq> []"
  by (simp_all add: wholeBefore_def wholeKeep_def)

definition wholeConfig :: sessionConfig where
  "wholeConfig = demoConfig\<lparr>cfgSocketPath := wholeSocket, cfgRetentionDir := wholeKeep, cfgScrollback := \<lparr>HeadSize = 4, TailSize = 4, CompressionBacklogSize = 0, Storage = ''memory'', StoragePath = []\<rparr>\<rparr>"

definition wholeCalls :: serveCalls where
  "wholeCalls = \<lparr>scNetListen = None, scPtyStart = (\<lambda>c d e. Inr 7), scEnviron = [], scStartTime = 0, scErrText = (\<lambda>e. []),
     scListenerClose = [], scPtyClose = [], scAccepted = [], scConnsDone = True, scPersistTime = 6, scStoreClose = []\<rparr>"

definition wholeEvents :: "event list" where
  "wholeEvents = [EvStore (str ''ab''), EvFeed (str ''ab''), EvAnswer (str ''ab''), EvDrain, EvEnd ReadEOF,
     EvReap (WaitExited 3) 5, EvDrain, EvClosing, EvTake]"

definition wholeStore :: store where
  "wholeStore = (newStoreBackend 4 4 defaultChunkSize 0 Memory)\<lparr>chunkBuf := str ''ab'', totalBytes := 2\<rparr>"

definition wholeEnd :: "bytes session" where
  "wholeEnd = (initSession wholeConfig wholeStore (TWrite recorder recorderTerminal (str ''ab'')))\<lparr>started := True, spid := 7,
     endedAt := 5, exitCode := 3, sended := True, closing := True, outDone := True, inputPump := InputDone\<rparr>"

definition wholeInfo :: Info where
  "wholeInfo = \<lparr>iID = str ''a'', iRunning = False, iPid = 7, iCommand = [str ''sh''], iMetadata = [], iStartedAt = 0,
     iEndedAt = Some 5, iDurationMS = 0, iOutputBytes = 2, iExitCode = Some 3, iKilled = False, iError = []\<rparr>"

definition wholeJson :: json where
  "wholeJson = \<lparr>marshalInfo = (\<lambda>i. if i = wholeInfo then Inr (str ''{}'') else Inl (FsFault ''unknown'')), unmarshalInfo = (\<lambda>d. Some wholeInfo)\<rparr>"

definition wholeStart :: "bytes session" where
  "wholeStart = (initSession wholeConfig (newStoreBackend 4 4 defaultChunkSize 0 Memory) recorderTerminal)\<lparr>started := True, spid := 7\<rparr>"

definition noDisk :: "bytes \<Rightarrow> sb_error + diskBackend" where "noDisk p = Inl ZstdError"

lemma whole_calls: "scNetListen wholeCalls = None" "scListenerClose wholeCalls = []" "scPtyClose wholeCalls = []"
  "scAccepted wholeCalls = []" "scConnsDone wholeCalls" "scPersistTime wholeCalls = 6" "scStoreClose wholeCalls = []"
  by (simp_all add: wholeCalls_def)

lemma whole_started: "newSession noDisk recorder wholeConfig =
    Inr (initSession wholeConfig (newStoreBackend 4 4 defaultChunkSize 0 Memory) recorderTerminal)"
  "startSession (scPtyStart wholeCalls) (scEnviron wholeCalls) (scStartTime wholeCalls)
    (initSession wholeConfig (newStoreBackend 4 4 defaultChunkSize 0 Memory) recorderTerminal) = Inr wholeStart"
  using recorder_new
  by (simp_all add: newSession_def New_def wholeConfig_def selectBackend_def wholeStart_def startSession_def
    demoConfig_def initSession_def wholeCalls_def defaultCols_def defaultRows_def)

lemma whole_store:
  "drainStep plainCodec (Write (newStoreBackend 4 4 defaultChunkSize 0 Memory) (str ''ab'')) = wholeStore\<lparr>busy := True\<rparr>"
  "drainStep plainCodec (wholeStore\<lparr>busy := True\<rparr>) = wholeStore"
  by (simp_all add: wholeStore_def Write_def drainStep_def processNext_def processTarget_def newStoreBackend_def
      sizeOr_def defaultChunkSize_def Let_def)

lemma whole_answer: "scanDeviceAttributes (str ''ab'') = []" "SafeCut zeroScanner [] 0 = 0" "Advance zeroScanner [] = zeroScanner"
  by code_simp+

lemma whole_run: "legal plainCodec recorder wholeStart wholeEvents \<and> daemonRun plainCodec recorder wholeStart wholeEvents = wholeEnd"
  using demo_cut
  by (simp add: wholeEvents_def wholeStart_def wholeEnd_def initSession_def pumpStore_def whole_store whole_answer
      feedTerm_def fanout_def pumpAnswer_def noClients_def ids_def
      pumpEnd_def reap_def conventionalExitCode_def pumpTake_def Let_def del: str_Cons)

definition wholeFs :: fsys where
  "wholeFs = fst (listenSocket wholeBefore (wholeSocket) None)"

definition wholeKept :: fsys where
  "wholeKept = fst (writeRecord wholeJson wholeFs wholeKeep wholeInfo (str ''ab''))"

lemma whole_files:
  "snd (listenSocket wholeBefore (wholeSocket) None) = None"
  "snd (writeRecord wholeJson wholeFs wholeKeep wholeInfo (str ''ab'')) = None"
  "case activeNamespaceSessions (\<lambda>p. DialRefused) wholeKept (dirName (wholeSocket)) (str ''a'') of (fs, a, es) \<Rightarrow>
     es = [] \<and> a = 0 \<and> snd (pruneRetention sortNewest wholeJson fs wholeKeep (str ''a'') 1) = [] \<and>
     snd (removeSocket (fst (pruneRetention sortNewest wholeJson fs wholeKeep (str ''a'') 1)) (wholeSocket)) = None"
  "othersBefore wholeJson wholeBefore wholeKeep (str ''a'') 5"
  "wholeSocket \<notin> {RecordPath wholeKeep (str ''a''), HistoryPath wholeKeep (str ''a'')}"
  by code_simp+

lemma whole_snapshot: "Snapshot plainCodec wholeStore = (wholeStore, str ''ab'')"
  by (simp add: Snapshot_def wholeStore_def newStoreBackend_def sizeOr_def)

lemma whole_sessionInfo: "sessionInfo ((endAttachers wholeEnd)\<lparr>scroll := wholeStore\<rparr>) 6 = wholeInfo"
  by (simp add: sessionInfo_def endAttachers_def wholeEnd_def initSession_def wholeConfig_def demoConfig_def wholeInfo_def
      milliseconds_def wholeStore_def newStoreBackend_def)

lemma whole_cfg: "cfg (endAttachers wholeEnd) = wholeConfig" "scroll (endAttachers wholeEnd) = wholeStore"
  "storeErr wholeStore = []" "cfgSocketPath wholeConfig = wholeSocket" "cfgRetentionDir wholeConfig = wholeKeep"
  "cfgID wholeConfig = str ''a''" "cfgRetentionCount wholeConfig = 1" "cfg wholeEnd = wholeConfig" "cfgCommand wholeConfig = [str ''sh'']"
  by (simp_all add: endAttachers_def wholeEnd_def initSession_def wholeConfig_def demoConfig_def wholeStore_def newStoreBackend_def)

lemma whole_finish:
  "\<exists>fs'. runFinish plainCodec sortNewest wholeJson (\<lambda>p. DialRefused) wholeEnd 6 wholeFs =
     ((endAttachers wholeEnd)\<lparr>scroll := wholeStore\<rparr>, fs', [], [])"
proof -
  have w: "writeRecord wholeJson wholeFs wholeKeep wholeInfo (str ''ab'') = (wholeKept, None)"
    using whole_files(2) by (metis wholeKept_def prod.collapse)
  obtain fs where a: "activeNamespaceSessions (\<lambda>p. DialRefused) wholeKept (dirName (wholeSocket)) (str ''a'') = (fs, 0, [])"
    and pr: "snd (pruneRetention sortNewest wholeJson fs wholeKeep (str ''a'') 1) = []"
    and re: "snd (removeSocket (fst (pruneRetention sortNewest wholeJson fs wholeKeep (str ''a'') 1)) (wholeSocket)) = None"
    using whole_files(3) by (auto split: prod.splits)
  obtain fp where p: "pruneRetention sortNewest wholeJson fs wholeKeep (str ''a'') 1 = (fp, [])" using pr by (metis prod.collapse)
  have "persist plainCodec sortNewest wholeJson (\<lambda>p. DialRefused) (endAttachers wholeEnd) 6 wholeFs =
      ((endAttachers wholeEnd)\<lparr>scroll := wholeStore\<rparr>, fp, [])"
    using w a p whole_before(3)
    by (simp add: persist_def whole_cfg whole_snapshot whole_sessionInfo Let_def del: str_Cons)
  moreover obtain fr where "removeSocket fp (wholeSocket) = (fr, None)" using re p by (metis fst_conv prod.collapse)
  ultimately show ?thesis by (simp add: runFinish_def whole_cfg optList_def del: str_Cons)
qed

lemma whole_serve:
  "\<exists>fs'. Serve plainCodec sortNewest wholeJson (\<lambda>p. DialRefused) noDisk recorder wholeConfig wholeCalls
     wholeEvents [] wholeBefore = Some (fs', [])"
proof -
  have l: "listenSocket wholeBefore (wholeSocket) None = (wholeFs, None)"
    using whole_files(1) by (metis wholeFs_def prod.collapse)
  have "finishedRun plainCodec recorder wholeStart wholeEvents"
    using whole_run by (simp add: finishedRun_def wholeEnd_def wholeEvents_def wholeStore_def newStoreBackend_def initSession_def)
  moreover have "outputErr wholeEnd = []" "inputErr wholeEnd = []" "handlerErr wholeEnd = []"
    by (simp_all add: wholeEnd_def initSession_def)
  ultimately show ?thesis
    using whole_finish whole_run whole_started l
    by (auto simp: Serve_def whole_cfg whole_calls runErrors_def waitConns_def endAttachers_def simp del: str_Cons)
qed


end
