(* ===== verification/Attach_View.thy ===== *)
theory Attach_View
  imports Vt Go_Errors
begin

text \<open>
  \<open>attachview.go\<close>: the painter of the isolated presentation. The physical terminal is the
  bytes written to it so far and the scripted answers of its next writes; the painter goroutine
  is a step that takes a pending wake-up, and closing it flushes one that is left. Lemmas: what a
  repaint does to the screen and modes of the physical terminal.
\<close>

section \<open>The physical terminal\<close>

datatype write_answer = WroteAll | WroteShort nat | WroteError nat sentinel

record physical =
  shown :: bytes
  answers :: "write_answer list"

text \<open>The closures \<open>writeOut\<close> and \<open>writeBytes\<close> of \<open>runTerminalAttach\<close>.\<close>

definition writeError :: "sentinel \<Rightarrow> goerr" where
  "writeError e = Errorf ''attach: write terminal: %w'' (Sentinel e)"

definition writeOut :: "physical \<Rightarrow> bytes \<Rightarrow> physical \<times> goerr option" where
  "writeOut ph p =
     (let ph' = ph\<lparr>answers := tl (answers ph)\<rparr> in
      case (case answers ph of [] \<Rightarrow> WroteAll | a # as \<Rightarrow> a) of
        WroteError n e \<Rightarrow> (ph'\<lparr>shown := shown ph @ take n p\<rparr>, Some (writeError e))
      | WroteShort n \<Rightarrow>
          if n < length p then (ph'\<lparr>shown := shown ph @ take n p\<rparr>, Some (writeError ErrShortWrite))
          else (ph'\<lparr>shown := shown ph @ p\<rparr>, None)
      | WroteAll \<Rightarrow> (ph'\<lparr>shown := shown ph @ p\<rparr>, None))"

definition vtErr :: "vt_error \<Rightarrow> goerr" where
  "vtErr e = (case e of VtError m \<Rightarrow> Sentinel (ErrOther m))"

section \<open>The view\<close>

text \<open>\<open>vdirty\<close> is whether the one-slot channel \<open>wake\<close> holds a request.\<close>

record attachView =
  vrows :: "16 word"
  vreserved :: bool
  vdirty :: bool
  vrunning :: bool

definition backslash :: byte where "backslash = 0x5C"

definition detachHint :: bytes where "detachHint = str '' detach: ctrl+'' @ [backslash] @ str '' ''"
definition detachHintStyle :: bytes where "detachHintStyle = csi ''48;5;236;38;5;250m''"

definition newAttachView :: "16 word \<Rightarrow> bool \<Rightarrow> attachView" where
  "newAttachView rows reserved = \<lparr>vrows = rows, vreserved = reserved, vdirty = True, vrunning = True\<rparr>"

definition markDirty :: "attachView \<Rightarrow> attachView" where "markDirty v = v\<lparr>vdirty := True\<rparr>"

definition setSize :: "attachView \<Rightarrow> 16 word \<Rightarrow> bool \<Rightarrow> attachView" where
  "setSize v rows reserved = markDirty (v\<lparr>vrows := rows, vreserved := reserved\<rparr>)"

definition escSeq :: "string \<Rightarrow> bytes" where "escSeq s = 0x1B # str s"

text \<open>The hint on a row: style, erase, text, between a save and a restore of the cursor.\<close>

definition hintLine :: "16 word \<Rightarrow> bytes" where
  "hintLine row = escSeq ''7'' @ csi [] @ decimal (unat row) @ str '';1H'' @ detachHintStyle @ csi ''2K'' @ detachHint @
     csi ''0m'' @ escSeq ''8''"

definition paintBytes :: "attachView \<Rightarrow> bytes \<Rightarrow> bytes" where
  "paintBytes v screen =
     csi ''?2026h'' @
     (if vreserved v then csi ''1;'' @ decimal (unat (vrows v)) @ str ''r'' else csi ''r'') @
     csi ''2J'' @ csi ''H'' @ csi ''m'' @ screen @
     (if vreserved v then hintLine (vrows v + 1) else []) @ csi ''?2026l''"

definition paint :: "'g ghostty \<Rightarrow> 'g terminal \<Rightarrow> attachView \<Rightarrow> physical \<Rightarrow> physical \<times> goerr option" where
  "paint G t v ph =
     (case Format G (gterm t) of
        Inl e \<Rightarrow> (ph, Some (Errorf ''render attach view: %w'' (vtErr e)))
      | Inr screen \<Rightarrow>
          (case writeOut ph (paintBytes v screen) of
             (ph, Some e) \<Rightarrow> (ph, Some (Errorf ''paint attach view: %w'' e))
           | (ph, None) \<Rightarrow> (ph, None)))"

text \<open>One round of \<open>paintLoop\<close>; \<open>errs\<close> is the channel of capacity one it reports on.\<close>

definition paintRound :: "'g ghostty \<Rightarrow> 'g terminal \<Rightarrow> attachView \<Rightarrow> physical \<Rightarrow> goerr option \<Rightarrow>
    attachView \<times> physical \<times> goerr option" where
  "paintRound G t v ph errs =
     (if \<not> (vrunning v \<and> vdirty v) then (v, ph, errs)
      else
        let v = v\<lparr>vdirty := False\<rparr> in
        case paint G t v ph of
          (ph, None) \<Rightarrow> (v, ph, errs)
        | (ph, Some e) \<Rightarrow> (v\<lparr>vrunning := False\<rparr>, ph, (case errs of None \<Rightarrow> Some e | Some x \<Rightarrow> Some x)))"

text \<open>\<open>close\<close>, of a view that is not closed yet.\<close>

definition closeView :: "'g ghostty \<Rightarrow> 'g terminal \<Rightarrow> attachView \<Rightarrow> physical \<Rightarrow> physical \<times> goerr option" where
  "closeView G t v ph = (if vdirty v then paint G t v ph else (ph, None))"

section \<open>Effects on the physical terminal\<close>

text \<open>What bytes do to which screen is active, from ground to ground.\<close>

definition altEffect :: "bytes \<Rightarrow> (bool \<Rightarrow> bool) \<Rightarrow> bool" where
  "altEffect p g \<longleftrightarrow> (\<exists>f. does p f \<and> (\<forall>s. fst (f s) = g (fst s)))"

named_theorems alt_effects \<open>which screen a piece of output leaves active\<close>

lemma altEffect_append: "altEffect p g \<Longrightarrow> altEffect q h \<Longrightarrow> altEffect (p @ q) (h \<circ> g)"
proof -
  assume "altEffect p g" "altEffect q h"
  then obtain f1 f2 where f: "does p f1" "\<forall>s. fst (f1 s) = g (fst s)" "does q f2" "\<forall>s. fst (f2 s) = h (fst s)"
    unfolding altEffect_def by blast
  have "\<forall>s. fst ((f2 \<circ> f1) s) = (h \<circ> g) (fst s)" by (simp only: comp_apply f(2) [rule_format] f(4) [rule_format] simp_thms)
  then show ?thesis unfolding altEffect_def using does_append [OF f(1,3)] by blast
qed

lemma altEffect_id: "altEffect p id \<Longrightarrow> altEffect q id \<Longrightarrow> altEffect (p @ q) id"
  using altEffect_append [of p id q id] by simp

lemma altEffect_then: "altEffect p g \<Longrightarrow> altEffect q id \<Longrightarrow> altEffect (p @ q) g"
  using altEffect_append [of p g q id] by simp

lemma altEffect_last: "altEffect p id \<Longrightarrow> altEffect q g \<Longrightarrow> altEffect (p @ q) g"
  using altEffect_append [of p id q g] by simp

lemma does_altEffect: "does p id \<Longrightarrow> altEffect p id"
  unfolding altEffect_def by (intro exI [of _ id]) simp

lemma altEffect_Nil [alt_effects]: "altEffect [] id"
  by (rule does_altEffect [OF does_Nil])

lemma does_text: "\<forall>b\<in>set p. b < 0x80 \<and> b \<noteq> 0x1B \<Longrightarrow> does p id"
proof (induction p)
  case (Cons b p)
  have "step zeroScanner b = zeroScanner" "AtGround zeroScanner"
    using Cons.prems by (simp_all add: step_def stepGround_def zeroScanner_def AtGround_def)
  then have "does [b] id" by (simp add: does_def stepCore_def screenOf_def)
  moreover have "does p id" by (rule Cons.IH) (use Cons.prems in simp)
  ultimately have "does ([b] @ p) (id \<circ> id)" by (rule does_append)
  then show ?case by (simp only: append_Cons append_Nil id_o)
qed (rule does_Nil)

lemma does_esc:
  assumes "0x30 \<le> f" "f \<le> 0x7E" "f \<notin> {0x50, 0x58, 0x5B, 0x5D, 0x5E, 0x5F, 0x63}"
  shows "does [0x1B, f] id"
proof -
  have "f \<noteq> 0x1B" using assms(1) by auto
  then have "does [0x1B, f] (trackScreen [0x1B, f])"
    using tokenBytes_render [of "EscSeq [] f"] assms
    by (intro does_sequence [where p = "[]"]) (auto simp: maxTrackedSequence_def)
  moreover have "trackScreen [0x1B, f] = id" using assms(3) by (simp add: trackScreen_def fun_eq_iff)
  ultimately show ?thesis by simp
qed

lemma does_osc:
  assumes "\<forall>b\<in>set p. 0x20 \<le> b \<and> b < 0x80" "length p \<le> 61"
  shows "does (0x1B # 0x5D # p @ [0x07]) id"
proof -
  have n: "b \<noteq> 0x18 \<and> b \<noteq> 0x1A \<and> b \<noteq> 0x1B \<and> b \<noteq> 0x07" if "b \<in> set p" for b using assms(1) that by fastforce
  have "tokenBytes (0x1B # 0x5D # p @ [0x07])" using tokenBytes_render [of "OscBel p"] n by auto
  then have "does (0x1B # 0x5D # p @ [0x07]) (trackScreen (0x1B # 0x5D # p @ [0x07]))"
    using n assms(2) by (intro does_sequence [where p = "0x5D # p"]) (auto simp: maxTrackedSequence_def)
  moreover have "trackScreen (0x1B # 0x5D # p @ [0x07]) = id" by (simp add: trackScreen_def fun_eq_iff)
  ultimately show ?thesis by simp
qed

lemma altEffect_mode:
  assumes "\<forall>b\<in>set p. 0x30 \<le> b \<and> b \<le> 0x39" "length p \<le> 5" "p \<noteq> []" "parseModeParam p = Some n"
  shows "altEffect (0x1B # 0x5B # 0x3F # p @ [if on then 0x68 else 0x6C])
    (if n = 1049 \<or> n = 47 \<or> n = 1047 then (\<lambda>_. on) else id)"
  unfolding altEffect_def
  by (rule exI [of _ "setMode on n"], intro conjI allI, rule does_mode_csi [OF assms])
    (auto simp: setMode_def split: prod.split)

lemma altEffect_screen [alt_effects]:
  "altEffect (csi ''?1049h'') (\<lambda>_. True)" "altEffect (csi ''?1049l'') (\<lambda>_. False)"
  using altEffect_mode [of "str ''1049''" 1049 True] altEffect_mode [of "str ''1049''" 1049 False]
  by (simp_all add: csi_def parseModeParam_def)

lemma altEffect_modes [alt_effects]:
  "altEffect (csi ''?2026h'') id" "altEffect (csi ''?2026l'') id" "altEffect (csi ''?25h'') id"
  "altEffect (csi ''?1000l'') id" "altEffect (csi ''?1002l'') id" "altEffect (csi ''?1003l'') id"
  "altEffect (csi ''?1006l'') id" "altEffect (csi ''?1004l'') id" "altEffect (csi ''?2004l'') id"
  "altEffect (csi ''?1l'') id"
  using altEffect_mode [of "str ''2026''" 2026 True] altEffect_mode [of "str ''2026''" 2026 False]
    altEffect_mode [of "str ''25''" 25 True] altEffect_mode [of "str ''1000''" 1000 False]
    altEffect_mode [of "str ''1002''" 1002 False] altEffect_mode [of "str ''1003''" 1003 False]
    altEffect_mode [of "str ''1006''" 1006 False] altEffect_mode [of "str ''1004''" 1004 False]
    altEffect_mode [of "str ''2004''" 2004 False] altEffect_mode [of "str ''1''" 1 False]
  by (simp_all add: csi_def parseModeParam_def)

lemma altEffect_csi [alt_effects]:
  "altEffect (csi ''2J'') id" "altEffect (csi ''H'') id" "altEffect (csi ''m'') id" "altEffect (csi ''0m'') id"
  "altEffect (csi ''r'') id" "altEffect (csi ''2K'') id" "altEffect (csi ''48;5;236;38;5;250m'') id"
  "altEffect (csi ''22;0t'') id" "altEffect (csi ''23;0t'') id"
  using does_other_csi [of "str ''2''" "0x4A"] does_other_csi [of "[]" "0x48"] does_other_csi [of "[]" "0x6D"]
    does_other_csi [of "str ''0''" "0x6D"] does_other_csi [of "[]" "0x72"] does_other_csi [of "str ''2''" "0x4B"]
    does_other_csi [of "str ''48;5;236;38;5;250''" "0x6D"] does_other_csi [of "str ''22;0''" "0x74"]
    does_other_csi [of "str ''23;0''" "0x74"]
  by (auto intro!: does_altEffect simp: csi_def)

lemma altEffect_esc [alt_effects]: "altEffect (escSeq ''7'') id" "altEffect (escSeq ''8'') id"
  using does_esc [of "0x37"] does_esc [of "0x38"] by (auto intro!: does_altEffect simp: escSeq_def)

text \<open>A control sequence with one or two numbers.\<close>

lemma decimal_params:
  assumes "n < 100000" "b \<in> set (decimal n)"
  shows "0x20 \<le> b \<and> b \<le> 0x3F"
  using decimal_digits [OF assms(2)] by (auto intro: order.trans [of _ "0x30"] order.trans [of _ "0x39"])

lemma altEffect_row [alt_effects]: "altEffect (csi [] @ decimal (unat (row :: 16 word)) @ str '';1H'') id"
  and altEffect_region [alt_effects]: "altEffect (csi ''1;'' @ decimal (unat row) @ str ''r'') id"
proof -
  have n: "unat row < 100000" using unsigned_less [of row, where ?'a = nat] by simp
  then have l: "length (decimal (unat row)) \<le> 5" using length_decimal [of "unat row" 4] by simp
  note d = decimal_params [OF n]
  have "does (0x1B # 0x5B # (decimal (unat row) @ str '';1'') @ [0x48]) id"
    by (rule does_other_csi) (use d l in auto)
  then show "altEffect (csi [] @ decimal (unat row) @ str '';1H'') id" by (auto intro!: does_altEffect simp: csi_def)
  have "does (0x1B # 0x5B # (str ''1;'' @ decimal (unat row)) @ [0x72]) id"
    by (rule does_other_csi) (use d l in auto)
  then show "altEffect (csi ''1;'' @ decimal (unat row) @ str ''r'') id" by (auto intro!: does_altEffect simp: csi_def)
qed

lemma altEffect_hintText [alt_effects]: "altEffect detachHintStyle id" "altEffect detachHint id"
  by (simp add: detachHintStyle_def alt_effects, rule does_altEffect, rule does_text)
    (simp add: detachHint_def backslash_def)

lemma altEffect_hintLine [alt_effects]: "altEffect (hintLine row) id"
proof -
  have "altEffect (escSeq ''7'' @ (csi [] @ decimal (unat row) @ str '';1H'') @ detachHintStyle @ csi ''2K'' @ detachHint @
     csi ''0m'' @ escSeq ''8'') id"
    by (intro altEffect_id alt_effects)
  then show ?thesis by (simp add: hintLine_def)
qed

text \<open>A repaint never switches the physical screen.\<close>

lemma altEffect_paint:
  assumes "neutral screen" shows "altEffect (paintBytes v screen) id"
proof -
  have s: "altEffect screen id" using assms by (simp add: neutral_def does_altEffect)
  have "altEffect (if vreserved v then csi ''1;'' @ decimal (unat (vrows v)) @ str ''r'' else csi ''r'') id"
    using altEffect_region [of "vrows v"] by (simp add: alt_effects del: str_Cons)
  moreover have "altEffect (if vreserved v then hintLine (vrows v + 1) else []) id"
    by (simp add: alt_effects)
  ultimately show ?thesis unfolding paintBytes_def by (intro altEffect_id s alt_effects)
qed

end
