(* ===== verification/Attach_Models.thy ===== *)
theory Attach_Models
  imports Attach_View
begin

text \<open>
  \<open>attachmodels.go\<close>, with the mode of \<open>attach.go\<close> and the final texts of
  \<open>client_attach.go\<close>: the client-local terminal that mirrors the session and the choice of
  how it is presented. Each operation runs under \<open>m.mu\<close>; it returns the state and an error.
  A method call on a nil view would panic, which the flag \<open>panicked\<close> records. Theorems are in
  \<open>Attach_Presentation\<close>.
\<close>

section \<open>Modes and outcomes\<close>

definition AttachModeAuto :: string where "AttachModeAuto = ''auto''"
definition AttachModeIsolated :: string where "AttachModeIsolated = ''isolated''"
definition AttachModeNative :: string where "AttachModeNative = ''native''"

definition normalized :: "string \<Rightarrow> string option" where
  "normalized m =
     (if m = [] \<or> m = AttachModeAuto then Some AttachModeAuto
      else if m = AttachModeIsolated \<or> m = AttachModeNative then Some m
      else None)"

datatype presentation = PresentationPending | PresentationIsolated | PresentationNative
datatype attachOutcome = OutcomeAborted | OutcomeDetached | OutcomeSessionEnded | OutcomeDisconnected

definition outcomeMessage :: "attachOutcome \<Rightarrow> bytes" where
  "outcomeMessage oc =
     (case oc of
        OutcomeDetached \<Rightarrow> str ''Detached from session''
      | OutcomeSessionEnded \<Rightarrow> str ''Session ended''
      | OutcomeDisconnected \<Rightarrow> str ''Disconnected from session''
      | OutcomeAborted \<Rightarrow> [])"

definition crnl :: bytes where "crnl = [0x0D, 0x0A]"

definition isolatedEntry :: bytes where
  "isolatedEntry = csi ''?1049h'' @ csi ''2J'' @ csi ''H''"

definition nativeModeReset :: bytes where
  "nativeModeReset = csi ''?1000l'' @ csi ''?1002l'' @ csi ''?1003l'' @ csi ''?1006l'' @ csi ''?1004l'' @
     csi ''?2004l'' @ csi ''?1l''"

definition nativeCleanup :: bytes where
  "nativeCleanup = nativeModeReset @ csi ''?25h'' @ csi ''0m'' @ escSeq ''7'' @ csi ''r'' @ escSeq ''8''"

definition nativeTitleHint :: bytes where
  "nativeTitleHint = csi ''22;0t'' @ 0x1B # 0x5D # (str ''0;bgx: detach with ctrl+'' @ [backslash]) @ [0x07]"

record attachSnapshot =
  contents :: bytes
  snapCols :: "16 word"
  snapRows :: "16 word"
  snapPhysicalRows :: "16 word"
  snapWrittenRows :: "16 word"

definition emptySnapshot :: attachSnapshot where
  "emptySnapshot = \<lparr>contents = [], snapCols = 0, snapRows = 0, snapPhysicalRows = 0, snapWrittenRows = 0\<rparr>"

section \<open>The state\<close>

record 'g attachModels =
  mterm :: "'g terminal"
  mmode :: string
  showDetachInstructions :: bool
  phys :: physical
  viewErrs :: "goerr option"
  pres :: presentation
  view :: "attachView option"
  nativeEntered :: bool
  nativeHintRow :: "16 word"
  nativeHintOnPrimary :: bool
  mcols :: "16 word"
  mrows :: "16 word"
  physicalRows :: "16 word"
  panicked :: bool

definition DefaultCols :: "16 word" where "DefaultCols = 80"
definition DefaultRows :: "16 word" where "DefaultRows = 24"

definition newAttachModels :: "'g terminal \<Rightarrow> string \<Rightarrow> bool \<Rightarrow> physical \<Rightarrow> 'g attachModels" where
  "newAttachModels t mode hints ph =
     \<lparr>mterm = t, mmode = mode, showDetachInstructions = hints, phys = ph, viewErrs = None,
      pres = PresentationPending, view = None, nativeEntered = False, nativeHintRow = 0,
      nativeHintOnPrimary = False, mcols = DefaultCols, mrows = DefaultRows, physicalRows = DefaultRows,
      panicked = False\<rparr>"

text \<open>\<open>if err := \<dots>; err != nil { return err }\<close>\<close>

definition andThen :: "'m \<times> goerr option \<Rightarrow> ('m \<Rightarrow> 'm \<times> goerr option) \<Rightarrow> 'm \<times> goerr option" where
  "andThen r f = (case r of (m, Some e) \<Rightarrow> (m, Some e) | (m, None) \<Rightarrow> f m)"

definition emit :: "'g attachModels \<Rightarrow> bytes \<Rightarrow> 'g attachModels \<times> goerr option" where
  "emit m p = (case writeOut (phys m) p of (ph, e) \<Rightarrow> (m\<lparr>phys := ph\<rparr>, e))"

section \<open>Size\<close>

definition sessionRows :: "'g attachModels \<Rightarrow> 16 word \<Rightarrow> 16 word" where
  "sessionRows m pr =
     (if pres m = PresentationIsolated \<and> showDetachInstructions m \<and> pr > 1 then pr - 1 else pr)"

definition resizeLocked :: "'g ghostty \<Rightarrow> 'g attachModels \<Rightarrow> 16 word \<Rightarrow> 16 word \<Rightarrow> 'g attachModels \<times> goerr option" where
  "resizeLocked G m cols pr =
     (let rows = sessionRows m pr in
      case TResize G (mterm m) cols rows of
        Inl e \<Rightarrow> (m, Some (Errorf ''attach: resize terminal state: %w'' (vtErr e)))
      | Inr t \<Rightarrow>
          (m\<lparr>mterm := t, mcols := cols, mrows := rows, physicalRows := pr,
             view := map_option (\<lambda>v. setSize v rows (rows < pr)) (view m)\<rparr>, None))"

definition applyResize :: "'g ghostty \<Rightarrow> 'g attachModels \<Rightarrow> 16 word \<Rightarrow> 16 word \<Rightarrow>
    'g attachModels \<times> (goerr + 16 word)" where
  "applyResize G m cols pr =
     (if cols = 0 \<or> pr = 0 then (m, Inr 0)
      else case resizeLocked G m cols pr of (m, Some e) \<Rightarrow> (m, Inl e) | (m, None) \<Rightarrow> (m, Inr (mrows m)))"

section \<open>Presenting\<close>

definition enterIsolated :: "'g ghostty \<Rightarrow> 'g attachModels \<Rightarrow> 'g attachModels \<times> goerr option" where
  "enterIsolated G m =
     (let m = m\<lparr>pres := PresentationIsolated\<rparr> in
      andThen (resizeLocked G m (mcols m) (physicalRows m))
        (\<lambda>m. andThen (emit m isolatedEntry)
          (\<lambda>m. (m\<lparr>view := Some (newAttachView (mrows m) (mrows m < physicalRows m))\<rparr>, None))))"

definition startModels :: "'g ghostty \<Rightarrow> 'g attachModels \<Rightarrow> 'g attachModels \<times> goerr option" where
  "startModels G m =
     (if mmode m = AttachModeIsolated then enterIsolated G m
      else if mmode m = AttachModeNative then (m\<lparr>pres := PresentationNative\<rparr>, None)
      else (m, None))"

definition stopView :: "'g ghostty \<Rightarrow> 'g attachModels \<Rightarrow> 'g attachModels \<times> goerr option" where
  "stopView G m =
     (case view m of
        None \<Rightarrow> (m, None)
      | Some v \<Rightarrow> (case closeView G (mterm m) v (phys m) of (ph, e) \<Rightarrow> (m\<lparr>phys := ph, view := None\<rparr>, e)))"

definition leaveIsolated :: "'g ghostty \<Rightarrow> 'g attachModels \<Rightarrow> 'g attachModels \<times> goerr option" where
  "leaveIsolated G m =
     (let (m, err) = stopView G m;
          wasIsolated = (pres m = PresentationIsolated);
          m = m\<lparr>pres := PresentationNative\<rparr> in
      case resizeLocked G m (mcols m) (physicalRows m) of
        (m, Some re) \<Rightarrow> (m, errorsJoin [err, Some re])
      | (m, None) \<Rightarrow>
          if wasIsolated then
            (case emit m (csi ''?1049l'' @ csi ''r'') of (m, we) \<Rightarrow> (m, errorsJoin [err, we]))
          else (m, err))"

definition followActiveScreen :: "'g ghostty \<Rightarrow> 'g attachModels \<Rightarrow> 'g attachModels \<times> bool \<times> goerr option" where
  "followActiveScreen G m =
     (if mmode m \<noteq> AttachModeAuto then (m, False, None)
      else
        let want = (if alt (mterm m) then PresentationIsolated else PresentationNative) in
        if want = pres m then (m, False, None)
        else
          let previousRows = mrows m;
              (m, e) = (if want = PresentationIsolated then
                          andThen (if nativeEntered m then emit m nativeModeReset else (m, None)) (enterIsolated G)
                        else leaveIsolated G m) in
          (m, mrows m \<noteq> previousRows, e))"

definition enterNative :: "'g attachModels \<Rightarrow> 'g attachModels \<times> goerr option" where
  "enterNative m =
     (if nativeEntered m then (m, None)
      else
        let m = m\<lparr>nativeEntered := True\<rparr>;
            b = (if physicalRows m > 0 then
                   csi [] @ decimal (unat (physicalRows m)) @ str '';1H'' @ concat (replicate (unat (physicalRows m)) crnl)
                 else []) @ csi ''H'' @ (if showDetachInstructions m then nativeTitleHint else []) in
        emit m b)"

definition showNativeHintOnce :: "'g attachModels \<Rightarrow> 'g attachModels \<times> goerr option" where
  "showNativeHintOnce m =
     (if \<not> showDetachInstructions m \<or> nativeHintRow m \<noteq> 0 \<or> physicalRows m = 0 then (m, None)
      else
        let m = m\<lparr>nativeHintRow := min (writtenRows (mterm m) + 1) (physicalRows m),
                  nativeHintOnPrimary := \<not> alt (mterm m)\<rparr> in
        emit m (hintLine (nativeHintRow m)))"

definition nativeRepaint :: "'g ghostty \<Rightarrow> 'g attachModels \<Rightarrow> 'g attachModels \<times> (vt_error + bytes)" where
  "nativeRepaint G m =
     (if mmode m = AttachModeNative then
        (case TSnapshot G (mterm m) of (t, r) \<Rightarrow> (m\<lparr>mterm := t\<rparr>, r))
      else
        (m, case Format G (gterm (mterm m)) of
              Inl e \<Rightarrow> Inl e
            | Inr screen \<Rightarrow> Inr ((csi ''2J'' @ csi ''H'' @ csi ''0m'') @ screen @ modeSequences (mterm m))))"

definition markView :: "'g attachModels \<Rightarrow> 'g attachModels" where
  "markView m = (case view m of None \<Rightarrow> m\<lparr>panicked := True\<rparr> | Some v \<Rightarrow> m\<lparr>view := Some (markDirty v)\<rparr>)"

definition presentFromModel :: "'g ghostty \<Rightarrow> 'g attachModels \<Rightarrow> 'g attachModels \<times> goerr option" where
  "presentFromModel G m =
     (case pres m of
        PresentationIsolated \<Rightarrow> (markView m, None)
      | PresentationNative \<Rightarrow>
          andThen (enterNative m)
            (\<lambda>m. case nativeRepaint G m of
                   (m, Inl e) \<Rightarrow> (m, Some (Errorf ''attach: render terminal state: %w'' (vtErr e)))
                 | (m, Inr repaint) \<Rightarrow>
                     andThen (emit m repaint) (\<lambda>m. showNativeHintOnce (m\<lparr>nativeHintOnPrimary := False\<rparr>)))
      | PresentationPending \<Rightarrow> (m, None))"

definition presentRaw :: "'g attachModels \<Rightarrow> bytes \<Rightarrow> 'g attachModels \<times> goerr option" where
  "presentRaw m data =
     (case pres m of
        PresentationIsolated \<Rightarrow> (markView m, None)
      | PresentationNative \<Rightarrow> andThen (enterNative m) (\<lambda>m. andThen (emit m data) showNativeHintOnce)
      | PresentationPending \<Rightarrow> (m, None))"

section \<open>Output\<close>

text \<open>A switch consumes at least one byte, so the loop of \<open>applyOutput\<close> ends.\<close>

lemma switch_consumes:
  "WriteUntilScreenSwitch G t p = (t', before, n, switched) \<Longrightarrow> switched \<Longrightarrow> 0 < n"
  using writeLoop_stop [of G p 0 0 "-1" t t' before n switched]
  by (simp add: WriteUntilScreenSwitch_def writeTerminal_def)

function streamLoop :: "'g ghostty \<Rightarrow> 'g attachModels \<Rightarrow> bytes \<Rightarrow> bool \<Rightarrow> 'g attachModels \<times> bool \<times> goerr option" where
  "streamLoop G m data resized =
     (if data = [] then (m, resized, None)
      else
        case WriteUntilScreenSwitch G (mterm m) data of
          (t, before, n, switched) \<Rightarrow>
            (case (if before > 0 then presentRaw (m\<lparr>mterm := t\<rparr>) (take before data) else (m\<lparr>mterm := t\<rparr>, None)) of
               (m, Some e) \<Rightarrow> (m, resized, Some e)
             | (m, None) \<Rightarrow>
                 if \<not> switched then (m, resized, None)
                 else
                   (case followActiveScreen G m of
                      (m, transitioned, Some e) \<Rightarrow> (m, resized, Some e)
                    | (m, transitioned, None) \<Rightarrow>
                        (case presentFromModel G m of
                           (m, Some e) \<Rightarrow> (m, resized \<or> transitioned, Some e)
                         | (m, None) \<Rightarrow> streamLoop G m (drop n data) (resized \<or> transitioned)))))"
  by pat_completeness auto
termination
  by (relation "measure (\<lambda>(G, m, p, r). length p)") (auto dest: switch_consumes [OF sym])

declare streamLoop.simps [simp del]

definition applyOutput :: "'g ghostty \<Rightarrow> 'g attachModels \<Rightarrow> bytes \<Rightarrow> 'g attachModels \<times> bool \<times> goerr option" where
  "applyOutput G m data =
     (if pres m = PresentationPending \<or> HasPrefix data SnapshotPrefix then
        (case followActiveScreen G (m\<lparr>mterm := TWrite G (mterm m) data\<rparr>) of
           (m, resized, Some e) \<Rightarrow> (m, resized, Some e)
         | (m, resized, None) \<Rightarrow> (case presentFromModel G m of (m, e) \<Rightarrow> (m, resized, e)))
      else if mmode m \<noteq> AttachModeAuto then
        (case presentRaw (m\<lparr>mterm := TWrite G (mterm m) data\<rparr>) data of (m, e) \<Rightarrow> (m, False, e))
      else streamLoop G m data False)"

text \<open>A round of the painter goroutine of the active view.\<close>

definition paintModels :: "'g ghostty \<Rightarrow> 'g attachModels \<Rightarrow> 'g attachModels" where
  "paintModels G m =
     (case view m of
        None \<Rightarrow> m
      | Some v \<Rightarrow>
          (case paintRound G (mterm m) v (phys m) (viewErrs m) of
             (v, ph, errs) \<Rightarrow> m\<lparr>view := Some v, phys := ph, viewErrs := errs\<rparr>))"

section \<open>Finishing\<close>

definition nativeHintCleanup :: "'g ghostty \<Rightarrow> 'g attachModels \<Rightarrow> 'g attachModels \<times> bytes \<times> goerr option" where
  "nativeHintCleanup G m =
     (if nativeHintRow m = 0 \<or> \<not> nativeHintOnPrimary m then (m, [], None)
      else
        case DumpPrimaryScreen G (mterm m) of
          (t, Inl e) \<Rightarrow> (m\<lparr>mterm := t\<rparr>, [], Some (Errorf ''attach: render primary screen: %w'' (vtErr e)))
        | (t, Inr primary) \<Rightarrow> (m\<lparr>mterm := t\<rparr>, (csi ''2J'' @ csi ''H'' @ csi ''0m'') @ primary, None))"

definition snapshotLocked :: "'g ghostty \<Rightarrow> 'g attachModels \<Rightarrow> attachSnapshot \<times> vt_error option" where
  "snapshotLocked G m =
     (case Format G (gterm (mterm m)) of
        Inl e \<Rightarrow> (emptySnapshot, Some e)
      | Inr c \<Rightarrow> (\<lparr>contents = c, snapCols = mcols m, snapRows = mrows m, snapPhysicalRows = physicalRows m,
                   snapWrittenRows = writtenRows (mterm m)\<rparr>, None))"

definition finalAttachScreenPrefix :: "attachSnapshot \<Rightarrow> bytes" where
  "finalAttachScreenPrefix sn =
     csi ''?1049l'' @ csi ''r'' @
     (if snapPhysicalRows sn > 0 then
        (csi [] @ decimal (unat (snapPhysicalRows sn)) @ str '';1H'') @ concat (replicate (unat (snapPhysicalRows sn)) crnl)
      else []) @ csi ''H'' @ csi ''0m''"

definition finalAttachOutcomePosition :: "attachSnapshot \<Rightarrow> bytes" where
  "finalAttachOutcomePosition sn =
     (if snapCols sn = 0 \<or> snapRows sn = 0 \<or> snapPhysicalRows sn = 0 then crnl
      else if snapWrittenRows sn < snapPhysicalRows sn then
        (csi [] @ decimal (unat (snapWrittenRows sn + 1)) @ str '';1H'') @ csi ''2K''
      else (csi [] @ decimal (unat (snapPhysicalRows sn)) @ str '';1H'') @ crnl)"

definition finalAttachOutcomePrefix :: "attachSnapshot \<Rightarrow> bytes" where
  "finalAttachOutcomePrefix sn = csi ''?25h'' @ csi ''0m'' @ finalAttachOutcomePosition sn"

text \<open>\<open>retErr = errors.Join(retErr, err)\<close> when a write fails, and go on.\<close>

definition emitJoin :: "'g attachModels \<times> goerr option \<Rightarrow> bytes \<Rightarrow> 'g attachModels \<times> goerr option" where
  "emitJoin r p =
     (case r of (m, ret) \<Rightarrow>
        case emit m p of (m, None) \<Rightarrow> (m, ret) | (m, Some e) \<Rightarrow> (m, errorsJoin [ret, Some e]))"

definition finishReprint :: "'g ghostty \<Rightarrow> 'g attachModels \<Rightarrow> attachOutcome \<Rightarrow> goerr option \<Rightarrow> 'g attachModels \<times> goerr option" where
  "finishReprint G m oc hintErr =
     (case snapshotLocked G m of
        (sn, serr) \<Rightarrow>
          let ret = (case serr of
                       None \<Rightarrow> hintErr
                     | Some e \<Rightarrow> errorsJoin [hintErr, Some (Errorf ''attach: render final terminal state: %w'' (vtErr e))]) in
          case emit m (finalAttachScreenPrefix sn) of
            (m, Some e) \<Rightarrow> (m, errorsJoin [ret, Some e])
          | (m, None) \<Rightarrow>
              emitJoin (emitJoin (if length (contents sn) > 0 then emitJoin (m, ret) (contents sn) else (m, ret))
                (finalAttachOutcomePrefix sn)) (outcomeMessage oc @ crnl))"

definition finishDetached :: "'g attachModels \<Rightarrow> goerr option \<Rightarrow> 'g attachModels \<times> goerr option" where
  "finishDetached m hintErr =
     (case emit m (csi ''?1049l'' @
             (if nativeEntered m then nativeCleanup
              else if mrows m < physicalRows m then escSeq ''7'' @ csi ''r'' @ escSeq ''8'' else []) @
             crnl @ str ''Detached from session'' @ crnl) of
        (m, e) \<Rightarrow> (m, errorsJoin [hintErr, e]))"

definition finishIsolated :: "'g ghostty \<Rightarrow> 'g attachModels \<Rightarrow> attachOutcome \<Rightarrow> 'g attachModels \<times> goerr option" where
  "finishIsolated G m oc =
     (case nativeHintCleanup G m of
        (m, cleanup, hintErr) \<Rightarrow>
          (case (if cleanup \<noteq> [] then emit m (csi ''?1049l'' @ cleanup) else (m, None)) of
             (m, Some e) \<Rightarrow> (m, errorsJoin [hintErr, Some e])
           | (m, None) \<Rightarrow>
               if oc = OutcomeSessionEnded \<or> oc = OutcomeDisconnected then finishReprint G m oc hintErr
               else if oc = OutcomeDetached then finishDetached m hintErr
               else (case emit m (csi ''?1049l'') of (m, e) \<Rightarrow> (m, errorsJoin [hintErr, e]))))"

definition finishNative :: "'g ghostty \<Rightarrow> 'g attachModels \<Rightarrow> attachOutcome \<Rightarrow> 'g attachModels \<times> goerr option" where
  "finishNative G m oc =
     (let message = outcomeMessage oc in
      if \<not> nativeEntered m then
        (if message = [] then (m, None) else emit m (crnl @ message @ crnl))
      else
        let leftAlt = alt (mterm m);
            (sn, serr) = snapshotLocked G m;
            ret = map_option (\<lambda>e. Errorf ''attach: locate final terminal state: %w'' (vtErr e)) serr;
            (m, hintCleanup, hintErr) = nativeHintCleanup G m;
            ret = (if hintErr \<noteq> None then errorsJoin [ret, hintErr] else ret);
            sn = (if leftAlt then emptySnapshot else sn) in
        case emit m ((if leftAlt then csi ''?1049l'' else []) @ nativeCleanup @
               (if showDetachInstructions m then csi ''23;0t'' else []) @ hintCleanup @
               (if message \<noteq> [] then finalAttachOutcomePosition sn @ message @ crnl else [])) of
          (m, e) \<Rightarrow> (m, errorsJoin [ret, e]))"

definition finishModels :: "'g ghostty \<Rightarrow> 'g attachModels \<Rightarrow> attachOutcome \<Rightarrow> 'g attachModels \<times> goerr option" where
  "finishModels G m oc =
     (let (m, err) = stopView G m in
      case pres m of
        PresentationIsolated \<Rightarrow> (case finishIsolated G m oc of (m, e) \<Rightarrow> (m, errorsJoin [err, e]))
      | PresentationNative \<Rightarrow> (case finishNative G m oc of (m, e) \<Rightarrow> (m, errorsJoin [err, e]))
      | PresentationPending \<Rightarrow>
          let message = outcomeMessage oc in
          if message \<noteq> [] then
            (case emit m (crnl @ message @ crnl) of (m, e) \<Rightarrow> (m, errorsJoin [err, e]))
          else (m, err))"

end
