(* ===== verification/Attach_Presentation.thy ===== *)
theory Attach_Presentation
  imports Attach_Models
begin

text \<open>
  What \<open>Attach_Models\<close> promises. The invariant ties presentation, view, advertised height and
  the mirrored screen together; the model mirrors the session byte for byte in every mode; an
  isolated attachment shows nothing but its own repaints; and finishing always leaves the physical
  terminal on its primary screen.
\<close>

section \<open>What the operations leave alone\<close>

definition core_of :: "'g attachModels \<Rightarrow> core" where "core_of m = coreOf (mterm m)"

lemma andThen_None: "andThen r f = (m', None) \<longleftrightarrow> (\<exists>m. r = (m, None) \<and> f m = (m', None))"
  by (auto simp: andThen_def split: prod.splits option.splits)

lemma emit_fields:
  assumes "emit m p = (m', e)"
  shows "mterm m' = mterm m" "mmode m' = mmode m" "showDetachInstructions m' = showDetachInstructions m"
    "viewErrs m' = viewErrs m" "pres m' = pres m" "view m' = view m" "nativeEntered m' = nativeEntered m"
    "nativeHintRow m' = nativeHintRow m" "nativeHintOnPrimary m' = nativeHintOnPrimary m" "mcols m' = mcols m"
    "mrows m' = mrows m" "physicalRows m' = physicalRows m" "panicked m' = panicked m"
proof -
  obtain ph x where "writeOut (phys m) p = (ph, x)" by fastforce
  then have "m' = m\<lparr>phys := ph\<rparr>" using assms by (simp add: emit_def)
  then show "mterm m' = mterm m" "mmode m' = mmode m" "showDetachInstructions m' = showDetachInstructions m"
    "viewErrs m' = viewErrs m" "pres m' = pres m" "view m' = view m" "nativeEntered m' = nativeEntered m"
    "nativeHintRow m' = nativeHintRow m" "nativeHintOnPrimary m' = nativeHintOnPrimary m" "mcols m' = mcols m"
    "mrows m' = mrows m" "physicalRows m' = physicalRows m" "panicked m' = panicked m" by simp_all
qed

text \<open>What presenting leaves alone.\<close>

definition kept :: "'g attachModels \<Rightarrow> 'g attachModels \<Rightarrow> bool" where
  "kept m m' \<longleftrightarrow> coreOf (mterm m') = coreOf (mterm m) \<and> mmode m' = mmode m \<and>
     showDetachInstructions m' = showDetachInstructions m \<and> physicalRows m' = physicalRows m \<and> panicked m' = panicked m"

lemma kept_refl [simp]: "kept m m" by (simp add: kept_def)
lemma kept_trans: "kept m n \<Longrightarrow> kept n k \<Longrightarrow> kept m k" by (simp add: kept_def)
lemma kept_emit:
  assumes "emit m p = (m', e)" shows "kept m m'"
  unfolding kept_def emit_fields(1-3,12,13) [OF assms] by (intro conjI refl)

text \<open>The presentation a mode wants for a session on the given screen.\<close>

definition presents :: "string \<Rightarrow> bool \<Rightarrow> presentation" where
  "presents mode a =
     (if mode = AttachModeIsolated then PresentationIsolated
      else if mode = AttachModeNative then PresentationNative
      else if a then PresentationIsolated else PresentationNative)"

lemmas mode_defs = AttachModeAuto_def AttachModeIsolated_def AttachModeNative_def

lemma sessionRows_cong:
  "pres m' = pres m \<Longrightarrow> showDetachInstructions m' = showDetachInstructions m \<Longrightarrow> sessionRows m' r = sessionRows m r"
  by (simp add: sessionRows_def)

lemma TResize_core: "TResize G t c r = Inr t' \<Longrightarrow> coreOf t' = coreOf t"
  by (auto simp: TResize_def coreOf_def split: sum.splits)

lemma alt_core: "coreOf t = coreOf u \<Longrightarrow> alt t = alt u"
  by (simp add: coreOf_def)

lemma kept_alt: "kept m m' \<Longrightarrow> alt (mterm m') = alt (mterm m)"
  by (rule alt_core) (simp add: kept_def)

lemma resizeLocked_ok:
  assumes "resizeLocked G m c r = (m', None)"
  shows "mrows m' = sessionRows m r" "physicalRows m' = r" "pres m' = pres m" "mmode m' = mmode m"
    "showDetachInstructions m' = showDetachInstructions m" "coreOf (mterm m') = coreOf (mterm m)"
    "panicked m' = panicked m" "(view m' = None) = (view m = None)" "phys m' = phys m"
proof -
  obtain t where t: "TResize G (mterm m) c (sessionRows m r) = Inr t"
    using assms by (auto simp: resizeLocked_def Let_def split: sum.splits)
  then have m': "m' = m\<lparr>mterm := t, mcols := c, mrows := sessionRows m r, physicalRows := r,
      view := map_option (\<lambda>v. setSize v (sessionRows m r) (sessionRows m r < r)) (view m)\<rparr>"
    using assms by (simp add: resizeLocked_def Let_def)
  show "mrows m' = sessionRows m r" "physicalRows m' = r" "pres m' = pres m" "mmode m' = mmode m"
    "showDetachInstructions m' = showDetachInstructions m" "coreOf (mterm m') = coreOf (mterm m)"
    "panicked m' = panicked m" "(view m' = None) = (view m = None)" "phys m' = phys m"
    unfolding m' using TResize_core [OF t] by simp_all
qed

text \<open>The presentation is as wanted, with a view just when it is isolated.\<close>

definition presented :: "presentation \<Rightarrow> 'g attachModels \<Rightarrow> bool" where
  "presented p m \<longleftrightarrow> pres m = p \<and> (view m \<noteq> None \<longleftrightarrow> p = PresentationIsolated) \<and> mrows m = sessionRows m (physicalRows m)"

lemma enterIsolated_ok:
  assumes "enterIsolated G m = (m', None)"
  shows "presented PresentationIsolated m' \<and> kept m m'"
proof -
  let ?m = "m\<lparr>pres := PresentationIsolated\<rparr>"
  obtain m1 m2 where r: "resizeLocked G ?m (mcols ?m) (physicalRows ?m) = (m1, None)"
    and e: "emit m1 isolatedEntry = (m2, None)"
    and v: "m' = m2\<lparr>view := Some (newAttachView (mrows m2) (mrows m2 < physicalRows m2))\<rparr>"
    using assms unfolding enterIsolated_def Let_def andThen_None by blast
  show ?thesis unfolding v
    by (simp add: presented_def kept_def emit_fields [OF e] resizeLocked_ok [OF r] sessionRows_def)
qed

lemma stopView_fields:
  assumes "stopView G m = (m', e)"
  shows "kept m m'" "pres m' = pres m" "view m' = None" "mcols m' = mcols m" "mrows m' = mrows m"
proof -
  obtain ph where "m' = m\<lparr>phys := ph, view := None\<rparr>"
  proof (cases "view m")
    case None
    then show thesis using assms that [of "phys m"] by (simp add: stopView_def)
  next
    case (Some v)
    obtain ph x where "closeView G (mterm m) v (phys m) = (ph, x)" by fastforce
    then show thesis using Some assms that [of ph] by (simp add: stopView_def)
  qed
  then show "kept m m'" "pres m' = pres m" "view m' = None" "mcols m' = mcols m" "mrows m' = mrows m"
    by (simp_all add: kept_def)
qed

lemma errorsJoin_two: "errorsJoin [a, b] = None \<longleftrightarrow> a = None \<and> b = None"
  by (simp add: errorsJoin_None)

lemma leaveIsolated_ok:
  assumes "leaveIsolated G m = (m', None)"
  shows "presented PresentationNative m' \<and> kept m m'"
proof -
  obtain m1 e1 where s: "stopView G m = (m1, e1)" by fastforce
  let ?m = "m1\<lparr>pres := PresentationNative\<rparr>"
  obtain m2 e2 where r: "resizeLocked G ?m (mcols m1) (physicalRows m1) = (m2, e2)" by fastforce
  obtain m3 e3 where w: "emit m2 (csi ''?1049l'' @ csi ''r'') = (m3, e3)" by fastforce
  have "leaveIsolated G m = (case e2 of Some re \<Rightarrow> (m2, errorsJoin [e1, Some re])
      | None \<Rightarrow> if pres m1 = PresentationIsolated then (m3, errorsJoin [e1, e3]) else (m2, e1))"
    by (simp add: leaveIsolated_def s r w split: option.split)
  then have l: "(m', None) = (case e2 of Some re \<Rightarrow> (m2, errorsJoin [e1, Some re])
      | None \<Rightarrow> if pres m1 = PresentationIsolated then (m3, errorsJoin [e1, e3]) else (m2, e1))"
    unfolding assms .
  have e2: "e2 = None"
  proof (cases e2)
    case (Some x)
    then have "errorsJoin [e1, e2] = None" using l by simp
    then show ?thesis by (simp add: errorsJoin_None)
  qed
  then have m': "m' = (if pres m1 = PresentationIsolated then m3 else m2)"
    using l by (simp split: if_splits)
  note R = resizeLocked_ok [OF r [unfolded e2]]
  have "kept m1 m2" "presented PresentationNative m2"
    using R stopView_fields [OF s] by (simp_all add: kept_def presented_def sessionRows_def)
  moreover have "kept m2 m'" "presented PresentationNative m2 \<Longrightarrow> presented PresentationNative m'"
    using kept_emit [OF w] m' by (simp_all add: presented_def sessionRows_def emit_fields [OF w])
  ultimately show ?thesis using stopView_fields(1) [OF s] kept_trans by blast
qed

lemma followActiveScreen_ok:
  assumes "followActiveScreen G m = (m', resized, None)" "presented (pres m) m"
    "mmode m \<noteq> AttachModeAuto \<Longrightarrow> pres m = presents (mmode m) (alt (mterm m))"
  shows "presented (presents (mmode m) (alt (mterm m))) m' \<and> kept m m'"
proof (cases "mmode m = AttachModeAuto")
  case False
  then show ?thesis using assms by (simp add: followActiveScreen_def)
next
  case True
  let ?want = "if alt (mterm m) then PresentationIsolated else PresentationNative"
  have want: "presents (mmode m) (alt (mterm m)) = ?want" using True by (simp add: presents_def mode_defs)
  show ?thesis
  proof (cases "?want = pres m")
    case same: True
    then have "m' = m" using assms(1) True by (simp add: followActiveScreen_def Let_def split: if_splits)
    then show ?thesis using assms(2) want same by simp
  next
    case ne: False
    show ?thesis
    proof (cases "alt (mterm m)")
      case a: True
      define r where "r = andThen (if nativeEntered m then emit m nativeModeReset else (m, None)) (enterIsolated G)"
      have "r = (m', None)"
        using assms(1) True ne a unfolding followActiveScreen_def Let_def r_def [symmetric] by (cases r) simp
      then have "andThen (if nativeEntered m then emit m nativeModeReset else (m, None)) (enterIsolated G) = (m', None)"
        by (simp only: r_def)
      then obtain m1 where m1: "(if nativeEntered m then emit m nativeModeReset else (m, None)) = (m1, None)"
          "enterIsolated G m1 = (m', None)"
        unfolding andThen_None by blast
      have "kept m m1" using m1(1) kept_emit [of m nativeModeReset m1 None] by (cases "nativeEntered m") simp_all
      then show ?thesis using enterIsolated_ok [OF m1(2)] want a kept_trans by auto
    next
      case a: False
      then have "leaveIsolated G m = (m', None)"
        using assms(1) True ne unfolding followActiveScreen_def Let_def by (simp split: prod.splits)
      then show ?thesis using leaveIsolated_ok want a by auto
    qed
  qed
qed


text \<open>Presenting moves nothing but the physical terminal, the hint and the view's wake-up.\<close>

definition steady :: "'g attachModels \<Rightarrow> 'g attachModels \<Rightarrow> bool" where
  "steady m m' \<longleftrightarrow> kept m m' \<and> pres m' = pres m \<and> (view m' = None) = (view m = None) \<and> mrows m' = mrows m"

lemma steady_refl [simp]: "steady m m" by (simp add: steady_def)

lemma steady_trans: "steady m n \<Longrightarrow> steady n k \<Longrightarrow> steady m k"
  unfolding steady_def by (auto intro: kept_trans)

lemma steady_presented: "steady m m' \<Longrightarrow> presented p m \<Longrightarrow> presented p m'"
  by (simp add: steady_def presented_def kept_def sessionRows_def)

lemma steady_emit:
  assumes "emit m p = (m', e)" shows "steady m m'"
  using kept_emit [OF assms] by (simp add: steady_def emit_fields [OF assms])

lemma steady_enterNative: "enterNative m = (m', e) \<Longrightarrow> steady m m'"
proof (cases "nativeEntered m")
  case False
  let ?m = "m\<lparr>nativeEntered := True\<rparr>"
  assume "enterNative m = (m', e)"
  with False obtain b where "emit ?m b = (m', e)" by (simp add: enterNative_def Let_def)
  then have "steady ?m m'" by (rule steady_emit)
  moreover have "steady m ?m" by (simp add: steady_def kept_def)
  ultimately show ?thesis using steady_trans by blast
qed (simp add: enterNative_def)

lemma steady_hint: "showNativeHintOnce m = (m', e) \<Longrightarrow> steady m m'"
proof (cases "\<not> showDetachInstructions m \<or> nativeHintRow m \<noteq> 0 \<or> physicalRows m = 0")
  case False
  let ?m = "m\<lparr>nativeHintRow := min (writtenRows (mterm m) + 1) (physicalRows m), nativeHintOnPrimary := \<not> alt (mterm m)\<rparr>"
  assume "showNativeHintOnce m = (m', e)"
  with False have "emit ?m (hintLine (nativeHintRow ?m)) = (m', e)" by (simp add: showNativeHintOnce_def Let_def)
  then have "steady ?m m'" by (rule steady_emit)
  moreover have "steady m ?m" by (simp add: steady_def kept_def)
  ultimately show ?thesis using steady_trans by blast
qed (simp add: showNativeHintOnce_def)

lemma steady_andThen:
  assumes "andThen r f = (m', e)" "steady m (fst r)" "\<And>n k e. f n = (k, e) \<Longrightarrow> steady n k"
  shows "steady m m'"
proof -
  obtain n x where r: "r = (n, x)" by fastforce
  show ?thesis
  proof (cases x)
    case None
    then have "f n = (m', e)" using assms(1) r by (simp add: andThen_def)
    then show ?thesis using assms(2,3) r steady_trans by fastforce
  next
    case (Some y)
    then show ?thesis using assms(1,2) r by (simp add: andThen_def)
  qed
qed

lemma steady_repaint: "nativeRepaint G m = (m', r) \<Longrightarrow> steady m m'"
proof (cases "mmode m = AttachModeNative")
  case True
  assume "nativeRepaint G m = (m', r)"
  moreover obtain t x where t: "TSnapshot G (mterm m) = (t, x)" by fastforce
  ultimately have "m' = m\<lparr>mterm := t\<rparr>" using True by (simp add: nativeRepaint_def)
  then show ?thesis using TSnapshot_core [OF t] by (simp add: steady_def kept_def)
qed (simp add: nativeRepaint_def)

lemma steady_markView: "view m \<noteq> None \<Longrightarrow> steady m (markView m)"
  by (auto simp: markView_def steady_def kept_def)

lemma steady_presentFromModel:
  assumes "presentFromModel G m = (m', e)" "presented (pres m) m"
  shows "steady m m'"
proof (cases "pres m")
  case PresentationIsolated
  then show ?thesis using assms steady_markView [of m] by (simp add: presentFromModel_def presented_def)
next
  case PresentationNative
  define f where "f = (\<lambda>m. case nativeRepaint G m of
      (m, Inl e) \<Rightarrow> (m, Some (Errorf ''attach: render terminal state: %w'' (vtErr e)))
    | (m, Inr repaint) \<Rightarrow> andThen (emit m repaint) (\<lambda>m. showNativeHintOnce (m\<lparr>nativeHintOnPrimary := False\<rparr>)))"
  have h: "steady n k" if "showNativeHintOnce (n\<lparr>nativeHintOnPrimary := False\<rparr>) = (k, e)" for n k :: "'a attachModels" and e
  proof -
    have "steady n (n\<lparr>nativeHintOnPrimary := False\<rparr>)" by (simp add: steady_def kept_def)
    then show ?thesis using steady_hint [OF that] steady_trans by blast
  qed
  have f: "f n = (k, e) \<Longrightarrow> steady n k" for n k e
  proof -
    assume fn: "f n = (k, e)"
    obtain u r where u: "nativeRepaint G n = (u, r)" by fastforce
    show ?thesis
    proof (cases r)
      case (Inl x)
      then show ?thesis using fn u steady_repaint by (simp add: f_def)
    next
      case (Inr p)
      then have a: "andThen (emit u p) (\<lambda>m. showNativeHintOnce (m\<lparr>nativeHintOnPrimary := False\<rparr>)) = (k, e)"
        using fn u by (simp add: f_def)
      have "steady u k" by (rule steady_andThen [OF a steady_emit [OF surjective_pairing] h])
      then show ?thesis using steady_repaint [OF u] steady_trans by blast
    qed
  qed
  have "andThen (enterNative m) f = (m', e)" using assms(1) PresentationNative by (simp add: presentFromModel_def f_def)
  then show ?thesis by (rule steady_andThen [OF _ steady_enterNative [OF surjective_pairing] f])
qed (use assms in \<open>simp add: presentFromModel_def\<close>)

lemma steady_presentRaw:
  assumes "presentRaw m p = (m', e)" "presented (pres m) m"
  shows "steady m m'"
proof (cases "pres m")
  case PresentationIsolated
  then show ?thesis using assms steady_markView [of m] by (simp add: presentRaw_def presented_def)
next
  case PresentationNative
  then have a: "andThen (enterNative m) (\<lambda>m. andThen (emit m p) showNativeHintOnce) = (m', e)"
    using assms(1) by (simp add: presentRaw_def)
  have "steady n k" if "andThen (emit n p) showNativeHintOnce = (k, e)" for n k :: "'a attachModels" and e
    by (rule steady_andThen [OF that steady_emit [OF surjective_pairing] steady_hint])
  then show ?thesis by (rule steady_andThen [OF a steady_enterNative [OF surjective_pairing]])
qed (use assms in \<open>simp add: presentRaw_def\<close>)

section \<open>Output\<close>

lemma switch_core:
  assumes "WriteUntilScreenSwitch G t p = (t', before, n, switched)"
  shows "coreOf t' = foldl stepCore (coreOf t) (take n p) \<and> switched = (alt t' \<noteq> alt t) \<and> (\<not> switched \<longrightarrow> n = length p)"
proof -
  have "t' = fst (writeLoop G (take n p) False 0 0 (-1) t) \<and>
    before \<le> n \<and> 0 \<le> n \<and> n \<le> length p \<and> switched = (alt t' \<noteq> alt t) \<and>
    (if switched then 0 < n else n = length p) \<and>
    (\<forall>k < n - 0. altAfter (coreOf t) (take k (drop 0 p)) = alt t)"
    by (rule writeLoop_stop) (use assms in \<open>simp_all add: WriteUntilScreenSwitch_def writeTerminal_def\<close>)
  then have "t' = TWrite G t (take n p)" "switched = (alt t' \<noteq> alt t)" "\<not> switched \<longrightarrow> n = length p"
    unfolding TWrite_def writeTerminal_def by (blast, blast, metis)
  then show ?thesis using TWrite_core [of G t "take n p"] by metis
qed


text \<open>Presentation and view fit the mode and the session's screen.\<close>

definition fits :: "'g attachModels \<Rightarrow> bool" where
  "fits m \<longleftrightarrow> presented (presents (mmode m) (alt (mterm m))) m"

lemma fits_presented: "fits m \<Longrightarrow> presented (pres m) m"
  by (simp add: fits_def presented_def)

lemma fits_steady: "steady m m' \<Longrightarrow> fits m \<Longrightarrow> fits m'"
  using steady_presented [of m m'] kept_alt [of m m'] by (simp add: fits_def steady_def kept_def)

lemma mterm_kept: "panicked (m\<lparr>mterm := t\<rparr>) = panicked m" "mmode (m\<lparr>mterm := t\<rparr>) = mmode m"
  "showDetachInstructions (m\<lparr>mterm := t\<rparr>) = showDetachInstructions m" "physicalRows (m\<lparr>mterm := t\<rparr>) = physicalRows m"
  by simp_all

lemma streamLoop_ok:
  "streamLoop G m data r = (m', r', None) \<Longrightarrow> fits m \<Longrightarrow> mmode m = AttachModeAuto \<Longrightarrow>
    fits m' \<and> coreOf (mterm m') = foldl stepCore (coreOf (mterm m)) data \<and> mmode m' = mmode m \<and>
    panicked m' = panicked m \<and> showDetachInstructions m' = showDetachInstructions m \<and> physicalRows m' = physicalRows m"
proof (induction G m data r rule: streamLoop.induct)
  case (1 G m data r)
  show ?case
  proof (cases "data = []")
    case True
    then show ?thesis using "1.prems" by (simp add: streamLoop.simps [of G m "[]"])
  next
    case False
    obtain t before n sw where w: "WriteUntilScreenSwitch G (mterm m) data = (t, before, n, sw)" by (metis prod_cases4)
    let ?m = "m\<lparr>mterm := t\<rparr>"
    note W = switch_core [OF w]
    have pm: "presented (pres ?m) ?m" using fits_presented [OF "1.prems"(2)] by (simp add: presented_def sessionRows_def)
    obtain m1 e1 where p: "(if before > 0 then presentRaw ?m (take before data) else (?m, None)) = (m1, e1)" by fastforce
    have s1: "steady ?m m1" using p steady_presentRaw [OF _ pm] by (cases "before > 0") auto
    have e1: "e1 = None" using "1.prems"(1) False w p by (simp add: streamLoop.simps [of G m data] split: option.splits)
    show ?thesis
    proof (cases sw)
      case nsw: False
      then have m': "m' = m1" using "1.prems"(1) False w p e1 by (simp add: streamLoop.simps [of G m data])
      have "fits ?m" using "1.prems"(2) W nsw by (simp add: fits_def presented_def sessionRows_def)
      then show ?thesis using fits_steady [OF s1] s1 W nsw m' by (simp add: steady_def kept_def)
    next
      case sw: True
      obtain m2 tr e2 where f: "followActiveScreen G m1 = (m2, tr, e2)" by (metis prod_cases3)
      obtain m3 e3 where q: "presentFromModel G m2 = (m3, e3)" by fastforce
      have e2: "e2 = None" and e3: "e3 = None"
        and rest: "streamLoop G m3 (drop n data) (r \<or> tr) = (m', r', None)"
        using "1.prems"(1) False w p e1 sw f q by (simp_all add: streamLoop.simps [of G m data] split: option.splits)
      have auto1: "mmode m1 = AttachModeAuto" using s1 "1.prems"(3) by (simp add: steady_def kept_def)
      have p1: "presented (pres m1) m1" using steady_presented [OF s1 pm] by (simp add: presented_def)
      have F: "presented (presents (mmode m1) (alt (mterm m1))) m2" "kept m1 m2"
        using followActiveScreen_ok [OF f [unfolded e2] p1] auto1 by simp_all
      have "fits m2" using F kept_alt [OF F(2)] by (simp add: fits_def kept_def)
      moreover have s3: "steady m2 m3" using steady_presentFromModel [OF q] fits_presented calculation by blast
      ultimately have "fits m3" using fits_steady by blast
      moreover have k: "kept ?m m3" using s1 F(2) s3 kept_trans unfolding steady_def by blast
      moreover have "mmode m3 = AttachModeAuto" using k "1.prems"(3) by (simp add: kept_def)
      moreover note IH = "1.IH" [OF False w [symmetric] refl refl p [symmetric] e1 _ f [symmetric] refl e2 q [symmetric] e3]
      ultimately have "fits m' \<and> coreOf (mterm m') = foldl stepCore (coreOf (mterm m3)) (drop n data) \<and> mmode m' = mmode m3 \<and>
          panicked m' = panicked m3 \<and> showDetachInstructions m' = showDetachInstructions m3 \<and> physicalRows m' = physicalRows m3"
        using rest sw by (intro IH) simp_all
      moreover have "coreOf (mterm m3) = foldl stepCore (coreOf (mterm m)) (take n data)" using k W by (simp add: kept_def)
      moreover have "foldl stepCore (coreOf (mterm m)) data =
          foldl stepCore (foldl stepCore (coreOf (mterm m)) (take n data)) (drop n data)"
        by (simp flip: foldl_append)
      ultimately show ?thesis using k by (simp add: kept_def)
    qed
  qed
qed


text \<open>Before the first frame an automatic attachment presents nothing.\<close>

definition well_presented :: "'g attachModels \<Rightarrow> bool" where
  "well_presented m \<longleftrightarrow> \<not> panicked m \<and>
     (fits m \<or> pres m = PresentationPending \<and> mmode m = AttachModeAuto \<and> presented PresentationPending m)"

lemma applyOutput_ok:
  assumes "applyOutput G m data = (m', resized, None)" "well_presented m" "mmode m \<in> {AttachModeAuto, AttachModeIsolated, AttachModeNative}"
  shows "well_presented m' \<and> fits m' \<and> coreOf (mterm m') = foldl stepCore (coreOf (mterm m)) data \<and> mmode m' = mmode m \<and>
    showDetachInstructions m' = showDetachInstructions m \<and> physicalRows m' = physicalRows m"
proof -
  let ?m = "m\<lparr>mterm := TWrite G (mterm m) data\<rparr>"
  have pm: "presented (pres ?m) ?m" "panicked ?m = panicked m"
    using assms(2) fits_presented [of m] by (auto simp: well_presented_def presented_def sessionRows_def)
  have c: "coreOf (mterm ?m) = foldl stepCore (coreOf (mterm m)) data" by (simp add: TWrite_core)
  have np: "\<not> panicked m" using assms(2) by (simp add: well_presented_def)
  consider (sync) "pres m = PresentationPending \<or> HasPrefix data SnapshotPrefix"
    | (forced) "\<not> (pres m = PresentationPending \<or> HasPrefix data SnapshotPrefix)" "mmode m \<noteq> AttachModeAuto"
    | (auto) "\<not> (pres m = PresentationPending \<or> HasPrefix data SnapshotPrefix)" "mmode m = AttachModeAuto"
    by blast
  then show ?thesis
  proof cases
    case sync
    obtain m1 r1 e1 where f: "followActiveScreen G ?m = (m1, r1, e1)" by (metis prod_cases3)
    obtain m2 e2 where q: "presentFromModel G m1 = (m2, e2)" by fastforce
    have "(m', resized, None) = (case e1 of Some e \<Rightarrow> (m1, r1, Some e) | None \<Rightarrow> (m2, r1, e2))"
      unfolding assms(1) [symmetric] applyOutput_def if_P [OF sync] f by (simp add: q split: option.split)
    then have e: "e1 = None" "e2 = None" "m' = m2" by (cases e1; simp)+
    have forced: "mmode m \<noteq> AttachModeAuto \<Longrightarrow> pres ?m = presents (mmode ?m) (alt (mterm ?m))"
      using assms(2,3) by (auto simp: well_presented_def fits_def presented_def presents_def mode_defs)
    note F = followActiveScreen_ok [OF f [unfolded e] pm(1)]
    have F: "presented (presents (mmode ?m) (alt (mterm ?m))) m1" "kept ?m m1"
      using F forced by simp_all
    then have "fits m1" using kept_alt [OF F(2)] by (simp add: fits_def kept_def)
    moreover have "steady m1 m'"
      unfolding e(3) by (rule steady_presentFromModel [OF q fits_presented [OF calculation]])
    ultimately have "fits m'" by (intro fits_steady [of m1 m'])
    moreover have "kept ?m m'" using kept_trans [OF F(2), of m'] \<open>steady m1 m'\<close> by (simp add: steady_def)
    ultimately show ?thesis using c np by (simp add: well_presented_def kept_def)
  next
    case forced
    obtain m1 e1 where p: "presentRaw ?m data = (m1, e1)" by fastforce
    have "m' = m1" using assms(1) forced p by (simp add: applyOutput_def)
    then have s: "steady ?m m'" using steady_presentRaw [OF p pm(1)] by simp
    have "fits m" using assms(2) forced by (simp add: well_presented_def)
    then have "fits ?m" using forced(2) assms(3) by (auto simp: fits_def presented_def presents_def sessionRows_def mode_defs)
    then show ?thesis using fits_steady [OF s] s c np by (simp add: well_presented_def steady_def kept_def)
  next
    case auto
    have "streamLoop G m data False = (m', resized, None)" using assms(1) auto by (simp add: applyOutput_def)
    moreover have "fits m" using assms(2) auto by (simp add: well_presented_def)
    ultimately show ?thesis using streamLoop_ok [of G m data False m' resized] auto np by (simp add: well_presented_def)
  qed
qed

text \<open>
  C7. The client's model is the session: in every presentation mode, and however the output is cut
  into frames and split at screen switches, an output frame that was handled without an error has
  been applied to the model exactly as one write of all its bytes.
\<close>

theorem applyOutput_mirrors:
  assumes "applyOutput G m data = (m', resized, None)" "well_presented m" "normalized (mmode m) = Some (mmode m)"
  shows "scan (mterm m') = scan (TWrite G (mterm m) data) \<and> alt (mterm m') = alt (TWrite G (mterm m) data) \<and>
    modes (mterm m') = modes (TWrite G (mterm m) data)"
proof -
  have "mmode m \<in> {AttachModeAuto, AttachModeIsolated, AttachModeNative}"
    using assms(3) by (auto simp: normalized_def split: if_splits)
  from applyOutput_ok [OF assms(1,2) this] have "coreOf (mterm m') = coreOf (TWrite G (mterm m) data)"
    by (simp add: TWrite_core)
  then show ?thesis by (simp add: coreOf_def)
qed

section \<open>What reaches the physical terminal\<close>

text \<open>With a terminal that takes its writes.\<close>

definition emits :: "'g attachModels \<Rightarrow> 'g attachModels \<Rightarrow> (bool \<Rightarrow> bool) \<Rightarrow> bool" where
  "emits m m' g \<longleftrightarrow> (\<exists>p. shown (phys m') = shown (phys m) @ p \<and> altEffect p g) \<and> answers (phys m') = []"

lemma emit_working:
  "answers (phys m) = [] \<Longrightarrow> emit m p = (m\<lparr>phys := \<lparr>shown = shown (phys m) @ p, answers = []\<rparr>\<rparr>, None)"
  by (cases "phys m") (simp add: emit_def writeOut_def)

lemma emits_refl: "answers (phys m) = [] \<Longrightarrow> emits m m id"
  by (auto simp: emits_def alt_effects)

lemma emits_trans: "emits m n g \<Longrightarrow> emits n k h \<Longrightarrow> emits m k (h \<circ> g)"
  unfolding emits_def using altEffect_append by (metis append_assoc)

lemma emits_emit: "answers (phys m) = [] \<Longrightarrow> altEffect p g \<Longrightarrow> emit m p = (m', e) \<Longrightarrow> emits m m' g \<and> e = None"
  by (auto simp: emit_working emits_def)

lemma emits_phys: "phys m' = phys m \<Longrightarrow> answers (phys m) = [] \<Longrightarrow> emits m m' id"
  by (auto simp: emits_def alt_effects)

lemma altEffect_text: "\<forall>b\<in>set p. b < 0x80 \<and> b \<noteq> 0x1B \<Longrightarrow> altEffect p id"
  by (rule does_altEffect [OF does_text])

lemma altEffect_crnl [alt_effects]: "altEffect crnl id" "altEffect (concat (replicate n crnl)) id"
proof -
  show c: "altEffect crnl id" by (rule altEffect_text) (simp add: crnl_def)
  show "altEffect (concat (replicate n crnl)) id"
    by (induction n) (simp_all only: replicate.simps concat.simps alt_effects altEffect_id [OF c])
qed

lemma altEffect_message [alt_effects]: "altEffect (outcomeMessage oc) id" "altEffect (str ''Detached from session'') id"
  by (rule altEffect_text, simp add: outcomeMessage_def split: attachOutcome.split) (rule altEffect_text, simp)

lemma altEffect_nativeModeReset [alt_effects]: "altEffect nativeModeReset id"
  unfolding nativeModeReset_def by (intro altEffect_id alt_effects)

lemma altEffect_nativeCleanup [alt_effects]: "altEffect nativeCleanup id"
  unfolding nativeCleanup_def by (intro altEffect_id alt_effects)

lemma altEffect_if [alt_effects]:
  "altEffect p g \<Longrightarrow> altEffect q g \<Longrightarrow> altEffect (if b then p else q) g"
  by simp

lemma altEffect_position [alt_effects]: "altEffect (finalAttachOutcomePosition sn) id"
  unfolding finalAttachOutcomePosition_def by (intro altEffect_if altEffect_id alt_effects)

lemma altEffect_outcomePrefix [alt_effects]: "altEffect (finalAttachOutcomePrefix sn) id"
  unfolding finalAttachOutcomePrefix_def by (intro altEffect_id alt_effects)

lemma altEffect_leaveAlt: "altEffect p id \<Longrightarrow> altEffect (csi ''?1049l'' @ p) (\<lambda>_. False)"
  by (rule altEffect_then [OF altEffect_screen(2)])

lemma altEffect_screenPrefix [alt_effects]: "altEffect (finalAttachScreenPrefix sn) (\<lambda>_. False)"
  unfolding finalAttachScreenPrefix_def by (intro altEffect_leaveAlt altEffect_id altEffect_if alt_effects)

lemma Format_effect:
  "\<forall>g d. Format G g = Inr d \<longrightarrow> neutral d \<Longrightarrow> Format G g = Inr d \<Longrightarrow> altEffect d id"
  by (simp add: neutral_def does_altEffect)

lemma DumpPrimary_effect:
  assumes "\<forall>g d. Format G g = Inr d \<longrightarrow> neutral d" "DumpPrimaryScreen G t = (t', Inr p)"
  shows "altEffect p id"
proof -
  obtain g d c where "Format G g = Inr d" "p = d @ c" "c = [] \<or> c = cursorTo (primarySaved t)"
    using assms(2) by (auto simp: DumpPrimaryScreen_def Let_def split: sum.splits if_splits)
  moreover have "altEffect (cursorTo x) id" for x by (rule does_altEffect [OF does_cursorTo])
  ultimately show ?thesis using Format_effect [OF assms(1)] altEffect_id by (auto simp: alt_effects)
qed

lemma emits_stopView:
  assumes "\<forall>g d. Format G g = Inr d \<longrightarrow> neutral d" "answers (phys m) = []" "stopView G m = (m', e)"
  shows "emits m m' id \<and> nativeEntered m' = nativeEntered m \<and> mterm m' = mterm m"
proof (cases "view m")
  case None
  then show ?thesis using assms emits_refl by (simp add: stopView_def)
next
  case (Some v)
  obtain ph x where c: "closeView G (mterm m) v (phys m) = (ph, x)" by fastforce
  then have m': "m' = m\<lparr>phys := ph, view := None\<rparr>" using assms(3) Some by (simp add: stopView_def)
  have "(\<exists>p. shown ph = shown (phys m) @ p \<and> altEffect p id) \<and> answers ph = []"
  proof (cases "vdirty v \<and> (\<exists>d. Format G (gterm (mterm m)) = Inr d)")
    case True
    then obtain d where d: "Format G (gterm (mterm m)) = Inr d" by blast
    then have "ph = \<lparr>shown = shown (phys m) @ paintBytes v d, answers = []\<rparr>"
      using c True assms(2) by (cases "phys m") (simp add: closeView_def paint_def writeOut_def)
    moreover have "altEffect (paintBytes v d) id" using altEffect_paint assms(1) d by blast
    ultimately show ?thesis by auto
  next
    case False
    then have "ph = phys m" using c by (auto simp: closeView_def paint_def split: if_splits sum.splits)
    then show ?thesis using assms(2) altEffect_Nil by auto
  qed
  then show ?thesis unfolding m' by (simp add: emits_def)
qed

lemma emits_hintCleanup:
  assumes "\<forall>g d. Format G g = Inr d \<longrightarrow> neutral d" "answers (phys m) = []" "nativeHintCleanup G m = (m', c, e)"
  shows "altEffect c id \<and> phys m' = phys m \<and> nativeEntered m' = nativeEntered m"
proof (cases "nativeHintRow m = 0 \<or> \<not> nativeHintOnPrimary m")
  case False
  obtain t r where d: "DumpPrimaryScreen G (mterm m) = (t, r)" by fastforce
  show ?thesis
  proof (cases r)
    case (Inl x)
    then show ?thesis using assms(3) False d by (auto simp: nativeHintCleanup_def alt_effects)
  next
    case (Inr p)
    have "altEffect ((csi ''2J'' @ csi ''H'' @ csi ''0m'') @ p) id"
      using DumpPrimary_effect [OF assms(1) d [unfolded Inr]] by (intro altEffect_id alt_effects)
    then show ?thesis using assms(3) False d Inr by (auto simp: nativeHintCleanup_def)
  qed
qed (use assms in \<open>auto simp: nativeHintCleanup_def alt_effects\<close>)

lemma emitJoin_emits:
  assumes "emitJoin (m, ret) p = (m', e)" "answers (phys m) = []" "altEffect p id"
  shows "emits m m' id \<and> e = ret"
proof -
  obtain n x where n: "emit m p = (n, x)" by fastforce
  have "emits m n id" "x = None" using emits_emit [OF assms(2,3) n] by simp_all
  then show ?thesis using assms(1) n by (simp add: emitJoin_def)
qed

lemma emits_answers: "emits m m' g \<Longrightarrow> answers (phys m') = []" by (simp add: emits_def)

lemma finishReprint_emits:
  assumes "\<forall>g d. Format G g = Inr d \<longrightarrow> neutral d" "answers (phys m) = []" "finishReprint G m oc h = (m', e)"
  shows "emits m m' (\<lambda>_. False)"
proof -
  obtain sn se where sn: "snapshotLocked G m = (sn, se)" by fastforce
  have c: "altEffect (contents sn) id"
    using sn Format_effect [OF assms(1)] altEffect_Nil
    by (auto simp: snapshotLocked_def emptySnapshot_def split: sum.splits)
  define ret where "ret = (case se of None \<Rightarrow> h
      | Some e \<Rightarrow> errorsJoin [h, Some (Errorf ''attach: render final terminal state: %w'' (vtErr e))])"
  obtain m1 x where m1: "emit m (finalAttachScreenPrefix sn) = (m1, x)" by fastforce
  have e1: "emits m m1 (\<lambda>_. False)" "x = None" using emits_emit [OF assms(2) altEffect_screenPrefix m1] by simp_all
  obtain m2 r2 where m2: "(if contents sn \<noteq> [] then emitJoin (m1, ret) (contents sn) else (m1, ret)) = (m2, r2)" by fastforce
  have e2: "emits m1 m2 id"
    using m2 emitJoin_emits [of m1 ret "contents sn" m2 r2] c emits_answers [OF e1(1)] emits_refl [of m1]
    by (auto split: if_splits)
  obtain m3 r3 where m3: "emitJoin (m2, r2) (finalAttachOutcomePrefix sn) = (m3, r3)" by fastforce
  have e3: "emits m2 m3 id" using emitJoin_emits [OF m3 emits_answers [OF e2]] by (simp add: alt_effects)
  have "emitJoin (m3, r3) (outcomeMessage oc @ crnl) = (m', e)"
    using assms(3) by (simp add: finishReprint_def sn m1 e1(2) ret_def [symmetric] m2 m3)
  then have e4: "emits m3 m' id"
    using emitJoin_emits [OF _ emits_answers [OF e3]] altEffect_id alt_effects by blast
  show ?thesis using emits_trans [OF emits_trans [OF emits_trans [OF e1(1) e2] e3] e4] by (simp add: comp_def)
qed


lemma finishDetached_emits:
  assumes "answers (phys m) = []" "finishDetached m h = (m', e)"
  shows "emits m m' (\<lambda>_. False)"
proof -
  let ?p = "(if nativeEntered m then nativeCleanup
      else if mrows m < physicalRows m then escSeq ''7'' @ csi ''r'' @ escSeq ''8'' else []) @
      crnl @ str ''Detached from session'' @ crnl"
  obtain m1 x where m1: "emit m (csi ''?1049l'' @ ?p) = (m1, x)" by fastforce
  have "altEffect ?p id" by (intro altEffect_id altEffect_if alt_effects)
  from emits_emit [OF assms(1) altEffect_leaveAlt [OF this] m1] show ?thesis
    using assms(2) m1 by (simp add: finishDetached_def)
qed

lemma finishIsolated_emits:
  assumes "\<forall>g d. Format G g = Inr d \<longrightarrow> neutral d" "answers (phys m) = []" "finishIsolated G m oc = (m', e)"
  shows "emits m m' (\<lambda>_. False)"
proof -
  obtain m1 c h where c: "nativeHintCleanup G m = (m1, c, h)" by (metis prod_cases3)
  have C: "altEffect c id" "phys m1 = phys m" using emits_hintCleanup [OF assms(1,2) c] by simp_all
  obtain m2 x where m2: "(if c \<noteq> [] then emit m1 (csi ''?1049l'' @ c) else (m1, None)) = (m2, x)" by fastforce
  have a1: "answers (phys m1) = []" using C(2) assms(2) by simp
  have "\<exists>g. emits m1 m2 g \<and> x = None"
  proof (cases "c = []")
    case True
    then show ?thesis using m2 emits_refl [OF a1] by auto
  next
    case False
    then have "emit m1 (csi ''?1049l'' @ c) = (m2, x)" using m2 by simp
    from emits_emit [OF a1 altEffect_leaveAlt [OF C(1)] this] show ?thesis by blast
  qed
  then obtain g where e2: "emits m1 m2 g" and x: "x = None" by blast
  note a2 = emits_answers [OF e2]
  obtain m3 y where m3: "emit m2 (csi ''?1049l'') = (m3, y)" by fastforce
  have r: "(m', e) = (if oc = OutcomeSessionEnded \<or> oc = OutcomeDisconnected then finishReprint G m2 oc h
      else if oc = OutcomeDetached then finishDetached m2 h else (m3, errorsJoin [h, y]))"
    unfolding assms(3) [symmetric] finishIsolated_def c m2 x by (simp add: m2 [unfolded x] m3)
  have "emits m2 m' (\<lambda>_. False)"
    using r finishReprint_emits [OF assms(1) a2, of oc h m' e] finishDetached_emits [OF a2, of h m' e]
      emits_emit [OF a2 altEffect_screen(2) m3] by (auto split: if_splits)
  moreover have "emits m m1 id" using emits_phys [OF C(2) assms(2)] .
  ultimately show ?thesis using emits_trans [OF emits_trans [OF _ e2], of m id m' "\<lambda>_. False"] by (simp add: comp_def)
qed

lemma finishNative_emits:
  assumes "\<forall>g d. Format G g = Inr d \<longrightarrow> neutral d" "answers (phys m) = []" "finishNative G m oc = (m', e)"
  shows "emits m m' (if nativeEntered m \<and> alt (mterm m) then (\<lambda>_. False) else id)"
proof (cases "nativeEntered m")
  case False
  have "altEffect (crnl @ outcomeMessage oc @ crnl) id" by (intro altEffect_id alt_effects)
  then show ?thesis using assms(2,3) False emits_refl [OF assms(2)] emits_emit [OF assms(2), of "crnl @ outcomeMessage oc @ crnl" id m' e]
    by (auto simp: finishNative_def Let_def split: if_splits)
next
  case True
  obtain m1 c h where c: "nativeHintCleanup G m = (m1, c, h)" by (metis prod_cases3)
  have C: "altEffect c id" "phys m1 = phys m" using emits_hintCleanup [OF assms(1,2) c] by simp_all
  obtain sn se where sn: "snapshotLocked G m = (sn, se)" by fastforce
  let ?la = "alt (mterm m)"
  define q where "q = nativeCleanup @ (if showDetachInstructions m1 then csi ''23;0t'' else []) @ c @
      (if outcomeMessage oc \<noteq> [] then finalAttachOutcomePosition (if ?la then emptySnapshot else sn) @ outcomeMessage oc @ crnl else [])"
  have q: "altEffect q id" unfolding q_def by (intro altEffect_id altEffect_if C(1) alt_effects)
  then have p: "altEffect ((if ?la then csi ''?1049l'' else []) @ q) (if ?la then (\<lambda>_. False) else id)"
    using altEffect_leaveAlt by simp
  obtain m2 x where m2: "emit m1 ((if ?la then csi ''?1049l'' else []) @ q) = (m2, x)" by fastforce
  have "m' = m2" using assms(3) True by (simp add: finishNative_def Let_def c sn q_def [symmetric] m2 split: if_splits)
  then have "emits m1 m' (if ?la then (\<lambda>_. False) else id)"
    using emits_emit [OF _ p m2] C(2) assms(2) by simp
  from emits_trans [OF emits_phys [OF C(2) assms(2)] this] show ?thesis using True by simp
qed

text \<open>
  C17. However an attachment ends, the user gets the primary screen back: with a terminal that takes
  its writes and a formatter that leaves the modes alone, the bytes \<open>finish\<close> writes leave the
  alternate screen whenever the presentation had it active (isolated, or native with the session on
  its alternate screen), and otherwise switch nothing; they end outside any sequence.
\<close>

theorem finish_leaves_alternate:
  assumes "\<forall>g d. Format G g = Inr d \<longrightarrow> neutral d" "answers (phys m) = []" "finishModels G m oc = (m', e)"
    "kScan k = zeroScanner" "k' = foldl stepCore k p" "shown (phys m') = shown (phys m) @ p"
  shows "kScan k' = zeroScanner \<and>
    kAlt k' = (if pres m = PresentationIsolated \<or> pres m = PresentationNative \<and> nativeEntered m \<and> alt (mterm m)
      then False else kAlt k)"
proof -
  obtain m1 x where s: "stopView G m = (m1, x)" by fastforce
  have S: "emits m m1 id" "nativeEntered m1 = nativeEntered m" "mterm m1 = mterm m" "pres m1 = pres m"
    using emits_stopView [OF assms(1,2) s] stopView_fields [OF s] by simp_all
  note a1 = emits_answers [OF S(1)]
  let ?g = "if pres m = PresentationIsolated \<or> pres m = PresentationNative \<and> nativeEntered m \<and> alt (mterm m)
      then (\<lambda>_. False) else id"
  have "emits m1 m' ?g"
  proof (cases "pres m")
    case PresentationIsolated
    obtain m2 y where f: "finishIsolated G m1 oc = (m2, y)" by fastforce
    then have "m' = m2" using assms(3) PresentationIsolated S(4) by (simp add: finishModels_def s)
    then show ?thesis using finishIsolated_emits [OF assms(1) a1 f] PresentationIsolated by simp
  next
    case PresentationNative
    obtain m2 y where f: "finishNative G m1 oc = (m2, y)" by fastforce
    then have "m' = m2" using assms(3) PresentationNative S(4) by (simp add: finishModels_def s)
    then show ?thesis using finishNative_emits [OF assms(1) a1 f] PresentationNative S by simp
  next
    case PresentationPending
    obtain m2 y where f: "emit m1 (crnl @ outcomeMessage oc @ crnl) = (m2, y)" by fastforce
    have "altEffect (crnl @ outcomeMessage oc @ crnl) id" by (intro altEffect_id alt_effects)
    from emits_emit [OF a1 this f] have "emits m1 m2 id" by simp
    moreover have "m' = (if outcomeMessage oc \<noteq> [] then m2 else m1)"
      using assms(3) PresentationPending S(4) f by (simp add: finishModels_def s Let_def split: if_splits)
    ultimately show ?thesis using emits_refl [OF a1] PresentationPending by simp
  qed
  from emits_trans [OF S(1) this] obtain q f where q: "shown (phys m') = shown (phys m) @ q" "does q f"
      "\<forall>s. fst (f s) = ?g (fst s)"
    by (auto simp: emits_def altEffect_def)
  then have "p = q" using assms(6) by simp
  then have "kScan k' = zeroScanner" "screenOf k' = f (screenOf k)" using q(2) assms(4,5) by (simp_all add: does_def)
  moreover have "kAlt k' = fst (f (screenOf k))" using calculation(2) by (metis fst_conv screenOf_def)
  moreover have "fst (screenOf k) = kAlt k" by (simp add: screenOf_def)
  ultimately show ?thesis unfolding q(3) [rule_format, of "screenOf k"] by simp
qed


section \<open>An isolated attachment\<close>

datatype modelsOp = OpOutput bytes | OpResize "16 word" "16 word" | OpPaint

fun opStep :: "'g ghostty \<Rightarrow> 'g attachModels \<Rightarrow> modelsOp \<Rightarrow> 'g attachModels" where
  "opStep G m (OpOutput p) = fst (applyOutput G m p)"
| "opStep G m (OpResize c r) = fst (applyResize G m c r)"
| "opStep G m OpPaint = paintModels G m"

definition runOps :: "'g ghostty \<Rightarrow> 'g attachModels \<Rightarrow> modelsOp list \<Rightarrow> 'g attachModels" where
  "runOps G m ops = foldl (opStep G) m ops"

text \<open>Shown so far: the entry and whole repaints of renderings by the formatter.\<close>

definition painted :: "'g ghostty \<Rightarrow> bytes \<Rightarrow> bool" where
  "painted G out \<longleftrightarrow> (\<exists>ps. out = isolatedEntry @ concat (map (\<lambda>(v, d). paintBytes v d) ps) \<and>
     (\<forall>(v, d)\<in>set ps. \<exists>g. Format G g = Inr d))"

definition isolatedState :: "'g ghostty \<Rightarrow> 'g attachModels \<Rightarrow> bool" where
  "isolatedState G m \<longleftrightarrow> mmode m = AttachModeIsolated \<and> pres m = PresentationIsolated \<and> view m \<noteq> None \<and>
     \<not> panicked m \<and> answers (phys m) = [] \<and> painted G (shown (phys m))"

lemma painted_paint:
  assumes "painted G out" "Format G g = Inr d"
  shows "painted G (out @ paintBytes v d)"
proof -
  obtain ps where "out = isolatedEntry @ concat (map (\<lambda>(v, d). paintBytes v d) ps)" "\<forall>(v, d)\<in>set ps. \<exists>g. Format G g = Inr d"
    using assms(1) by (auto simp: painted_def)
  then show ?thesis using assms(2) unfolding painted_def by (intro exI [of _ "ps @ [(v, d)]"]) auto
qed

lemma paint_isolated:
  assumes "paint G t v ph = (ph', e)" "answers ph = []" "painted G (shown ph)"
  shows "answers ph' = [] \<and> painted G (shown ph')"
proof (cases "Format G (gterm t)")
  case (Inl x)
  then show ?thesis using assms by (simp add: paint_def)
next
  case (Inr d)
  then have "ph' = \<lparr>shown = shown ph @ paintBytes v d, answers = []\<rparr>"
    using assms(1,2) by (cases ph) (simp add: paint_def writeOut_def)
  then show ?thesis using painted_paint [OF assms(3) Inr] by simp
qed

lemma isolated_markView: "isolatedState G m \<Longrightarrow> isolatedState G (markView (m\<lparr>mterm := t\<rparr>))"
  by (cases "view m") (simp_all add: isolatedState_def markView_def)

lemma isolated_output:
  assumes "isolatedState G m"
  shows "isolatedState G (fst (applyOutput G m p)) \<and> phys (fst (applyOutput G m p)) = phys m"
proof -
  have i: "mmode m = AttachModeIsolated" "pres m = PresentationIsolated" "view m \<noteq> None"
    using assms by (simp_all add: isolatedState_def)
  have "fst (applyOutput G m p) = markView (m\<lparr>mterm := TWrite G (mterm m) p\<rparr>)"
    using i by (simp add: applyOutput_def followActiveScreen_def presentFromModel_def presentRaw_def mode_defs)
  moreover have "phys (markView (m\<lparr>mterm := t\<rparr>)) = phys m" for t using i(3) by (auto simp: markView_def)
  ultimately show ?thesis using isolated_markView [OF assms] by simp
qed

lemma isolated_resize: "isolatedState G m \<Longrightarrow> isolatedState G (fst (applyResize G m c r))"
  by (cases "TResize G (mterm m) c (sessionRows m r)")
    (auto simp: applyResize_def resizeLocked_def Let_def isolatedState_def)

lemma isolated_paint:
  assumes "isolatedState G m" shows "isolatedState G (paintModels G m)"
proof -
  obtain v where v: "view m = Some v" using assms by (auto simp: isolatedState_def)
  obtain w ph es where r: "paintRound G (mterm m) v (phys m) (viewErrs m) = (w, ph, es)" by (metis prod_cases3)
  have "answers ph = [] \<and> painted G (shown ph)"
  proof (cases "vrunning v \<and> vdirty v")
    case True
    obtain ph' e where p: "paint G (mterm m) (v\<lparr>vdirty := False\<rparr>) (phys m) = (ph', e)" by fastforce
    then have "ph = ph'" using r True by (simp add: paintRound_def Let_def split: option.splits)
    then show ?thesis using paint_isolated [OF p] assms by (simp add: isolatedState_def)
  qed (use r assms in \<open>auto simp: paintRound_def isolatedState_def\<close>)
  then show ?thesis using assms v r by (simp add: paintModels_def isolatedState_def)
qed

lemma isolated_runOps: "isolatedState G m \<Longrightarrow> isolatedState G (runOps G m ops)"
  unfolding runOps_def
proof (induction ops arbitrary: m)
  case (Cons op ops)
  have "isolatedState G (opStep G m op)"
    using Cons.prems isolated_output isolated_resize isolated_paint by (cases op) auto
  then show ?case using Cons.IH by simp
qed simp

lemma isolated_start:
  assumes "startModels G (newAttachModels t AttachModeIsolated hints \<lparr>shown = [], answers = []\<rparr>) = (m, None)"
  shows "isolatedState G m"
proof -
  let ?m = "newAttachModels t AttachModeIsolated hints \<lparr>shown = [], answers = []\<rparr>"
  have e: "enterIsolated G ?m = (m, None)"
    using assms by (simp add: startModels_def newAttachModels_def)
  then obtain m1 m2 where r: "resizeLocked G (?m\<lparr>pres := PresentationIsolated\<rparr>) (mcols ?m) (physicalRows ?m) = (m1, None)"
    and w: "emit m1 isolatedEntry = (m2, None)"
    and v: "m = m2\<lparr>view := Some (newAttachView (mrows m2) (mrows m2 < physicalRows m2))\<rparr>"
    unfolding enterIsolated_def Let_def andThen_None by (auto simp: newAttachModels_def)
  have "phys m1 = \<lparr>shown = [], answers = []\<rparr>" "mmode m1 = AttachModeIsolated" "pres m1 = PresentationIsolated" "\<not> panicked m1"
    using resizeLocked_ok [OF r] by (simp_all add: newAttachModels_def)
  moreover from this have "m2 = m1\<lparr>phys := \<lparr>shown = isolatedEntry, answers = []\<rparr>\<rparr>"
    using w emit_working [of m1 isolatedEntry] by simp
  moreover have "painted G isolatedEntry" unfolding painted_def by (intro exI [of _ "[]"]) simp
  ultimately show ?thesis by (simp add: isolatedState_def v)
qed

text \<open>
  C18. In forced isolation the session cannot reach the physical terminal: whatever it outputs and
  however sizes change, the bytes written up to the end are the entry into the alternate screen and
  whole repaints, each of a rendering; none of the session's own bytes is forwarded, and no call
  is made on a missing view.
\<close>

theorem isolated_protects:
  assumes "startModels G (newAttachModels t AttachModeIsolated hints \<lparr>shown = [], answers = []\<rparr>) = (m, None)"
  shows "(\<exists>ps. shown (phys (runOps G m ops)) = isolatedEntry @ concat (map (\<lambda>(v, d). paintBytes v d) ps) \<and>
      (\<forall>(v, d)\<in>set ps. \<exists>g. Format G g = Inr d)) \<and> \<not> panicked (runOps G m ops)"
  using isolated_runOps [OF isolated_start [OF assms], of ops] by (simp add: isolatedState_def painted_def)

text \<open>
  C19. Presentation is well-formed after every frame that was handled without an error: it is the one
  the mode wants for the session's active screen (forced, or isolated exactly on the alternate
  screen), the view exists exactly when it is isolated, the height announced to the session leaves a row for
  the hint exactly when one is reserved, and no operation was called on a missing view.
\<close>

theorem presentation_follows_screen:
  assumes "applyOutput G m data = (m', resized, None)" "well_presented m" "normalized (mmode m) = Some (mmode m)"
  shows "pres m' = (if mmode m = AttachModeIsolated then PresentationIsolated
      else if mmode m = AttachModeNative then PresentationNative
      else if alt (mterm m') then PresentationIsolated else PresentationNative) \<and>
    (view m' \<noteq> None) = (pres m' = PresentationIsolated) \<and>
    mrows m' = sessionRows m' (physicalRows m') \<and>
    physicalRows m' = physicalRows m \<and> \<not> panicked m'"
proof -
  have "mmode m \<in> {AttachModeAuto, AttachModeIsolated, AttachModeNative}"
    using assms(3) by (auto simp: normalized_def split: if_splits)
  from applyOutput_ok [OF assms(1,2) this] show ?thesis
    by (simp add: fits_def well_presented_def presented_def presents_def)
qed

section \<open>Witnesses\<close>

definition demoModels :: "string \<Rightarrow> presentation \<Rightarrow> attachView option \<Rightarrow> bytes attachModels" where
  "demoModels mode p v = (newAttachModels recorderTerminal mode False \<lparr>shown = [], answers = []\<rparr>)\<lparr>pres := p, view := v,
     nativeEntered := True\<rparr>"

lemmas demo_models = demoModels_def newAttachModels_def emit_def writeOut_def errorsJoin_def

theorem finish_leaves_alternate_witness:
  "kScan (foldl stepCore (coreOf recorderTerminal) (csi ''?1049l'' @ nativeCleanup @ crnl @ str ''Detached from session'' @ crnl)) = zeroScanner \<and>
   kAlt (foldl stepCore (coreOf recorderTerminal) (csi ''?1049l'' @ nativeCleanup @ crnl @ str ''Detached from session'' @ crnl)) = False"
proof -
  let ?m = "demoModels AttachModeAuto PresentationIsolated None"
  let ?p = "csi ''?1049l'' @ nativeCleanup @ crnl @ str ''Detached from session'' @ crnl"
  have "finishModels recorder ?m OutcomeDetached = (?m\<lparr>phys := \<lparr>shown = ?p, answers = []\<rparr>\<rparr>, None)"
    by (simp add: demo_models finishModels_def stopView_def finishIsolated_def
        nativeHintCleanup_def finishDetached_def List.map_filter_def del: str_Cons)
  from finish_leaves_alternate [OF recorder_neutral _ this, of "coreOf recorderTerminal" _ ?p]
  show ?thesis by (simp add: demo_models recorderTerminal_core del: str_Cons)
qed

lemma demo_native: "applyOutput recorder (demoModels AttachModeNative PresentationNative None) (str ''ab'') =
    ((demoModels AttachModeNative PresentationNative None)\<lparr>mterm := TWrite recorder recorderTerminal (str ''ab''),
       phys := \<lparr>shown = str ''ab'', answers = []\<rparr>\<rparr>, False, None)"
  by (simp add: demo_models applyOutput_def mode_defs HasPrefix_def SnapshotPrefix_def presentRaw_def enterNative_def
      andThen_def showNativeHintOnce_def)

lemma demo_presented: "well_presented (demoModels AttachModeNative PresentationNative None)"
  "normalized (mmode (demoModels AttachModeNative PresentationNative None)) =
     Some (mmode (demoModels AttachModeNative PresentationNative None))"
  by (simp_all add: demo_models well_presented_def fits_def presented_def presents_def mode_defs normalized_def sessionRows_def)

theorem applyOutput_mirrors_witness:
  "let m' = fst (applyOutput recorder (demoModels AttachModeNative PresentationNative None) (str ''ab'')) in
   scan (mterm m') = scan (TWrite recorder recorderTerminal (str ''ab'')) \<and>
   alt (mterm m') = alt (TWrite recorder recorderTerminal (str ''ab'')) \<and>
   modes (mterm m') = modes (TWrite recorder recorderTerminal (str ''ab''))"
  using applyOutput_mirrors [OF demo_native demo_presented] unfolding demo_native Let_def fst_conv
  by (simp add: demo_models)

theorem presentation_follows_screen_witness:
  "pres (fst (applyOutput recorder (demoModels AttachModeNative PresentationNative None) (str ''ab''))) = PresentationNative"
  using presentation_follows_screen [OF demo_native demo_presented] unfolding demo_native fst_conv
  by (simp add: demo_models mode_defs)

lemma demo_start:
  "startModels recorder (newAttachModels recorderTerminal AttachModeIsolated False \<lparr>shown = [], answers = []\<rparr>) =
    (fst (startModels recorder (newAttachModels recorderTerminal AttachModeIsolated False \<lparr>shown = [], answers = []\<rparr>)), None)"
  by (simp add: newAttachModels_def startModels_def enterIsolated_def resizeLocked_def andThen_def emit_def writeOut_def
      TResize_def recorder_def Let_def)

theorem isolated_protects_witness:
  "\<not> panicked (runOps recorder (fst (startModels recorder
      (newAttachModels recorderTerminal AttachModeIsolated False \<lparr>shown = [], answers = []\<rparr>))) [OpOutput (str ''ab''), OpPaint])"
  using isolated_protects [OF demo_start] by (rule conjunct2)

end
