(* ===== verification/Ctrlkey.thy ===== *)
theory Ctrlkey
  imports Bgx_Prelude
begin

text \<open>
  \<open>ctrlkey.go\<close>: recognising the detach key (\<open>ctrl+\\<close>, as the raw byte or in the Kitty
  protocol's \<open>CSI u\<close> form) in terminal input, and the \<open>detachScanner\<close> that holds a
  trailing fragment back so that a key split over two reads is still recognised. The parsers
  take the buffer and the position, as the code does. Lemmas: nothing is lost or reordered, the
  key is found however the input is chunked, and what the scanner keeps back.
\<close>

section \<open>Parsing\<close>

definition isDigit :: "byte \<Rightarrow> bool" where
  "isDigit b \<longleftrightarrow> 0x30 \<le> b \<and> b \<le> 0x39"

text \<open>The digit loop of \<open>parseDecimal\<close>; the value wraps at 32 bits.\<close>

function parseDigits :: "bytes \<Rightarrow> nat \<Rightarrow> 32 word \<Rightarrow> 32 word \<times> nat" where
  "parseDigits buf pos value =
     (if pos < length buf \<and> isDigit (buf ! pos) then
        parseDigits buf (pos + 1) (value * 10 + ucast (buf ! pos - 0x30))
      else (value, pos))"
  by pat_completeness auto
termination
  by (relation "measure (\<lambda>(buf, pos, value). length buf - pos)") auto

declare parseDigits.simps [simp del]

definition parseDecimal :: "bytes \<Rightarrow> nat \<Rightarrow> (32 word \<times> bool) \<times> nat" where
  "parseDecimal buf pos =
     (let (value, pos') = parseDigits buf pos 0 in ((value, pos' \<noteq> pos), pos'))"

lemma parseDigits_ge: "pos \<le> snd (parseDigits buf pos v)"
proof (induction buf pos v rule: parseDigits.induct)
  case (1 buf pos v)
  then show ?case
    by (cases "pos < length buf \<and> isDigit (buf ! pos)") (auto simp: parseDigits.simps [of buf pos v])
qed

lemma parseDecimal_ge: "pos \<le> snd (parseDecimal buf pos)"
  using parseDigits_ge [of pos buf 0] by (simp add: parseDecimal_def case_prod_unfold Let_def)

function skipAlternates :: "bytes \<Rightarrow> nat \<Rightarrow> nat" where
  "skipAlternates buf pos =
     (if pos < length buf \<and> buf ! pos = 0x3A then skipAlternates buf (snd (parseDecimal buf (pos + 1)))
      else pos)"
  by pat_completeness auto
termination
proof (relation "measure (\<lambda>(buf, pos). length buf - pos)")
  fix buf :: bytes and pos
  assume "pos < length buf \<and> buf ! pos = 0x3A"
  then show "((buf, snd (parseDecimal buf (pos + 1))), buf, pos) \<in> measure (\<lambda>(buf, pos). length buf - pos)"
    using parseDecimal_ge [of "pos + 1" buf] by (simp add: diff_less_mono2)
qed simp

declare skipAlternates.simps [simp del]

function skipText :: "bytes \<Rightarrow> nat \<Rightarrow> nat" where
  "skipText buf pos =
     (if pos < length buf \<and> (isDigit (buf ! pos) \<or> buf ! pos = 0x3A) then skipText buf (pos + 1)
      else pos)"
  by pat_completeness auto
termination
  by (relation "measure (\<lambda>(buf, pos). length buf - pos)") auto

declare skipText.simps [simp del]

definition at :: "bytes \<Rightarrow> nat \<Rightarrow> byte \<Rightarrow> bool" where
  "at buf pos c \<longleftrightarrow> pos < length buf \<and> buf ! pos = c"

text \<open>The tail of the sequence after the modifiers: event type, text, final \<open>u\<close>.\<close>

definition keypressTail :: "bytes \<Rightarrow> nat \<Rightarrow> bool" where
  "keypressTail buf pos =
     (let pos = (if at buf pos 0x3B then skipText buf (pos + 1) else pos) in at buf pos 0x75)"

definition keypressEvent :: "bytes \<Rightarrow> nat \<Rightarrow> bool" where
  "keypressEvent buf pos =
     (if at buf pos 0x3A then
        let ((eventType, ok), pos) = parseDecimal buf (pos + 1) in
        if \<not> ok then False
        else if eventType = 3 then False
        else keypressTail buf pos
      else keypressTail buf pos)"

definition keypressWithMod :: "bytes \<Rightarrow> 32 word \<Rightarrow> 32 word \<Rightarrow> bool" where
  "keypressWithMod buf expectedKey expectedMods =
     (let ((keyCode, ok), pos) = parseDecimal buf 0 in
      if \<not> ok \<or> keyCode \<noteq> expectedKey then False
      else
        let pos = skipAlternates buf pos in
        if \<not> at buf pos 0x3B then False
        else
          let ((modEncoded, ok), pos) = parseDecimal buf (pos + 1) in
          if \<not> ok \<or> modEncoded < 1 then False
          else
            let intentionalMods = (modEncoded - 1) AND 0x3F in
            if expectedMods > 0 \<and> expectedMods \<noteq> intentionalMods then False
            else keypressEvent buf pos)"

definition ctrlBackslashAt :: "bytes \<Rightarrow> nat \<Rightarrow> bool" where
  "ctrlBackslashAt buf i \<longleftrightarrow>
     buf ! i = 0x1C \<or>
     (i + 2 < length buf \<and> buf ! i = 0x1B \<and> buf ! (i + 1) = 0x5B \<and>
      keypressWithMod (drop (i + 2) buf) 0x5C 4)"

definition isCtrlBackslash :: "bytes \<Rightarrow> bool" where
  "isCtrlBackslash buf = list_ex (ctrlBackslashAt buf) [0..<length buf]"

section \<open>Holding back a fragment\<close>

definition isPrefixOf :: "bytes \<Rightarrow> bytes \<Rightarrow> bool" where
  "isPrefixOf b s \<longleftrightarrow> length b \<le> length s \<and> b = take (length b) s"

definition ctrlBackslashPrefix :: "bytes \<Rightarrow> bool" where
  "ctrlBackslashPrefix s =
     (if length s = 1 then True
      else if length s < 2 \<or> s ! 1 \<noteq> 0x5B then False
      else
        let r = drop 2 s; i = length (takeWhile isDigit r); keyDigits = take i r in
        if i = length r then isPrefixOf keyDigits (str ''92'')
        else if keyDigits \<noteq> str ''92'' then False
        else r ! i = 0x3A \<or> r ! i = 0x3B)"

text \<open>The loop runs \<open>i\<close> down from the last byte; \<open>suffixLoop buf (i + 1)\<close> is its state at \<open>i\<close>.\<close>

fun suffixLoop :: "bytes \<Rightarrow> nat \<Rightarrow> nat" where
  "suffixLoop buf 0 = 0"
| "suffixLoop buf (Suc i) =
     (if buf ! i \<noteq> 0x1B then suffixLoop buf i
      else if ctrlBackslashPrefix (drop i buf) then length buf - i
      else 0)"

definition ctrlBackslashSuffixLen :: "bytes \<Rightarrow> nat" where
  "ctrlBackslashSuffixLen buf = suffixLoop buf (length buf)"

section \<open>The scanner\<close>

record detachScanner =
  pending :: bytes

definition newScanner :: detachScanner where
  "newScanner = \<lparr>pending = []\<rparr>"

definition feed :: "detachScanner \<Rightarrow> bytes \<Rightarrow> detachScanner \<times> bytes \<times> bool" where
  "feed d p =
     (let buf = pending d @ p in
      if isCtrlBackslash buf then (d\<lparr>pending := []\<rparr>, [], True)
      else
        let hold = ctrlBackslashSuffixLen buf; cut = length buf - hold in
        (d\<lparr>pending := drop cut buf\<rparr>, take cut buf, False))"

definition flush :: "detachScanner \<Rightarrow> detachScanner \<times> bytes" where
  "flush d = (d\<lparr>pending := []\<rparr>, pending d)"

section \<open>Nothing is lost or reordered\<close>

lemma suffixLoop_le: "n \<le> length buf \<Longrightarrow> suffixLoop buf n \<le> length buf"
  by (induction n) auto

lemma suffixLen_le: "ctrlBackslashSuffixLen buf \<le> length buf"
  by (simp add: ctrlBackslashSuffixLen_def suffixLoop_le)

lemma feed_conserves: "feed d p = (d', fwd, False) \<Longrightarrow> fwd @ pending d' = pending d @ p"
  by (auto simp: feed_def Let_def simp del: take_append drop_append split: if_splits)

lemma feed_detach_forwards_nothing: "feed d p = (d', fwd, True) \<Longrightarrow> fwd = [] \<and> pending d' = []"
  by (auto simp: feed_def Let_def split: if_splits)

text \<open>Feeding chunk after chunk, as the input loop does, until the detach key is seen.\<close>

fun feedAll :: "detachScanner \<Rightarrow> bytes list \<Rightarrow> detachScanner \<times> bytes \<times> bool" where
  "feedAll d [] = (d, [], False)"
| "feedAll d (p # ps) =
     (case feed d p of
        (d, fwd, True) \<Rightarrow> (d, fwd, True)
      | (d, fwd, False) \<Rightarrow> (case feedAll d ps of (d, fwd', r) \<Rightarrow> (d, fwd @ fwd', r)))"

lemma feedAll_conserves: "feedAll d ps = (d', fwd, False) \<Longrightarrow> fwd @ pending d' = pending d @ concat ps"
proof (induction ps arbitrary: d fwd)
  case (Cons p ps)
  obtain d1 f1 r1 where f: "feed d p = (d1, f1, r1)" by (cases "feed d p") auto
  obtain d2 f2 r2 where g: "feedAll d1 ps = (d2, f2, r2)" by (cases "feedAll d1 ps") auto
  show ?case
  proof (cases r1)
    case True
    then show ?thesis using Cons.prems f by simp
  next
    case False
    then have "f2 @ pending d' = pending d1 @ concat ps" "f1 @ pending d1 = pending d @ p" "fwd = f1 @ f2"
      using Cons.prems f g Cons.IH [of d1 f2] feed_conserves [of d p d1 f1] by auto
    then show ?thesis by (metis append_assoc concat.simps(2))
  qed
qed simp

text \<open>No forwarded byte is the raw detach byte.\<close>

lemma isCtrlBackslash_raw: "0x1C \<in> set buf \<Longrightarrow> isCtrlBackslash buf"
  by (force simp: isCtrlBackslash_def list_ex_iff ctrlBackslashAt_def in_set_conv_nth)

lemma feed_no_raw: "feed d p = (d', fwd, r) \<Longrightarrow> 0x1C \<notin> set fwd \<and> 0x1C \<notin> set (pending d')"
  using isCtrlBackslash_raw [of "pending d @ p"]
  by (auto simp: feed_def Let_def split: if_splits dest!: in_set_takeD in_set_dropD)

lemma feedAll_no_raw: "feedAll d ps = (d', fwd, r) \<Longrightarrow> 0x1C \<notin> set fwd"
proof (induction ps arbitrary: d fwd)
  case (Cons p ps)
  obtain d1 f1 r1 where f: "feed d p = (d1, f1, r1)" by (cases "feed d p") auto
  obtain d2 f2 r2 where g: "feedAll d1 ps = (d2, f2, r2)" by (cases "feedAll d1 ps") auto
  show ?case using Cons.prems Cons.IH [of d1 f2] f g feed_no_raw [OF f] by (cases r1) auto
qed simp

text \<open>
  C28. Until the detach key is seen, the scanner neither loses, duplicates nor reorders input:
  what it forwarded followed by what it still holds is exactly what it was fed, and the raw
  detach byte is never forwarded.
\<close>

theorem feedAll_exact:
  assumes "feedAll d ps = (d', fwd, False)"
  shows "fwd @ pending d' = pending d @ concat ps \<and> 0x1C \<notin> set fwd"
  using feedAll_conserves [OF assms] feedAll_no_raw [OF assms] by simp

theorem feedAll_exact_witness:
  "(str ''a'' @ 0x1B # str ''[A'') @ pending newScanner
     = pending newScanner @ concat [str ''a'' @ [0x1B], str ''[A''] \<and>
   0x1C \<notin> set (str ''a'' @ 0x1B # str ''[A'')"
proof -
  have "feedAll newScanner [str ''a'' @ [0x1B], str ''[A'']
      = (newScanner, str ''a'' @ 0x1B # str ''[A'', False)"
    by code_simp
  then show ?thesis by (rule feedAll_exact)
qed

section \<open>The Kitty form of the key\<close>

definition digits :: "bytes \<Rightarrow> bool" where
  "digits ds \<longleftrightarrow> list_all isDigit ds"

definition decVal :: "bytes \<Rightarrow> 32 word" where
  "decVal ds = foldl (\<lambda>v b. v * 10 + ucast (b - 0x30)) 0 ds"

definition altBytes :: "bytes list \<Rightarrow> bytes" where
  "altBytes alts = concat (map ((#) 0x3A) alts)"

definition optField :: "byte \<Rightarrow> bytes option \<Rightarrow> bytes" where
  "optField c f = (case f of None \<Rightarrow> [] | Some x \<Rightarrow> c # x)"

text \<open>\<open>CSI 92 [:alt]* ; mods [:event] [;text] u\<close>\<close>

definition ctrlSeq :: "bytes list \<Rightarrow> bytes \<Rightarrow> bytes option \<Rightarrow> bytes option \<Rightarrow> bytes" where
  "ctrlSeq alts mods ev cps =
     0x1B # 0x5B # str ''92'' @ altBytes alts @ 0x3B # mods @ optField 0x3A ev @ optField 0x3B cps @ [0x75]"

definition ctrlSeq_ok :: "bytes list \<Rightarrow> bytes \<Rightarrow> bytes option \<Rightarrow> bytes option \<Rightarrow> bool" where
  "ctrlSeq_ok alts mods ev cps \<longleftrightarrow>
     list_all digits alts \<and> digits mods \<and> mods \<noteq> [] \<and>
     1 \<le> decVal mods \<and> (decVal mods - 1) AND 0x3F = 4 \<and>
     (case ev of None \<Rightarrow> True | Some e \<Rightarrow> digits e \<and> e \<noteq> [] \<and> decVal e \<noteq> 3) \<and>
     (case cps of None \<Rightarrow> True | Some t \<Rightarrow> list_all (\<lambda>b. isDigit b \<or> b = 0x3A) t)"

lemma parseDigits_run:
  assumes "digits ds" "\<not> isDigit c"
  shows "parseDigits (pre @ ds @ c # q) (length pre) v
    = (foldl (\<lambda>v b. v * 10 + ucast (b - 0x30)) v ds, length pre + length ds)"
  using assms(1)
proof (induction ds arbitrary: pre v)
  case Nil
  then show ?case using assms(2) by (simp add: parseDigits.simps nth_append)
next
  case (Cons d ds)
  then show ?case using Cons.IH [of "pre @ [d]"]
    by (subst parseDigits.simps) (simp add: digits_def)
qed

lemma parseDecimal_run:
  assumes "digits ds" "\<not> isDigit c" "n = length pre"
  shows "parseDecimal (pre @ ds @ c # q) n = ((decVal ds, ds \<noteq> []), n + length ds)"
  using parseDigits_run [OF assms(1,2), of pre q 0] assms(3)
  by (simp add: parseDecimal_def decVal_def)

lemma at_run: "n = length pre \<Longrightarrow> at (pre @ c # q) n d \<longleftrightarrow> c = d"
  by (auto simp: at_def)

lemma isDigit_marks [simp]: "\<not> isDigit 0x3A" "\<not> isDigit 0x3B" "\<not> isDigit 0x75" "\<not> isDigit 0x1B"
  by (simp_all add: isDigit_def)

lemma skipAlternates_run:
  assumes "list_all digits alts" "n = length pre"
  shows "skipAlternates (pre @ altBytes alts @ 0x3B # q) n = n + length (altBytes alts)"
  using assms
proof (induction alts arbitrary: pre n)
  case Nil
  then show ?case by (simp add: skipAlternates.simps altBytes_def)
next
  case (Cons a alts)
  obtain c r where c: "altBytes alts @ 0x3B # q = c # r" "\<not> isDigit c"
    by (cases alts) (auto simp: altBytes_def)
  have "parseDecimal ((pre @ [0x3A]) @ a @ c # r) (Suc n) = ((decVal a, a \<noteq> []), Suc n + length a)"
    using Cons.prems c(2) by (intro parseDecimal_run) auto
  then have "skipAlternates (pre @ altBytes (a # alts) @ 0x3B # q) n
    = skipAlternates ((pre @ 0x3A # a) @ altBytes alts @ 0x3B # q) (n + Suc (length a))"
    using Cons.prems c(1) by (subst skipAlternates.simps) (simp add: altBytes_def nth_append)
  also have "\<dots> = n + Suc (length a) + length (altBytes alts)"
    using Cons.prems by (intro Cons.IH) auto
  finally show ?case by (simp add: altBytes_def)
qed

lemma skipText_run:
  assumes "list_all (\<lambda>b. isDigit b \<or> b = 0x3A) t" "n = length pre"
  shows "skipText (pre @ t @ 0x75 # q) n = n + length t"
  using assms
proof (induction t arbitrary: pre n)
  case Nil
  then show ?case by (simp add: skipText.simps)
next
  case (Cons b t)
  then show ?case using Cons.IH [of "Suc n" "pre @ [b]"]
    by (subst skipText.simps) (simp add: nth_append)
qed

lemma keypressTail_run:
  assumes "case cps of None \<Rightarrow> True | Some t \<Rightarrow> list_all (\<lambda>b. isDigit b \<or> b = 0x3A) t" "n = length pre"
  shows "keypressTail (pre @ optField 0x3B cps @ 0x75 # q) n"
proof (cases cps)
  case None
  then show ?thesis using assms(2) by (simp add: keypressTail_def optField_def at_run Let_def)
next
  case (Some t)
  then show ?thesis
    using assms skipText_run [of t "Suc n" "pre @ [0x3B]" q] at_run [of "Suc (n + length t)" "pre @ 0x3B # t" "0x75" q]
    by (simp add: keypressTail_def optField_def at_run Let_def)
qed

lemma keypressEvent_run:
  assumes ev: "case ev of None \<Rightarrow> True | Some e \<Rightarrow> digits e \<and> e \<noteq> [] \<and> decVal e \<noteq> 3"
    and tx: "case cps of None \<Rightarrow> True | Some t \<Rightarrow> list_all (\<lambda>b. isDigit b \<or> b = 0x3A) t"
    and n: "n = length pre"
  shows "keypressEvent (pre @ optField 0x3A ev @ optField 0x3B cps @ 0x75 # q) n"
proof (cases ev)
  case None
  obtain c r where c: "optField 0x3B cps @ 0x75 # q = c # r" "c \<noteq> 0x3A"
    by (cases cps) (auto simp: optField_def)
  have "\<not> at (pre @ optField 0x3B cps @ 0x75 # q) n 0x3A" using c n by (simp add: at_run)
  then show ?thesis using None keypressTail_run [OF tx n, of q]
    by (simp add: keypressEvent_def optField_def)
next
  case (Some e)
  obtain c r where c: "optField 0x3B cps @ 0x75 # q = c # r" "\<not> isDigit c"
    by (cases cps) (auto simp: optField_def)
  have "parseDecimal ((pre @ [0x3A]) @ e @ c # r) (Suc n) = ((decVal e, e \<noteq> []), Suc n + length e)"
    using ev Some c n by (intro parseDecimal_run) auto
  then show ?thesis
    using Some ev c n keypressTail_run [OF tx, of "Suc n + length e" "pre @ 0x3A # e" q]
    by (simp add: keypressEvent_def optField_def at_run Let_def)
qed

lemma keypressWithMod_run:
  assumes "ctrlSeq_ok alts mods ev cps"
  shows "keypressWithMod (drop 2 (ctrlSeq alts mods ev cps) @ q) 0x5C 4"
proof -
  let ?tail = "optField 0x3A ev @ optField 0x3B cps @ 0x75 # q"
  define pre where "pre = str ''92'' @ altBytes alts @ [0x3B]"
  have ok: "list_all digits alts" "digits mods" "mods \<noteq> []" "1 \<le> decVal mods"
    "(decVal mods - 1) AND 0x3F = 4"
    using assms by (auto simp: ctrlSeq_ok_def)
  obtain c r where c: "altBytes alts @ 0x3B # mods @ ?tail = c # r" "\<not> isDigit c"
    by (cases alts) (auto simp: altBytes_def)
  obtain c' r' where c': "?tail = c' # r'" "\<not> isDigit c'"
    by (cases ev; cases cps) (auto simp: optField_def)
  have buf: "drop 2 (ctrlSeq alts mods ev cps) @ q = str ''92'' @ altBytes alts @ 0x3B # mods @ ?tail"
    by (simp add: ctrlSeq_def)
  have "digits (str ''92'')" by (simp add: digits_def isDigit_def)
  then have key: "parseDecimal (str ''92'' @ altBytes alts @ 0x3B # mods @ ?tail) 0
      = ((decVal (str ''92''), True), 2)"
    using parseDecimal_run [of "str ''92''" c 0 "[]" r] c by simp
  have k92: "decVal (str ''92'') = 0x5C" by (simp add: decVal_def)
  have alt: "skipAlternates (str ''92'' @ altBytes alts @ 0x3B # mods @ ?tail) 2 = 2 + length (altBytes alts)"
    using ok(1) by (intro skipAlternates_run) auto
  have semi: "at (str ''92'' @ altBytes alts @ 0x3B # mods @ ?tail) (2 + length (altBytes alts)) 0x3B"
    using at_run [of "2 + length (altBytes alts)" "str ''92'' @ altBytes alts" "0x3B" "mods @ ?tail"] by simp
  have md: "parseDecimal (str ''92'' @ altBytes alts @ 0x3B # mods @ ?tail) (2 + length (altBytes alts) + 1)
      = ((decVal mods, True), 2 + length (altBytes alts) + 1 + length mods)"
    using parseDecimal_run [OF ok(2) c'(2), of _ pre r'] c'(1) ok(3) by (simp add: pre_def)
  have ev: "keypressEvent (str ''92'' @ altBytes alts @ 0x3B # mods @ ?tail)
      (2 + length (altBytes alts) + 1 + length mods)"
    using keypressEvent_run [of ev cps _ "pre @ mods" q] assms by (simp add: ctrlSeq_ok_def pre_def)
  show ?thesis
    unfolding buf keypressWithMod_def key Let_def prod.case alt md k92
    using semi ev ok by (auto simp: not_less)
qed

section \<open>The key is found however the input is chunked\<close>

lemma isCtrlBackslash_at:
  assumes "ctrlSeq_ok alts mods ev cps"
  shows "isCtrlBackslash (pre @ ctrlSeq alts mods ev cps @ q)"
proof -
  let ?k = "ctrlSeq alts mods ev cps" and ?buf = "pre @ ctrlSeq alts mods ev cps @ q"
  have k: "?k = 0x1B # 0x5B # drop 2 ?k" "2 < length ?k" by (simp_all add: ctrlSeq_def)
  then have buf: "?buf = pre @ 0x1B # 0x5B # drop 2 ?k @ q" by (metis append_Cons)
  have "drop (length pre + 2) ?buf = drop 2 ?k @ q" unfolding buf using k(2) by simp
  moreover have "?buf ! length pre = 0x1B" "?buf ! (length pre + 1) = 0x5B"
    unfolding buf by (simp_all add: nth_append)
  moreover have "length pre + 2 < length ?buf" using k(2) by simp
  ultimately have "ctrlBackslashAt ?buf (length pre)"
    using keypressWithMod_run [OF assms, of q] by (simp add: ctrlBackslashAt_def)
  moreover have "length pre \<in> set [0..<length ?buf]" using k(2) by auto
  ultimately show ?thesis unfolding isCtrlBackslash_def list_ex_iff by blast
qed

lemma digits_no_esc: "digits ds \<Longrightarrow> 0x1B \<notin> set ds"
  by (auto simp: digits_def list_all_iff)

lemma ctrlSeq_no_esc:
  assumes "ctrlSeq_ok alts mods ev cps"
  shows "0x1B \<notin> set (tl (ctrlSeq alts mods ev cps))"
proof -
  have "0x1B \<notin> set (altBytes alts)"
    using assms digits_no_esc by (auto simp: altBytes_def ctrlSeq_ok_def list_all_iff)
  moreover have "0x1B \<notin> set (optField 0x3A ev)" "0x1B \<notin> set (optField 0x3B cps)" "0x1B \<notin> set mods"
    using assms digits_no_esc
    by (auto simp: optField_def ctrlSeq_ok_def list_all_iff split: option.splits)
  ultimately show ?thesis by (simp add: ctrlSeq_def)
qed

text \<open>Every proper prefix of the key is held back.\<close>

lemma ctrlBackslashPrefix_92:
  assumes "c = 0x3A \<or> c = 0x3B"
  shows "ctrlBackslashPrefix (0x1B # 0x5B # str ''92'' @ c # r)"
proof -
  have "takeWhile isDigit (str ''92'' @ c # r) = str ''92''"
    using assms by (auto simp: isDigit_def)
  then show ?thesis using assms by (auto simp: ctrlBackslashPrefix_def Let_def)
qed

lemma ctrlSeq_prefix:
  assumes "ctrlSeq alts mods ev cps = a @ b" "a \<noteq> []"
  shows "ctrlBackslashPrefix a"
proof -
  obtain c r where c: "ctrlSeq alts mods ev cps = 0x1B # 0x5B # str ''92'' @ c # r" "c = 0x3A \<or> c = 0x3B"
    by (cases alts) (auto simp: ctrlSeq_def altBytes_def)
  have a: "a = take (length a) (0x1B # 0x5B # str ''92'' @ c # r)" using assms(1) c(1) by simp
  have "0 < length a" using assms(2) by simp
  then consider "length a = 1" | "length a = 2" | "length a = 3" | "length a = 4" | "5 \<le> length a"
    by linarith
  then show ?thesis
  proof cases
    case 5
    then obtain n where "length a = 5 + n" by (metis le_Suc_ex)
    then have "a = 0x1B # 0x5B # str ''92'' @ c # take n r" using a by (simp add: numeral_eq_Suc)
    then show ?thesis using ctrlBackslashPrefix_92 [OF c(2)] by simp
  qed (use a in \<open>simp_all add: ctrlBackslashPrefix_def isPrefixOf_def Let_def isDigit_def\<close>)
qed

text \<open>The held fragment starts at the last ESC of the buffer.\<close>

lemma suffixLoop_no_esc: "0x1B \<notin> set (drop n buf) \<Longrightarrow> n \<le> m \<Longrightarrow> m \<le> length buf \<Longrightarrow>
    suffixLoop buf m = suffixLoop buf n"
proof (induction m)
  case (Suc m)
  show ?case
  proof (cases "n = Suc m")
    case False
    then have "buf ! m \<in> set (drop n buf)" using Suc.prems
      by (auto simp: in_set_conv_nth intro!: exI [of _ "m - n"])
    then have "buf ! m \<noteq> 0x1B" using Suc.prems(1) by metis
    then show ?thesis using Suc False by auto
  qed simp
qed simp

lemma suffixLen_last_esc:
  assumes "0x1B \<notin> set a"
  shows "ctrlBackslashSuffixLen (x @ 0x1B # a)
    = (if ctrlBackslashPrefix (0x1B # a) then Suc (length a) else 0)"
proof -
  let ?buf = "x @ 0x1B # a"
  have "suffixLoop ?buf (length ?buf) = suffixLoop ?buf (Suc (length x))"
    using assms by (intro suffixLoop_no_esc) auto
  then show ?thesis by (simp add: ctrlBackslashSuffixLen_def nth_append)
qed

lemma feed_pending_suffix:
  assumes "feed d p = (d', fwd, False)" "pending d @ p = x @ 0x1B # a"
    "0x1B \<notin> set a" "ctrlBackslashPrefix (0x1B # a)"
  shows "pending d' = 0x1B # a"
proof -
  have "drop (length x) (x @ 0x1B # a) = 0x1B # a" by simp
  then show ?thesis
    using assms suffixLen_last_esc [OF assms(3), of x]
    by (auto simp: feed_def Let_def simp del: take_append drop_append split: if_splits)
qed

text \<open>
  What holds while the key is still incomplete: the held bytes end the stream \<open>w\<close> fed so
  far, and once the key has begun they are exactly its bytes so far.
\<close>

definition holds_key :: "bytes \<Rightarrow> bytes \<Rightarrow> bytes \<Rightarrow> bytes \<Rightarrow> bool" where
  "holds_key pre k w pend \<longleftrightarrow>
     (\<exists>s. w = s @ pend) \<and> (\<forall>a b. a \<noteq> [] \<and> b \<noteq> [] \<and> k = a @ b \<and> w = pre @ a \<longrightarrow> pend = a)"

text \<open>How the next chunk continues a stream that is to contain the key.\<close>

lemma key_progress:
  assumes h: "holds_key pre k w pend" and eq: "w @ p = pre @ c" and c: "k = c @ b \<or> (\<exists>q. c = k @ q)"
    and len: "length w < length (pre @ k)" and "c \<noteq> []"
  shows "\<exists>x. pend @ p = x @ c"
proof (cases "length w \<le> length pre")
  case True
  then obtain pre' where "pre = w @ pre'" "p = pre' @ c"
    using eq by (auto simp: append_eq_append_conv2)
  then show ?thesis by (intro exI [of _ "pend @ pre'"]) simp
next
  case False
  then obtain a where a: "w = pre @ a" "a @ p = c" "a \<noteq> []"
    using eq by (auto simp: append_eq_append_conv2)
  have "\<exists>b. k = a @ b \<and> b \<noteq> []"
    using c a len by (auto simp: append_eq_append_conv2 append_eq_Cons_conv)
  then have "pend = a" using h a unfolding holds_key_def by blast
  then show ?thesis using a(2) by (intro exI [of _ "[]"]) simp
qed

lemma feed_key_incomplete:
  assumes ok: "ctrlSeq_ok alts mods ev cps" and k: "k = ctrlSeq alts mods ev cps"
    and h: "holds_key pre k w (pending d)" and f: "feed d p = (d', fwd, False)"
    and wp: "length w < length (pre @ k)"
  shows "holds_key pre k (w @ p) (pending d')"
  unfolding holds_key_def
proof (intro conjI allI impI)
  obtain s where "w = s @ pending d" using h by (auto simp: holds_key_def)
  then have "w @ p = (s @ fwd) @ pending d'" using feed_conserves [OF f] by simp
  then show "\<exists>s. w @ p = s @ pending d'" by blast
next
  fix a b assume "a \<noteq> [] \<and> b \<noteq> [] \<and> k = a @ b \<and> w @ p = pre @ a"
  then have a: "a \<noteq> []" "k = a @ b" and wpa: "w @ p = pre @ a" by auto
  obtain x where x: "pending d @ p = x @ a"
    using key_progress [OF h wpa disjI1 [OF a(2)] wp a(1)] by blast
  obtain a' where a': "a = 0x1B # a'"
    using a k by (cases a) (simp_all add: ctrlSeq_def)
  have "tl k = a' @ b" using a a' by simp
  then have "0x1B \<notin> set a'" using ctrlSeq_no_esc [OF ok] k by (metis UnCI set_append)
  moreover have "ctrlBackslashPrefix a" using ctrlSeq_prefix [OF _ a(1)] a(2) k by metis
  ultimately show "pending d' = a" using feed_pending_suffix [OF f] x a' by simp
qed

lemma feedAll_finds_key:
  assumes ok: "ctrlSeq_ok alts mods ev cps" and k: "k = ctrlSeq alts mods ev cps"
    and "holds_key pre k w (pending d)" "length w < length (pre @ k)" "w @ concat ps = pre @ k @ q"
  shows "snd (snd (feedAll d ps))"
  using assms(3-)
proof (induction ps arbitrary: d w)
  case Nil
  then have "length w = length (pre @ k @ q)" by simp
  then show ?case using Nil.prems(2) by simp
next
  case (Cons p ps)
  obtain d' fwd r where f: "feed d p = (d', fwd, r)" by (cases "feed d p") auto
  show ?case
  proof (cases r)
    case False
    have short: "length (w @ p) < length (pre @ k)"
    proof (rule ccontr)
      assume "\<not> length (w @ p) < length (pre @ k)"
      then obtain q' where q': "w @ p = pre @ k @ q'"
        using append_prefix_le [of "pre @ k" q "w @ p" "concat ps"] Cons.prems(3) by auto
      have "k \<noteq> []" using k by (simp add: ctrlSeq_def)
      then obtain x where "pending d @ p = x @ k @ q'"
        using key_progress [OF Cons.prems(1) q' _ Cons.prems(2)] by auto
      then have "isCtrlBackslash (pending d @ p)" using isCtrlBackslash_at [OF ok] k by simp
      then show False using f False by (auto simp: feed_def Let_def)
    qed
    have "holds_key pre k (w @ p) (pending d')"
      using feed_key_incomplete [OF ok k Cons.prems(1) _ Cons.prems(2)] f False by simp
    then have "snd (snd (feedAll d' ps))" using Cons.IH [of "w @ p" d'] short Cons.prems(3) by simp
    then show ?thesis using f False by (auto split: prod.splits)
  qed (simp add: f)
qed

text \<open>
  C29. The detach key is recognised however it is split over reads: once the chunks fed to a
  fresh scanner contain a Kitty \<open>ctrl+\<close> press anywhere (any alternate keys, any lock
  modifiers, any non-release event, any text), one of the feeds reports the detach.
\<close>

theorem feed_finds_split_key:
  assumes "ctrlSeq_ok alts mods ev cps"
    and "concat ps = pre @ ctrlSeq alts mods ev cps @ post"
  shows "snd (snd (feedAll newScanner ps))"
proof -
  have "holds_key pre (ctrlSeq alts mods ev cps) [] (pending newScanner)"
    by (simp add: holds_key_def newScanner_def)
  then show ?thesis using feedAll_finds_key [OF assms(1) refl, of pre "[]"] assms(2)
    by (simp add: ctrlSeq_def)
qed

theorem feed_finds_split_key_witness:
  "snd (snd (feedAll newScanner [str ''ls'' @ [0x1B], str ''[9'', str ''2;'', str ''69:1'', str ''u!'']))"
  by (rule feed_finds_split_key [of "[]" "str ''69''" "Some (str ''1'')" None _ "str ''ls''" "str ''!''"])
    (simp_all add: ctrlSeq_ok_def digits_def isDigit_def decVal_def ctrlSeq_def altBytes_def optField_def)

lemma held_after_other_chord:
  assumes "\<not> isCtrlBackslash (0x1B # 0x5B # str ''92'' @ c # a)" "c = 0x3A \<or> c = 0x3B" "0x1B \<notin> set a"
    "pending d @ p = 0x1B # 0x5B # str ''92'' @ c # a"
  shows "feed d p = (\<lparr>pending = pending d @ p\<rparr>, [], False)"
proof -
  have "ctrlBackslashSuffixLen (pending d @ p) = length (pending d @ p)"
    unfolding assms(4) using ctrlBackslashPrefix_92 [OF assms(2), of a] assms(2,3)
      suffixLen_last_esc [of "0x5B # str ''92'' @ c # a" "[]"] by auto
  then show ?thesis using assms(1) unfolding assms(4) [symmetric] by (simp add: feed_def Let_def)
qed

lemma isCtrlBackslash_one_esc:
  assumes "0x1B \<notin> set r" "0x1C \<notin> set r" "\<not> keypressWithMod r 0x5C 4"
  shows "\<not> isCtrlBackslash (0x1B # 0x5B # r)"
proof
  let ?buf = "0x1B # 0x5B # r"
  assume "isCtrlBackslash ?buf"
  then have "\<exists>i\<in>{0..<length ?buf}. ctrlBackslashAt ?buf i"
    by (simp only: isCtrlBackslash_def list_ex_iff set_upt)
  then obtain i where "i \<in> {0..<length ?buf}" and at_i: "ctrlBackslashAt ?buf i" by (rule bexE)
  then have i: "i < length ?buf" by (simp only: atLeastLessThan_iff)
  then have esc': "?buf ! i = 0x1C \<or> ?buf ! i = 0x1B \<and> keypressWithMod (drop (i + 2) ?buf) 0x5C 4"
    using at_i unfolding ctrlBackslashAt_def by blast
  have raw: "0x1C \<notin> set ?buf" using assms(2) by simp
  have "?buf ! i \<in> set ?buf" by (rule nth_mem [OF i])
  then have esc: "?buf ! i = 0x1B" "keypressWithMod (drop (i + 2) ?buf) 0x5C 4"
    using esc' raw by metis+
  have "i = 0"
  proof (cases i)
    case (Suc j)
    then have "(0x5B # r) ! j = 0x1B" "j < length (0x5B # r)" using esc(1) i by simp_all
    then have "0x1B \<in> set (0x5B # r)" using nth_mem by metis
    then show ?thesis using assms(1) by simp
  qed simp
  then show False using esc(2) assms(3) by simp
qed

lemma keypressWithMod_other:
  assumes "digits mods" "mods \<noteq> []" "(decVal mods - 1) AND 0x3F \<noteq> 4"
  shows "\<not> keypressWithMod (str ''92;'' @ mods @ 0x75 # t) 0x5C 4"
proof -
  let ?buf = "str ''92;'' @ mods @ 0x75 # t"
  have "digits (str ''92'')" by (simp add: digits_def isDigit_def)
  then have key: "parseDecimal ?buf 0 = ((decVal (str ''92''), True), 2)"
    using parseDecimal_run [of "str ''92''" "0x3B" 0 "[]" "mods @ 0x75 # t"] by simp
  have k92: "decVal (str ''92'') = 0x5C" by (simp add: decVal_def)
  have alt: "skipAlternates ?buf 2 = 2"
    using skipAlternates_run [of "[]" 2 "str ''92''" "mods @ 0x75 # t"] by (simp add: altBytes_def)
  have semi: "at ?buf 2 0x3B" by (simp add: at_def)
  have md: "parseDecimal ?buf 3 = ((decVal mods, True), 3 + length mods)"
    using parseDecimal_run [OF assms(1), of "0x75" 3 "str ''92;''" t] assms(2) by simp
  show ?thesis
    using assms(3) md semi unfolding keypressWithMod_def key Let_def prod.case alt k92 by auto
qed

text \<open>
  C40. What the hold-back does to other chords of the same key: after a complete Kitty report of
  the backslash key with modifiers other than ctrl (alt+backslash is \<open>CSI 92;3u\<close>), the
  scanner forwards nothing, and keeps forwarding nothing whatever is typed until the next ESC
  or raw detach byte, although no continuation can turn the report into the detach key.
\<close>

theorem other_chord_withholds_input:
  assumes "digits mods" "mods \<noteq> []" "(decVal mods - 1) AND 0x3F \<noteq> 4"
    and "0x1B \<notin> set t" "0x1C \<notin> set t"
    and "pending d @ p = 0x1B # str ''[92;'' @ mods @ 0x75 # t"
  shows "feed d p = (\<lparr>pending = pending d @ p\<rparr>, [], False)"
proof (rule held_after_other_chord)
  let ?r = "str ''92;'' @ mods @ 0x75 # t"
  have "0x1B \<notin> set mods" "0x1C \<notin> set mods"
    using assms(1) by (auto simp: digits_def list_all_iff isDigit_def)
  then have "\<not> isCtrlBackslash (0x1B # 0x5B # ?r)"
    using assms keypressWithMod_other [OF assms(1-3), of t]
    by (intro isCtrlBackslash_one_esc) auto
  then show "\<not> isCtrlBackslash (0x1B # 0x5B # str ''92'' @ 0x3B # mods @ 0x75 # t)" by simp
  show "0x1B \<notin> set (mods @ 0x75 # t)" using assms(4) \<open>0x1B \<notin> set mods\<close> by simp
qed (use assms(6) in auto)

theorem other_chord_withholds_input_witness:
  "feed \<lparr>pending = 0x1B # str ''[92;3u''\<rparr> (str ''ls -l'') = (\<lparr>pending = 0x1B # str ''[92;3uls -l''\<rparr>, [], False)"
  using other_chord_withholds_input [of "str ''3''" "str ''ls -l''" "\<lparr>pending = 0x1B # str ''[92;3u''\<rparr>" "str ''ls -l''"]
  by (simp add: digits_def isDigit_def decVal_def)

end
