(* ===== verification/Attach_Input.thy ===== *)
theory Attach_Input
  imports Ctrlkey Frame Go_Errors
begin

text \<open>
  \<open>client_attach_input.go\<close>: the loop that forwards terminal input to the session until the
  detach key, the end of the input or an error. The terminal is the sequence of what its reads
  return, interleaved with the expiry of the Escape timer; the connection is the sequence of the
  answers of \<open>send\<close>. Theorems: no input is lost or reordered, an Escape on its own is
  forwarded when the timer expires, and nothing follows a detach.
\<close>

record inputLoop =
  scanner :: detachScanner
  armed :: bool
  sentFrames :: "(FrameTag \<times> bytes) list"
  sendFaults :: "goerr option list"
  returned :: "goerr option option"

definition escByte :: byte where "escByte = 0x1B"

text \<open>\<open>send\<close>: a frame that is written counts as sent, one whose write fails does not.\<close>

definition sendFrame :: "inputLoop \<Rightarrow> FrameTag \<Rightarrow> bytes \<Rightarrow> inputLoop \<times> goerr option" where
  "sendFrame l tag p =
     (case sendFaults l of
        Some e # fl \<Rightarrow> (l\<lparr>sendFaults := fl\<rparr>, Some e)
      | _ \<Rightarrow> (l\<lparr>sendFaults := tl (sendFaults l), sentFrames := sentFrames l @ [(tag, p)]\<rparr>, None))"

text \<open>The closure \<open>flush\<close>\<close>

definition flushInput :: "inputLoop \<Rightarrow> inputLoop \<times> goerr option" where
  "flushInput l =
     (case flush (scanner l) of
        (d, held) \<Rightarrow> let l = l\<lparr>scanner := d\<rparr> in
          if length held > 0 then sendFrame l FrameInput held else (l, None))"

text \<open>A new read is requested; the timer runs when a lone Escape is held.\<close>

definition awaitRead :: "inputLoop \<Rightarrow> inputLoop" where
  "awaitRead l = l\<lparr>armed := (pending (scanner l) = [escByte])\<rparr>"

definition startInput :: "goerr option list \<Rightarrow> inputLoop" where
  "startInput faults = awaitRead \<lparr>scanner = newScanner, armed = False, sentFrames = [], sendFaults = faults, returned = None\<rparr>"

definition readError :: "goerr \<Rightarrow> goerr" where
  "readError e = Errorf ''attach: read terminal: %w'' e"

text \<open>
  The deferred function, when a read is still pending: the loop has returned because a send
  failed at the timer, and that read ends with \<open>e\<close>.
\<close>

definition joinPending :: "goerr option \<Rightarrow> goerr option \<Rightarrow> goerr option" where
  "joinPending ret e =
     (case withoutExpectedAttachShutdownErrors e True of
        None \<Rightarrow> ret
      | Some x \<Rightarrow> errorsJoin [ret, Some (readError x)])"

datatype inputEvent = TimerFires "goerr option" | ReadReturns bytes "goerr option"

text \<open>The branch \<open>case <-timeout\<close>; the argument is how the pending read would end.\<close>

definition onTimer :: "inputLoop \<Rightarrow> goerr option \<Rightarrow> inputLoop" where
  "onTimer l late =
     (case flushInput l of
        (l, Some e) \<Rightarrow> l\<lparr>returned := Some (joinPending (Some e) late)\<rparr>
      | (l, None) \<Rightarrow> l\<lparr>armed := False\<rparr>)"

text \<open>What follows the forwarding of a read: its error, or the next round.\<close>

definition afterRead :: "inputLoop \<Rightarrow> goerr option \<Rightarrow> inputLoop" where
  "afterRead l rerr =
     (case rerr of
        None \<Rightarrow> awaitRead l
      | Some e \<Rightarrow>
          if errorsIs e ErrEOF then
            (case flushInput l of
               (l, Some fe) \<Rightarrow>
                 l\<lparr>returned := Some (errorsJoin [Some fe, withoutExpectedAttachShutdownErrors rerr True])\<rparr>
             | (l, None) \<Rightarrow>
                 (case withoutExpectedAttachShutdownErrors rerr True of
                    Some e \<Rightarrow> l\<lparr>returned := Some (Some (readError e))\<rparr>
                  | None \<Rightarrow> l\<lparr>returned := Some None\<rparr>))
          else l\<lparr>returned := Some (Some (readError e))\<rparr>)"

definition detachFrame :: "inputLoop \<Rightarrow> goerr option \<Rightarrow> inputLoop" where
  "detachFrame l rerr =
     (case sendFrame l FrameDetach [] of
        (l, Some e) \<Rightarrow> l\<lparr>returned := Some (Some e)\<rparr>
      | (l, None) \<Rightarrow>
          (case withoutExpectedAttachShutdownErrors rerr True of
             Some e \<Rightarrow> l\<lparr>returned := Some (errorsJoin [Some (Sentinel ErrAttachDetached), Some (readError e)])\<rparr>
           | None \<Rightarrow> l\<lparr>returned := Some (Some (Sentinel ErrAttachDetached))\<rparr>))"

text \<open>The branch \<open>case read := <-results\<close>\<close>

definition onRead :: "inputLoop \<Rightarrow> bytes \<Rightarrow> goerr option \<Rightarrow> inputLoop" where
  "onRead l data rerr =
     (let l = l\<lparr>armed := False\<rparr> in
      if length data > 0 then
        (case feed (scanner l) data of
           (d, forward, detach) \<Rightarrow>
             let l = l\<lparr>scanner := d\<rparr> in
             case (if length forward > 0 then sendFrame l FrameInput forward else (l, None)) of
               (l, Some e) \<Rightarrow> l\<lparr>returned := Some (Some e)\<rparr>
             | (l, None) \<Rightarrow> if detach then detachFrame l rerr else afterRead l rerr)
      else afterRead l rerr)"

text \<open>One round of the \<open>select\<close>: the timer only fires while it runs.\<close>

definition inputStep :: "inputLoop \<Rightarrow> inputEvent \<Rightarrow> inputLoop" where
  "inputStep l ev =
     (if returned l \<noteq> None then l
      else case ev of
        TimerFires late \<Rightarrow> if armed l then onTimer l late else l
      | ReadReturns data rerr \<Rightarrow> onRead l data rerr)"

definition runAttachInput :: "goerr option list \<Rightarrow> inputEvent list \<Rightarrow> inputLoop" where
  "runAttachInput faults evs = foldl inputStep (startInput faults) evs"

section \<open>Nothing is lost\<close>

definition inputSent :: "(FrameTag \<times> bytes) list \<Rightarrow> bytes" where
  "inputSent fs = concat (map snd (filter (\<lambda>(t, p). t = FrameInput) fs))"

fun readData :: "inputEvent \<Rightarrow> bytes" where
  "readData (ReadReturns data e) = data"
| "readData (TimerFires e) = []"

lemma inputSent_append [simp]: "inputSent (fs @ gs) = inputSent fs @ inputSent gs"
  by (simp add: inputSent_def)

lemma inputSent_simps [simp]: "inputSent [] = []" "inputSent [(FrameInput, p)] = p" "inputSent [(FrameDetach, p)] = []"
  by (simp_all add: inputSent_def frame_tag_defs)

definition working :: "inputLoop \<Rightarrow> bool" where
  "working l \<longleftrightarrow> list_all (\<lambda>e. e = None) (sendFaults l)"

lemma sendFrame_working:
  "working l \<Longrightarrow> sendFrame l t p = (l\<lparr>sendFaults := tl (sendFaults l), sentFrames := sentFrames l @ [(t, p)]\<rparr>, None)"
  by (cases "sendFaults l") (auto simp: sendFrame_def working_def)

lemma working_tl: "working l \<Longrightarrow> list_all (\<lambda>e. e = None) (tl (sendFaults l))"
  by (cases "sendFaults l") (simp_all add: working_def)

lemma flushInput_working:
  assumes "working l"
  obtains l' where "flushInput l = (l', None)" "working l'" "returned l' = returned l" "pending (scanner l') = []"
    "inputSent (sentFrames l') = inputSent (sentFrames l) @ pending (scanner l)"
    "\<forall>f\<in>set (sentFrames l'). f \<in> set (sentFrames l) \<or> fst f = FrameInput" "armed l' = armed l"
proof (cases "pending (scanner l) = []")
  case True
  then show ?thesis using that [of "l\<lparr>scanner := (scanner l)\<lparr>pending := []\<rparr>\<rparr>"] assms
    by (simp add: flushInput_def flush_def working_def)
next
  case False
  let ?l = "l\<lparr>scanner := (scanner l)\<lparr>pending := []\<rparr>\<rparr>"
  have "working ?l" using assms by (simp add: working_def)
  then have f: "flushInput l = (?l\<lparr>sendFaults := tl (sendFaults ?l), sentFrames := sentFrames ?l @ [(FrameInput, pending (scanner l))]\<rparr>, None)"
    using False by (simp add: flushInput_def flush_def sendFrame_working)
  show ?thesis by (rule that [OF f]) (use working_tl [OF assms] in \<open>auto simp: working_def\<close>)
qed

text \<open>
  With a connection that takes its writes: what was sent and what is held is what was read; once
  the loop has returned, what was sent is a prefix of it, all of it at the end of the input, and a
  detach frame is the last one and returns the detach error. A lone Escape is never held without
  the timer.
\<close>

definition forwarding :: "bytes \<Rightarrow> inputLoop \<Rightarrow> bool" where
  "forwarding input l \<longleftrightarrow> working l \<and>
     (case returned l of
        None \<Rightarrow> inputSent (sentFrames l) @ pending (scanner l) = input \<and>
          (\<forall>f\<in>set (sentFrames l). fst f = FrameInput) \<and> (pending (scanner l) = [escByte] \<longrightarrow> armed l)
      | Some r \<Rightarrow> prefix (inputSent (sentFrames l)) input \<and> (r = None \<longrightarrow> inputSent (sentFrames l) = input) \<and>
          (\<exists>fs end. sentFrames l = fs @ end \<and> (\<forall>f\<in>set fs. fst f = FrameInput) \<and>
             (end = [] \<or> end = [(FrameDetach, [])] \<and> ErrAttachDetached \<in> set (causesOf r))))"

lemma forwarding_returned:
  assumes "working l" "returned l = Some r" "\<forall>f\<in>set (sentFrames l). fst f = FrameInput"
    "prefix (inputSent (sentFrames l)) input" "r = None \<longrightarrow> inputSent (sentFrames l) = input"
  shows "forwarding input l"
proof -
  have "\<exists>fs end. sentFrames l = fs @ end \<and> (\<forall>f\<in>set fs. fst f = FrameInput) \<and>
      (end = [] \<or> end = [(FrameDetach, [])] \<and> ErrAttachDetached \<in> set (causesOf r))"
    using assms(3) by (intro exI [of _ "sentFrames l"] exI [of _ "[]"]) simp
  then show ?thesis using assms by (simp add: forwarding_def)
qed

lemma forwarding_afterRead:
  assumes "working l" "returned l = None" "inputSent (sentFrames l) @ pending (scanner l) = input"
    "\<forall>f\<in>set (sentFrames l). fst f = FrameInput"
  shows "forwarding input (afterRead l rerr)"
proof (cases rerr)
  case None
  then show ?thesis using assms by (simp add: afterRead_def awaitRead_def forwarding_def working_def)
next
  case (Some e)
  show ?thesis
  proof (cases "errorsIs e ErrEOF")
    case True
    obtain l' where l': "flushInput l = (l', None)" "working l'" "inputSent (sentFrames l') = input"
        "\<forall>f\<in>set (sentFrames l'). fst f = FrameInput"
      using flushInput_working [OF assms(1)] assms(3,4) by (metis (no_types, lifting))
    then have "afterRead l rerr = l'\<lparr>returned := Some (map_option readError (withoutExpectedAttachShutdownErrors rerr True))\<rparr>"
      using Some True by (simp add: afterRead_def split: option.split)
    then show ?thesis using l' by (intro forwarding_returned) (auto simp: working_def)
  next
    case False
    then have "afterRead l rerr = l\<lparr>returned := Some (Some (readError e))\<rparr>" using Some by (simp add: afterRead_def)
    then show ?thesis using assms by (intro forwarding_returned) (auto simp: working_def)
  qed
qed

lemma forwarding_onRead:
  assumes "forwarding input l" "returned l = None"
  shows "forwarding (input @ data) (onRead l data rerr)"
proof (cases "data = []")
  case True
  have "forwarding input (afterRead (l\<lparr>armed := False\<rparr>) rerr)"
    by (rule forwarding_afterRead) (use assms in \<open>simp_all add: forwarding_def working_def\<close>)
  then show ?thesis using True by (simp add: onRead_def)
next
  case False
  obtain d fwd detach where f: "feed (scanner l) data = (d, fwd, detach)" by (metis prod_cases3)
  let ?l = "l\<lparr>armed := False, scanner := d\<rparr>"
  have w: "working ?l" and i: "inputSent (sentFrames l) @ pending (scanner l) = input"
    and fs: "\<forall>f\<in>set (sentFrames l). fst f = FrameInput"
    using assms by (simp_all add: forwarding_def working_def)
  show ?thesis
  proof (cases detach)
    case True
    then have fw: "fwd = []" using f feed_detach_forwards_nothing [of "scanner l" data d fwd] by simp
    let ?m = "?l\<lparr>sendFaults := tl (sendFaults l), sentFrames := sentFrames l @ [(FrameDetach, [])]\<rparr>"
    define r where "r = (case withoutExpectedAttachShutdownErrors rerr True of
        None \<Rightarrow> Some (Sentinel ErrAttachDetached)
      | Some e \<Rightarrow> errorsJoin [Some (Sentinel ErrAttachDetached), Some (readError e)])"
    have "onRead l data rerr = ?m\<lparr>returned := Some r\<rparr>"
      using True fw f False sendFrame_working [OF w] by (simp add: onRead_def detachFrame_def r_def split: option.split)
    moreover have "ErrAttachDetached \<in> set (causesOf r)" "r \<noteq> None"
      by (auto simp: r_def errorsJoin_def causesOf_def map_filter_simps split: option.split)
    moreover have "\<exists>fs end. sentFrames ?m = fs @ end \<and> (\<forall>f\<in>set fs. fst f = FrameInput) \<and>
        (end = [] \<or> end = [(FrameDetach, [])] \<and> ErrAttachDetached \<in> set (causesOf r))"
      using fs calculation(2) by (intro exI [of _ "sentFrames l"] exI [of _ "[(FrameDetach, [])]"]) simp
    ultimately show ?thesis using working_tl [OF w] i
      by (auto simp: forwarding_def working_def)
  next
    case nd: False
    then have c: "fwd @ pending d = pending (scanner l) @ data" using f feed_conserves [of "scanner l" data d fwd] by simp
    show ?thesis
    proof (cases "fwd = []")
      case True
      then have "onRead l data rerr = afterRead ?l rerr" using False f nd by (simp add: onRead_def)
      then show ?thesis using w assms(2) i fs c True
        by (auto intro!: forwarding_afterRead)
    next
      case ne: False
      let ?m = "?l\<lparr>sendFaults := tl (sendFaults l), sentFrames := sentFrames l @ [(FrameInput, fwd)]\<rparr>"
      have "onRead l data rerr = afterRead ?m rerr"
        using False f nd ne sendFrame_working [OF w] by (simp add: onRead_def)
      moreover have "working ?m" using working_tl [OF w] by (simp add: working_def)
      ultimately show ?thesis using assms(2) i fs c by (auto intro!: forwarding_afterRead)
    qed
  qed
qed

lemma forwarding_onTimer:
  assumes "forwarding input l" "returned l = None" "armed l"
  shows "forwarding input (onTimer l late)"
proof -
  have w: "working l" and i: "inputSent (sentFrames l) @ pending (scanner l) = input"
    and fs: "\<forall>f\<in>set (sentFrames l). fst f = FrameInput"
    using assms by (simp_all add: forwarding_def)
  obtain l' where "flushInput l = (l', None)" "working l'" "returned l' = None" "pending (scanner l') = []"
      "inputSent (sentFrames l') = input" "\<forall>f\<in>set (sentFrames l'). fst f = FrameInput"
    using flushInput_working [OF w] i fs assms(2) by (metis (no_types, lifting))
  then show ?thesis by (simp add: onTimer_def forwarding_def working_def)
qed

text \<open>The data the loop has taken from the terminal.\<close>

fun consumed :: "inputLoop \<Rightarrow> inputEvent list \<Rightarrow> bytes" where
  "consumed l [] = []"
| "consumed l (ev # evs) = (if returned l \<noteq> None then [] else readData ev @ consumed (inputStep l ev) evs)"

lemma inputSteps_forwarding:
  "forwarding input l \<Longrightarrow> forwarding (input @ consumed l evs) (foldl inputStep l evs)"
proof (induction evs arbitrary: l input)
  case (Cons ev evs)
  show ?case
  proof (cases "returned l")
    case None
    have "forwarding (input @ readData ev) (inputStep l ev)"
      using Cons.prems None forwarding_onRead forwarding_onTimer by (cases ev) (auto simp: inputStep_def)
    from Cons.IH [OF this] show ?thesis using None by simp
  next
    case (Some r)
    then have "inputStep l ev = l" by (simp add: inputStep_def)
    then show ?thesis using Cons.IH [OF Cons.prems] Some by (cases evs) simp_all
  qed
qed simp

text \<open>
  C30. Terminal input reaches the session as typed: over a connection that takes its writes, the
  input frames sent followed by what the scanner still holds are exactly what was read, however
  reads and Escape timeouts interleave; a lone Escape that is held always has its timer running;
  at the end of the input all of it has been sent; and a detach frame is the last frame, after
  which the loop returns the detach error.
\<close>

theorem attach_input_forwarded:
  assumes "\<forall>e\<in>set faults. e = None"
  shows "case returned (runAttachInput faults evs) of
      None \<Rightarrow> inputSent (sentFrames (runAttachInput faults evs)) @ pending (scanner (runAttachInput faults evs)) =
          consumed (startInput faults) evs \<and>
        (\<forall>f\<in>set (sentFrames (runAttachInput faults evs)). fst f = FrameInput) \<and>
        (pending (scanner (runAttachInput faults evs)) = [escByte] \<longrightarrow> armed (runAttachInput faults evs))
    | Some r \<Rightarrow> prefix (inputSent (sentFrames (runAttachInput faults evs))) (consumed (startInput faults) evs) \<and>
        (r = None \<longrightarrow> inputSent (sentFrames (runAttachInput faults evs)) = consumed (startInput faults) evs) \<and>
        (\<exists>fs end. sentFrames (runAttachInput faults evs) = fs @ end \<and> (\<forall>f\<in>set fs. fst f = FrameInput) \<and>
           (end = [] \<or> end = [(FrameDetach, [])] \<and> ErrAttachDetached \<in> set (causesOf r)))"
proof -
  have "forwarding [] (startInput faults)"
    using assms by (simp add: forwarding_def startInput_def awaitRead_def working_def newScanner_def escByte_def list_all_iff)
  from inputSteps_forwarding [OF this, of evs] show ?thesis
    unfolding runAttachInput_def forwarding_def append_Nil by (rule conjunct2)
qed

theorem attach_input_forwarded_witness:
  "inputSent (sentFrames (runAttachInput [] [ReadReturns (str ''ab'' @ [0x1B]) None, TimerFires None])) = str ''ab'' @ [0x1B] \<and>
   returned (runAttachInput [] [ReadReturns (str ''ab'' @ [0x1B]) None, TimerFires None]) = None"
proof -
  let ?l = "runAttachInput [] [ReadReturns (str ''ab'' @ [0x1B]) None, TimerFires None]"
  have "returned ?l = None" "pending (scanner ?l) = []"
    "consumed (startInput []) [ReadReturns (str ''ab'' @ [0x1B]) None, TimerFires None] = str ''ab'' @ [0x1B]"
    by code_simp+
  then show ?thesis using attach_input_forwarded [of "[]" "[ReadReturns (str ''ab'' @ [0x1B]) None, TimerFires None]"]
    by simp
qed

end
