(* ===== verification/Attach_Client.thy ===== *)
theory Attach_Client
  imports Attach_Presentation Attach_Input Client_Api
begin

text \<open>
  \<open>client_attach.go\<close>: an attachment from the handshake to its end. The workers of
  \<open>runTerminalAttach\<close> (resizes, frames, input, the painter) are interleaved events on one
  state; the selection that ends the attachment, the events until the two polls that follow it, and
  the events until every worker has stopped are arguments. Lemmas: which errors the attachment
  returns, and that a clean detach returns none.
\<close>

section \<open>The workers\<close>

record 'g attachRun =
  arModels :: "'g attachModels"
  arInput :: inputLoop
  arSizes :: "(goerr + 16 word \<times> 16 word) list"
  arSizeFaults :: "goerr option list"
  arSizeFrames :: "(FrameTag \<times> bytes) list"
  arResizeErr :: "goerr option"
  arFrameErr :: "goerr option option"
  arSessionEnded :: bool

text \<open>\<open>send\<close> as the size reports use it; the input loop has its own record of what it sent.\<close>

definition sendSizeFrame :: "'g attachRun \<Rightarrow> bytes \<Rightarrow> 'g attachRun \<times> goerr option" where
  "sendSizeFrame s p =
     (case arSizeFaults s of
        Some e # fl \<Rightarrow> (s\<lparr>arSizeFaults := fl\<rparr>, Some (Errorf ''attach: send frame: %w'' e))
      | _ \<Rightarrow> (s\<lparr>arSizeFaults := tl (arSizeFaults s), arSizeFrames := arSizeFrames s @ [(FrameResize, p)]\<rparr>, None))"

text \<open>The closure \<open>sendSize\<close>; a terminal that has no more to say is one without a usable size.\<close>

definition sendSize :: "'g ghostty \<Rightarrow> 'g attachRun \<Rightarrow> 'g attachRun \<times> goerr option" where
  "sendSize G s =
     (let answer = (case arSizes s of [] \<Rightarrow> Inl (Sentinel ErrSizeUnavailable) | a # as \<Rightarrow> a);
          s = s\<lparr>arSizes := tl (arSizes s)\<rparr> in
      case answer of
        Inl e \<Rightarrow>
          if errorsIs e ErrSizeUnavailable then (s, None) else (s, Some (Errorf ''attach: read terminal size: %w'' e))
      | Inr (cols, rows) \<Rightarrow>
          if cols = 0 \<or> rows = 0 then (s, None)
          else
            (case applyResize G (arModels s) cols rows of
               (m, Inl e) \<Rightarrow> (s\<lparr>arModels := m\<rparr>, Some e)
             | (m, Inr rows) \<Rightarrow>
                 if rows = 0 then (s\<lparr>arModels := m\<rparr>, None)
                 else sendSizeFrame (s\<lparr>arModels := m\<rparr>) (EncodeResize rows cols)))"

text \<open>One round of the resize worker.\<close>

definition onResized :: "'g ghostty \<Rightarrow> 'g attachRun \<Rightarrow> 'g attachRun" where
  "onResized G s =
     (if arResizeErr s \<noteq> None then s
      else case sendSize G s of (s, e) \<Rightarrow> s\<lparr>arResizeErr := e\<rparr>)"

text \<open>One round of the frame worker.\<close>

definition onFrame :: "'g ghostty \<Rightarrow> 'g attachRun \<Rightarrow> goerr + FrameTag \<times> bytes \<Rightarrow> 'g attachRun" where
  "onFrame G s r =
     (if arFrameErr s \<noteq> None then s
      else case r of
        Inl e \<Rightarrow> s\<lparr>arFrameErr := Some (Some (Errorf ''attach: read frame: %w'' e))\<rparr>
      | Inr (tag, p) \<Rightarrow>
          if tag = FrameEnded then s\<lparr>arSessionEnded := True, arFrameErr := Some None\<rparr>
          else
            (case (if tag = FrameOutput then
                     (case applyOutput G (arModels s) p of
                        (m, resized, Some e) \<Rightarrow> (s\<lparr>arModels := m\<rparr>, Some e)
                      | (m, resized, None) \<Rightarrow> if resized then sendSize G (s\<lparr>arModels := m\<rparr>) else (s\<lparr>arModels := m\<rparr>, None))
                   else if tag = FrameResize then sendSize G s
                   else (s, None)) of
               (s, Some e) \<Rightarrow> s\<lparr>arFrameErr := Some (Some e)\<rparr>
             | (s, None) \<Rightarrow> s))"

datatype attachEvent = EvResized | EvFrameRead "goerr + FrameTag \<times> bytes" | EvInput inputEvent | EvPainted

fun attachEventStep :: "'g ghostty \<Rightarrow> 'g attachRun \<Rightarrow> attachEvent \<Rightarrow> 'g attachRun" where
  "attachEventStep G s EvResized = onResized G s"
| "attachEventStep G s (EvFrameRead r) = onFrame G s r"
| "attachEventStep G s (EvInput ev) = s\<lparr>arInput := inputStep (arInput s) ev\<rparr>"
| "attachEventStep G s EvPainted = s\<lparr>arModels := paintModels G (arModels s)\<rparr>"

definition attachEvents :: "'g ghostty \<Rightarrow> 'g attachRun \<Rightarrow> attachEvent list \<Rightarrow> 'g attachRun" where
  "attachEvents G s evs = foldl (attachEventStep G) s evs"

section \<open>How it ends\<close>

datatype selected = SelContext goerr | SelResize | SelFrame | SelInput | SelView

definition selectable :: "'g attachRun \<Rightarrow> selected \<Rightarrow> bool" where
  "selectable s sel \<longleftrightarrow>
     (case sel of
        SelContext e \<Rightarrow> True
      | SelResize \<Rightarrow> arResizeErr s \<noteq> None
      | SelFrame \<Rightarrow> arFrameErr s \<noteq> None
      | SelInput \<Rightarrow> returned (arInput s) \<noteq> None
      | SelView \<Rightarrow> viewErrs (arModels s) \<noteq> None)"

definition selectedResult :: "'g attachRun \<Rightarrow> selected \<Rightarrow> goerr option" where
  "selectedResult s sel =
     (case sel of
        SelContext e \<Rightarrow> Some e
      | SelResize \<Rightarrow> arResizeErr s
      | SelFrame \<Rightarrow> None
      | SelInput \<Rightarrow> (case returned (arInput s) of None \<Rightarrow> None | Some r \<Rightarrow> r)
      | SelView \<Rightarrow> viewErrs (arModels s))"

text \<open>The closure \<open>joinWorkerError\<close>\<close>

definition joinWorkerError :: "goerr option \<Rightarrow> goerr option \<Rightarrow> bool \<Rightarrow> goerr option" where
  "joinWorkerError result e shuttingDown =
     (case withoutExpectedAttachShutdownErrors e shuttingDown of None \<Rightarrow> result | Some x \<Rightarrow> errorsJoin [result, Some x])"

definition wasDetached :: "'g attachRun \<Rightarrow> bool" where
  "wasDetached s \<longleftrightarrow> (case returned (arInput s) of Some (Some e) \<Rightarrow> errorsIs e ErrAttachDetached | _ \<Rightarrow> False)"

text \<open>
  From the selection to the return: \<open>s\<close> is the state it is made in, \<open>mid\<close> that of the two
  polls, \<open>fin\<close> that when every worker has stopped. The flag is \<open>remoteStreamTerminated\<close>.
\<close>

definition attachShutdown ::
    "selected \<Rightarrow> goerr option \<Rightarrow> 'g attachRun \<Rightarrow> 'g attachRun \<Rightarrow> 'g attachRun \<Rightarrow> (goerr option \<times> bool) option" where
  "attachShutdown sel ctxErr s mid fin =
     (case (arFrameErr fin, returned (arInput fin)) of
        (Some frameFin, Some inputFin) \<Rightarrow>
          let result = selectedResult s sel;
              frameRes = (if sel = SelFrame then arFrameErr s else arFrameErr mid);
              frameDone = (frameRes \<noteq> None);
              shuttingDown = (ctxErr \<noteq> None);
              result = (if shuttingDown then
                          (case withoutExpectedAttachShutdownErrors result True of
                             None \<Rightarrow> ctxErr | Some x \<Rightarrow> errorsJoin [ctxErr, Some x])
                        else result);
              inputDone = (sel = SelInput \<or> returned (arInput mid) \<noteq> None);
              result = (if sel = SelInput then result
                        else case returned (arInput mid) of Some r \<Rightarrow> joinWorkerError result r shuttingDown | None \<Rightarrow> result);
              remoteStreamTerminated = (frameDone \<and> \<not> shuttingDown);
              result = (if sel = SelResize then result
                        else case arResizeErr fin of Some e \<Rightarrow> joinWorkerError result (Some e) True | None \<Rightarrow> result);
              frameResult = (case frameRes of Some r \<Rightarrow> r | None \<Rightarrow> frameFin);
              result = (if inputDone then result else joinWorkerError result inputFin True) in
          Some (joinWorkerError result frameResult (shuttingDown \<or> \<not> frameDone \<or> wasDetached fin), remoteStreamTerminated)
      | _ \<Rightarrow> None)"

definition attachOutcomeOf :: "'g attachRun \<Rightarrow> bool \<Rightarrow> attachOutcome" where
  "attachOutcomeOf fin remoteStreamTerminated =
     (if wasDetached fin then OutcomeDetached
      else if arSessionEnded fin then OutcomeSessionEnded
      else if remoteStreamTerminated then OutcomeDisconnected
      else OutcomeAborted)"

section \<open>The whole attachment\<close>

text \<open>The configuration, as the options change it one after the other; a nil option is skipped.\<close>

record attachConfig =
  cfMode :: string
  cfShowDetachInstructions :: bool

type_synonym attachOption = "attachConfig \<Rightarrow> attachConfig"

definition WithDetachInstructions :: attachOption where
  "WithDetachInstructions c = c\<lparr>cfShowDetachInstructions := True\<rparr>"

definition WithAttachMode :: "string \<Rightarrow> attachOption" where
  "WithAttachMode mode c = c\<lparr>cfMode := mode\<rparr>"

fun applyOptions :: "attachOption option list \<Rightarrow> attachConfig \<Rightarrow> attachConfig" where
  "applyOptions [] c = c"
| "applyOptions (None # os) c = applyOptions os c"
| "applyOptions (Some f # os) c = applyOptions os (f c)"

definition attachConfigOf :: "attachOption option list \<Rightarrow> attachConfig" where
  "attachConfigOf os = applyOptions os \<lparr>cfMode = [], cfShowDetachInstructions = False\<rparr>"

record attachEnv =
  aeEnterRaw :: "goerr option"
  aeRestore :: "goerr option"
  aePhysical :: physical
  aeSizes :: "(goerr + 16 word \<times> 16 word) list"
  aeSizeFaults :: "goerr option list"
  aeInputFaults :: "goerr option list"

text \<open>\<open>retErr = errors.Join(retErr, err)\<close> when there is an error.\<close>

definition joinDeferred :: "goerr option \<Rightarrow> goerr option \<Rightarrow> goerr option" where
  "joinDeferred ret e = (case e of None \<Rightarrow> ret | Some x \<Rightarrow> errorsJoin [ret, Some x])"

definition finishAttach :: "'g ghostty \<Rightarrow> 'g attachModels \<Rightarrow> attachOutcome \<Rightarrow> goerr option \<Rightarrow> physical \<times> goerr option" where
  "finishAttach G m oc ret = (case finishModels G m oc of (m, e) \<Rightarrow> (phys m, joinDeferred ret e))"

text \<open>Before the workers run, the size is sent.\<close>

definition attachedStart :: "'g ghostty \<Rightarrow> attachEnv \<Rightarrow> 'g attachModels \<Rightarrow> 'g attachRun \<times> goerr option" where
  "attachedStart G env m =
     sendSize G \<lparr>arModels = m, arInput = startInput (aeInputFaults env), arSizes = aeSizes env,
       arSizeFaults = aeSizeFaults env, arSizeFrames = [], arResizeErr = None, arFrameErr = None, arSessionEnded = False\<rparr>"

definition attachBody ::
    "'g ghostty \<Rightarrow> attachEnv \<Rightarrow> 'g attachModels \<Rightarrow> attachEvent list \<Rightarrow> selected \<Rightarrow> goerr option \<Rightarrow>
      attachEvent list \<Rightarrow> attachEvent list \<Rightarrow> (physical \<times> goerr option) option" where
  "attachBody G env m evs sel ctxErr midEvs finEvs =
     (case startModels G m of
        (m, Some e) \<Rightarrow> Some (finishAttach G m OutcomeAborted (Some e))
      | (m, None) \<Rightarrow>
          (case attachedStart G env m of
             (s, Some e) \<Rightarrow> Some (finishAttach G (arModels s) OutcomeAborted (Some e))
           | (s, None) \<Rightarrow>
               let s = attachEvents G s evs; mid = attachEvents G s midEvs; fin = attachEvents G mid finEvs in
               map_option (\<lambda>(ret, remote). finishAttach G (arModels fin) (attachOutcomeOf fin remote) ret)
                 (attachShutdown sel ctxErr s mid fin)))"

definition runTerminalAttach ::
    "'g ghostty \<Rightarrow> attachEnv \<Rightarrow> attachConfig \<Rightarrow> attachEvent list \<Rightarrow> selected \<Rightarrow> goerr option \<Rightarrow>
      attachEvent list \<Rightarrow> attachEvent list \<Rightarrow> (physical \<times> goerr option) option" where
  "runTerminalAttach G env c evs sel ctxErr midEvs finEvs =
     (case aeEnterRaw env of
        Some e \<Rightarrow> Some (aePhysical env, Some (Errorf ''attach: enter raw mode: %w'' e))
      | None \<Rightarrow>
          map_option (\<lambda>(ph, ret). (ph, joinDeferred ret (map_option (Errorf ''attach: restore terminal: %w'') (aeRestore env))))
            (case newTerminal G DefaultCols DefaultRows of
               Inl e \<Rightarrow> Some (aePhysical env, Some (Errorf ''attach: initialize terminal state: %w'' (vtErr e)))
             | Inr t \<Rightarrow> attachBody G env (newAttachModels t (cfMode c) (cfShowDetachInstructions c) (aePhysical env)) evs sel ctxErr midEvs finEvs))"

text \<open>The stream of \<open>Client.Attach\<close>: the results of the handshake and of closing it.\<close>

record attachConn =
  acEncode :: "goerr option"
  acCtxAtEncode :: "goerr option"
  acLine :: "bytes \<times> goerr option"
  acCtxAtLine :: "goerr option"
  acDecode :: "bytes \<Rightarrow> goerr + reply"
  acClose :: "goerr option"

definition attachHandshake :: "attachConn \<Rightarrow> goerr option \<Rightarrow> goerr option" where
  "attachHandshake conn run =
     (case acEncode conn of
        Some e \<Rightarrow>
          (case acCtxAtEncode conn of
             Some c \<Rightarrow> Some c | None \<Rightarrow> Some (protocolError ''attach'' (Errorf ''write request: %w'' e)))
      | None \<Rightarrow>
          (case acLine conn of
             ([], Some e) \<Rightarrow>
               (case acCtxAtLine conn of
                  Some c \<Rightarrow> Some c | None \<Rightarrow> Some (protocolError ''attach'' (Errorf ''decode response: %w'' e)))
           | (line, _) \<Rightarrow>
               (case acDecode conn line of
                  Inl e \<Rightarrow> Some (protocolError ''attach'' (Errorf ''decode response: %w'' e))
                | Inr resp \<Rightarrow>
                    if \<not> rOK resp then Some (Plain (ResponseError ''attach'' (rError resp)) [])
                    else withoutAttachDetached run)))"

text \<open>\<open>run\<close> is the result of \<open>runTerminalAttach\<close> in a configuration with its mode normalized.\<close>

definition AttachClient ::
    "bool \<Rightarrow> (goerr + attachConn option) option \<Rightarrow> attachOption option list \<Rightarrow> (attachConfig \<Rightarrow> goerr option) \<Rightarrow> goerr option" where
  "AttachClient hasTerminal dialed options run =
     (if \<not> hasTerminal then Some (Sentinel (ErrOther ''attach: terminal is nil''))
      else case dialed of
        None \<Rightarrow> Some (Sentinel (ErrOther ''bgx: client has no dialer''))
      | Some d \<Rightarrow>
          let c = attachConfigOf options in
          (case normalized (cfMode c) of
             None \<Rightarrow>
               Some (Wrapped AttachOptionsError
                 (Some (Plain (Text ''unknown mode %q (want auto, isolated, or native)'' [str (cfMode c)]) [])))
           | Some mode \<Rightarrow>
               (case d of
                  Inl e \<Rightarrow> Some (Wrapped (Formatted ''%s: dial: %w'' [str ''attach'']) (Some e))
                | Inr None \<Rightarrow> Some (protocolError ''attach'' (Sentinel (ErrOther ''dialer returned a nil stream'')))
                | Inr (Some conn) \<Rightarrow>
                    joinDeferred (attachHandshake conn (run (c\<lparr>cfMode := mode\<rparr>)))
                      (map_option (Errorf ''attach: close stream: %w'')
                        (withoutExpectedAttachShutdownErrors (acClose conn) False)))))"

text \<open>The last mode given counts, and instructions once asked for stay.\<close>

lemma attachConfigOf_mode:
  "attachConfigOf (os @ Some (WithAttachMode m) # replicate n (Some WithDetachInstructions)) =
     \<lparr>cfMode = m, cfShowDetachInstructions = (n > 0 \<or> cfShowDetachInstructions (attachConfigOf os))\<rparr>"
proof -
  have app: "applyOptions (as @ bs) c = applyOptions bs (applyOptions as c)" for as bs c
    by (induction as c rule: applyOptions.induct) simp_all
  have "applyOptions (replicate n (Some WithDetachInstructions)) c = c\<lparr>cfShowDetachInstructions := (n > 0 \<or> cfShowDetachInstructions c)\<rparr>" for c
    by (induction n arbitrary: c) (simp_all add: WithDetachInstructions_def)
  then show ?thesis by (simp add: attachConfigOf_def app WithAttachMode_def)
qed

section \<open>Nothing is hidden\<close>

text \<open>The causes that an orderly shutdown does not explain.\<close>

definition unexpectedCauses :: "goerr option \<Rightarrow> sentinel set" where
  "unexpectedCauses e = {x \<in> set (causesOf e). \<not> expectedShutdown True x}"

lemma unexpected_None [simp]: "unexpectedCauses None = {}"
  by (simp add: unexpectedCauses_def causesOf_def)

lemma causes_pruned:
  "causesOf (withoutExpectedAttachShutdownErrors e eof) = filter (\<lambda>x. \<not> expectedShutdown eof x) (causesOf e)"
  by (cases e) (simp_all add: withoutExpectedAttachShutdownErrors_def causesOf_def [of None]
      causesOf_def [of "Some x" for x] causes_withoutExpected)

lemma causes_joinIf:
  "causesOf (case e of None \<Rightarrow> r | Some x \<Rightarrow> errorsJoin [r, Some x]) = causesOf r @ causesOf e"
  by (cases e) (simp_all add: causes_errorsJoin causesOf_def [of None])

lemma unexpected_join [simp]: "unexpectedCauses (joinWorkerError r e b) = unexpectedCauses r \<union> unexpectedCauses e"
  by (auto simp: unexpectedCauses_def joinWorkerError_def causes_joinIf causes_pruned expectedShutdown_def)

lemma unexpected_selected:
  "unexpectedCauses (case withoutExpectedAttachShutdownErrors e True of None \<Rightarrow> c | Some x \<Rightarrow> errorsJoin [c, Some x]) =
    unexpectedCauses c \<union> unexpectedCauses e"
  by (auto simp: unexpectedCauses_def causes_joinIf causes_pruned)

text \<open>What a worker has reported stays.\<close>

lemma sendSize_keeps:
  assumes "sendSize G s = (s', e)"
  shows "arResizeErr s' = arResizeErr s \<and> arFrameErr s' = arFrameErr s \<and> arInput s' = arInput s"
  using assms by (auto simp: sendSize_def sendSizeFrame_def Let_def split: list.splits sum.splits if_splits prod.splits option.splits)

lemma inputStep_returned: "returned l = Some r \<Longrightarrow> returned (inputStep l ev) = Some r"
  by (simp add: inputStep_def)

lemma step_keeps:
  "(arResizeErr s = Some e \<longrightarrow> arResizeErr (attachEventStep G s ev) = Some e) \<and>
   (arFrameErr s = Some f \<longrightarrow> arFrameErr (attachEventStep G s ev) = Some f) \<and>
   (returned (arInput s) = Some r \<longrightarrow> returned (arInput (attachEventStep G s ev)) = Some r)"
proof (cases ev)
  case EvResized
  obtain s' x where "sendSize G s = (s', x)" by fastforce
  then show ?thesis using EvResized sendSize_keeps [of G s s' x] by (simp add: onResized_def)
next
  case (EvFrameRead fr)
  have k: "arResizeErr s2 = arResizeErr s1 \<and> arInput s2 = arInput s1" if "sendSize G s1 = (s2, x)" for s1 s2 x
    using sendSize_keeps [OF that] by simp
  show ?thesis using EvFrameRead
    by (auto simp: onFrame_def split: sum.splits option.splits prod.splits if_splits dest!: k)
qed (simp_all add: inputStep_returned)

lemma events_keep:
  "(arResizeErr s = Some e \<longrightarrow> arResizeErr (attachEvents G s evs) = Some e) \<and>
   (arFrameErr s = Some f \<longrightarrow> arFrameErr (attachEvents G s evs) = Some f) \<and>
   (returned (arInput s) = Some r \<longrightarrow> returned (arInput (attachEvents G s evs)) = Some r)"
proof (induction evs arbitrary: s)
  case (Cons ev evs)
  then show ?case using step_keeps [of s e G ev f r] by (auto simp: attachEvents_def)
qed (simp add: attachEvents_def)

text \<open>What a worker reported, with nothing while it has not.\<close>

definition reportOf :: "goerr option option \<Rightarrow> goerr option" where
  "reportOf r = (case r of None \<Rightarrow> None | Some e \<Rightarrow> e)"

lemma attachShutdown_causes:
  assumes "attachShutdown sel ctxErr s mid fin = Some (result, remote)"
  shows "unexpectedCauses result =
    unexpectedCauses ctxErr \<union> unexpectedCauses (selectedResult s sel) \<union>
    (if sel = SelInput then {}
     else case returned (arInput mid) of Some r \<Rightarrow> unexpectedCauses r | None \<Rightarrow> unexpectedCauses (reportOf (returned (arInput fin)))) \<union>
    (if sel = SelResize then {} else unexpectedCauses (arResizeErr fin)) \<union>
    unexpectedCauses (case if sel = SelFrame then arFrameErr s else arFrameErr mid of Some r \<Rightarrow> r | None \<Rightarrow> reportOf (arFrameErr fin))"
proof -
  obtain ff fi where f: "arFrameErr fin = Some ff" "returned (arInput fin) = Some fi"
    using assms by (auto simp: attachShutdown_def split: option.splits)
  define r0 where "r0 = selectedResult s sel"
  define r1 where "r1 = (if ctxErr \<noteq> None then
      (case withoutExpectedAttachShutdownErrors r0 True of None \<Rightarrow> ctxErr | Some x \<Rightarrow> errorsJoin [ctxErr, Some x]) else r0)"
  define r2 where "r2 = (if sel = SelInput then r1
      else case returned (arInput mid) of Some r \<Rightarrow> joinWorkerError r1 r (ctxErr \<noteq> None) | None \<Rightarrow> r1)"
  define r3 where "r3 = (if sel = SelResize then r2
      else case arResizeErr fin of Some e \<Rightarrow> joinWorkerError r2 (Some e) True | None \<Rightarrow> r2)"
  define r4 where "r4 = (if sel = SelInput \<or> returned (arInput mid) \<noteq> None then r3 else joinWorkerError r3 fi True)"
  define fr where "fr = (if sel = SelFrame then arFrameErr s else arFrameErr mid)"
  have "\<exists>b. result = joinWorkerError r4 (case fr of Some r \<Rightarrow> r | None \<Rightarrow> ff) b"
    using assms unfolding attachShutdown_def f option.case prod.case Let_def r4_def r3_def r2_def r1_def r0_def fr_def
      option.inject prod.inject by blast
  then have "unexpectedCauses result = unexpectedCauses r4 \<union> unexpectedCauses (case fr of Some r \<Rightarrow> r | None \<Rightarrow> ff)" by auto
  moreover have "unexpectedCauses r1 = unexpectedCauses ctxErr \<union> unexpectedCauses r0"
    by (simp add: r1_def unexpected_selected)
  moreover have "unexpectedCauses r2 = unexpectedCauses r1 \<union> (if sel = SelInput then {}
      else case returned (arInput mid) of Some r \<Rightarrow> unexpectedCauses r | None \<Rightarrow> {})"
    by (simp add: r2_def split: option.split)
  moreover have "unexpectedCauses r3 = unexpectedCauses r2 \<union> (if sel = SelResize then {} else unexpectedCauses (arResizeErr fin))"
    by (simp add: r3_def split: option.split)
  moreover have "unexpectedCauses r4 = unexpectedCauses r3 \<union>
      (if sel = SelInput \<or> returned (arInput mid) \<noteq> None then {} else unexpectedCauses fi)"
    by (simp add: r4_def)
  ultimately show ?thesis unfolding fr_def [symmetric] f reportOf_def r0_def option.case
    by (cases "returned (arInput mid)") auto
qed


text \<open>Every attachment whose workers have stopped returns.\<close>

lemma attachShutdown_returns:
  "arFrameErr fin \<noteq> None \<Longrightarrow> returned (arInput fin) \<noteq> None \<Longrightarrow> attachShutdown sel ctxErr s mid fin \<noteq> None"
  by (auto simp: attachShutdown_def Let_def)

section \<open>A clean detach\<close>

lemma pruned_None: "withoutExpectedAttachShutdownErrors e eof = None \<longleftrightarrow> list_all (expectedShutdown eof) (causesOf e)"
  by (cases e) (simp_all add: withoutExpectedAttachShutdownErrors_def causesOf_def withoutExpected_None)

text \<open>
  C31. Detaching is no error: when the input worker ends with the detach, no other worker has a
  failure beyond the closing of the stream, and the context is alive, the attachment returns nil,
  whether the detach or the peer's closing is noticed first, and its outcome is the detach.
\<close>

theorem clean_detach:
  assumes "returned (arInput fin) = Some (Some (Sentinel ErrAttachDetached))"
    "returned (arInput mid) \<in> {None, Some (Some (Sentinel ErrAttachDetached))}"
    "sel = SelInput \<and> returned (arInput s) = Some (Some (Sentinel ErrAttachDetached)) \<or> sel = SelFrame"
    "\<forall>r. r \<in> set (map arFrameErr [s, mid, fin]) \<longrightarrow> list_all (expectedShutdown True) (causesOf (reportOf r))"
    "list_all (expectedShutdown True) (causesOf (arResizeErr fin))" "arFrameErr fin \<noteq> None"
  shows "\<exists>result remote. attachShutdown sel None s mid fin = Some (result, remote) \<and>
    withoutAttachDetached result = None \<and> attachOutcomeOf fin remote = OutcomeDetached"
proof -
  let ?d = "Sentinel ErrAttachDetached"
  have d: "withoutExpectedAttachShutdownErrors (Some ?d) b = Some ?d" for b
    by (simp add: withoutExpectedAttachShutdownErrors_def expectedShutdown_def)
  have det: "wasDetached fin" using assms(1) by (simp add: wasDetached_def)
  have r: "joinWorkerError x (arResizeErr fin) True = x" for x
    using pruned_None [of "arResizeErr fin" True] assms(5) by (simp add: joinWorkerError_def)
  have f: "joinWorkerError x (reportOf r) True = x" if "r \<in> set (map arFrameErr [s, mid, fin])" for x r
    using pruned_None [of "reportOf r" True] assms(4) [rule_format, OF that] by (simp add: joinWorkerError_def)
  have j: "joinWorkerError None (Some ?d) b = Some (Joined [?d])" for b
    by (simp add: joinWorkerError_def d errorsJoin_def map_filter_simps)
  have w: "withoutAttachDetached (Some ?d) = None" "withoutAttachDetached (Some (Joined [?d])) = None"
    by (simp_all add: withoutAttachDetached_def errorsJoin_def map_filter_simps)
  obtain ff where ff: "arFrameErr fin = Some ff" using assms(6) by blast
  have frame: "joinWorkerError x (case if sel = SelFrame then arFrameErr s else arFrameErr mid of Some r \<Rightarrow> r | None \<Rightarrow> ff) True = x" for x
    using f [of "arFrameErr s"] f [of "arFrameErr mid"] f [of "arFrameErr fin"] ff by (auto simp: reportOf_def split: option.split)
  have rr: "(case arResizeErr fin of Some e \<Rightarrow> joinWorkerError x (Some e) True | None \<Rightarrow> x) = x" for x
    using r by (simp split: option.split) metis
  from assms(3) show ?thesis
  proof
    assume a: "sel = SelInput \<and> returned (arInput s) = Some (Some ?d)"
    then have "\<exists>remote. attachShutdown sel None s mid fin = Some (Some ?d, remote)"
      using frame rr by (simp add: attachShutdown_def ff assms(1) selectedResult_def det)
    then show ?thesis using w det by (auto simp: attachOutcomeOf_def)
  next
    assume a: "sel = SelFrame"
    then have "\<exists>remote. attachShutdown sel None s mid fin = Some (Some (Joined [?d]), remote)"
      using frame rr assms(2) by (auto simp: attachShutdown_def ff assms(1) selectedResult_def det j)
    then show ?thesis using w det by (auto simp: attachOutcomeOf_def)
  qed
qed


section \<open>Witnesses\<close>

definition demoRun :: "goerr option \<Rightarrow> bytes attachRun" where
  "demoRun r = \<lparr>arModels = demoModels AttachModeNative PresentationNative None, arInput = (startInput [])\<lparr>returned := Some r\<rparr>,
     arSizes = [], arSizeFaults = [], arSizeFrames = [], arResizeErr = None,
     arFrameErr = Some (Some (Errorf ''attach: read frame: %w'' (Sentinel ErrEOF))), arSessionEnded = False\<rparr>"

lemma demoRun_fields: "arFrameErr (demoRun r) = Some (Some (Errorf ''attach: read frame: %w'' (Sentinel ErrEOF)))"
  "returned (arInput (demoRun r)) = Some r" "arResizeErr (demoRun r) = None" "attachEvents recorder (demoRun r) [] = demoRun r"
  by (simp_all add: demoRun_def attachEvents_def)


theorem clean_detach_witness:
  "\<exists>result remote. attachShutdown SelInput None (demoRun (Some (Sentinel ErrAttachDetached))) (demoRun (Some (Sentinel ErrAttachDetached)))
      (demoRun (Some (Sentinel ErrAttachDetached))) = Some (result, remote) \<and> withoutAttachDetached result = None \<and>
    attachOutcomeOf (demoRun (Some (Sentinel ErrAttachDetached))) remote = OutcomeDetached"
  by (rule clean_detach) (auto simp: demoRun_fields reportOf_def causesOf_def expectedShutdown_def)

end
