(* ===== verification/Start.thy ===== *)
theory Start
  imports Sessions Session_State
begin

text \<open>
  \<open>start.go\<close> and the start-up half of \<open>client.go\<close>: the checks of a start under the lock of
  the namespace, the spawning of the daemon and the wait for its session. The operating system is
  the results of the calls made; the file system is state; each round of the readiness wait is an
  observation. A wait that has seen all its observations without deciding is \<open>None\<close>. Lemmas:
  what a spawned daemon presupposes, when the wait ends, and what a refused overwrite destroys.
\<close>

definition maxSocketPathLen :: nat where "maxSocketPathLen = 104"
definition defaultConcurrency :: int where "defaultConcurrency = 3"

section \<open>Options\<close>

record StartOptions =
  soDir :: bytes
  soEnv :: "(bytes \<times> bytes) list"
  soStartTimeout :: int
  soMetadata :: "(bytes \<times> bytes) list"
  soOverwriteID :: bool
  soConcurrency :: int
  soRetentionCount :: int
  soScrollback :: Config

record RunSpec =
  rsDir :: bytes
  rsEnv :: "(bytes \<times> bytes) list"
  rsStartTimeout :: int
  rsOverwriteID :: bool
  rsMetadata :: "(bytes \<times> bytes) list"
  rsHeadSize :: int
  rsTailSize :: int
  rsStorage :: string
  rsStoragePath :: bytes
  rsRetention :: int
  rsConcurrency :: int

definition startOptions :: "RunSpec \<Rightarrow> StartOptions" where
  "startOptions spec =
     \<lparr>soDir = rsDir spec, soEnv = rsEnv spec, soStartTimeout = rsStartTimeout spec, soMetadata = rsMetadata spec,
      soOverwriteID = rsOverwriteID spec, soConcurrency = rsConcurrency spec, soRetentionCount = rsRetention spec,
      soScrollback = \<lparr>HeadSize = rsHeadSize spec, TailSize = rsTailSize spec, CompressionBacklogSize = 0,
        Storage = rsStorage spec, StoragePath = rsStoragePath spec\<rparr>\<rparr>"

section \<open>The namespace lock\<close>

definition wrapCleanupError :: "string \<Rightarrow> goerr option \<Rightarrow> goerr option" where
  "wrapCleanupError op e = (case e of None \<Rightarrow> None | Some e \<Rightarrow> Some (Wrapped (Formatted ''%s: %w'' [str op]) (Some e)))"

record lockCalls =
  lkMkdirAll :: "goerr option"
  lkOpenFile :: "goerr option"
  lkFlock :: "goerr option"
  lkClose :: "goerr option"
  lkUnlock :: "goerr option"

definition lockNamespace :: "lockCalls \<Rightarrow> goerr option" where
  "lockNamespace k =
     (case lkMkdirAll k of
        Some e \<Rightarrow> Some e
      | None \<Rightarrow>
          (case lkOpenFile k of
             Some e \<Rightarrow> Some e
           | None \<Rightarrow> (case lkFlock k of Some e \<Rightarrow> errorsJoin [Some e, lkClose k] | None \<Rightarrow> None)))"

definition releaseNamespaceLock :: "lockCalls \<Rightarrow> goerr option" where
  "releaseNamespaceLock k =
     errorsJoin [wrapCleanupError ''unlock namespace'' (lkUnlock k), wrapCleanupError ''close namespace lock'' (lkClose k)]"

section \<open>Spawning the daemon\<close>

record spawnCalls =
  spExecutable :: "goerr option"
  spMarshal :: "goerr option"
  spDevNull :: "goerr option"
  spCreateTemp :: "goerr + bytes"
  spStart :: "goerr option"
  spDevNullClose :: "goerr option"
  spStderrClose :: "goerr option"
  spKill :: "goerr option"
  spWait :: "goerr option"
  spRemove :: "goerr option"

definition without :: "sentinel \<Rightarrow> goerr option \<Rightarrow> goerr option" where
  "without s e = (case e of Some x \<Rightarrow> if errorsIs x s then None else Some x | None \<Rightarrow> None)"

definition teardownStartedDaemon :: "spawnCalls \<Rightarrow> goerr \<Rightarrow> goerr option" where
  "teardownStartedDaemon k cause =
     errorsJoin [Some cause, without ErrProcessDone (spKill k), without ErrProcessDone (spWait k),
       without ErrNotExist (spRemove k)]"

text \<open>The result is the error, or the path of the file that captures the daemon's stderr.\<close>

definition spawnDaemon :: "spawnCalls \<Rightarrow> goerr option + bytes" where
  "spawnDaemon k =
     (case spExecutable k of Some e \<Rightarrow> Inl (Some e) | None \<Rightarrow>
     (case spMarshal k of Some e \<Rightarrow> Inl (Some e) | None \<Rightarrow>
     (case spDevNull k of Some e \<Rightarrow> Inl (Some e) | None \<Rightarrow>
     (case spCreateTemp k of Inl e \<Rightarrow> Inl (errorsJoin [Some e, spDevNullClose k]) | Inr stderrPath \<Rightarrow>
     (case spStart k of
        Some e \<Rightarrow> Inl (errorsJoin [Some e, spDevNullClose k, spStderrClose k, spRemove k])
      | None \<Rightarrow>
          (case errorsJoin [spDevNullClose k, spStderrClose k] of
             Some e \<Rightarrow> Inl (teardownStartedDaemon k e)
           | None \<Rightarrow> Inr stderrPath))))))"

section \<open>The explanation of a failed start\<close>

fun splitLines :: "bytes \<Rightarrow> bytes list" where
  "splitLines [] = [[]]"
| "splitLines (b # bs) =
     (if b = 0x0A then [] # splitLines bs
      else case splitLines bs of [] \<Rightarrow> [[b]] | l # ls \<Rightarrow> (b # l) # ls)"

text \<open>The encodings of the runes of \<open>unicode.IsSpace\<close>\<close>

definition spaceRunes :: "bytes list" where
  "spaceRunes =
     map (\<lambda>b. [b]) [0x09, 0x0A, 0x0B, 0x0C, 0x0D, 0x20] @ [[0xC2, 0x85], [0xC2, 0xA0], [0xE1, 0x9A, 0x80]] @
     map (\<lambda>b. [0xE2, 0x80, b]) [0x80, 0x81, 0x82, 0x83, 0x84, 0x85, 0x86, 0x87, 0x88, 0x89, 0x8A, 0xA8, 0xA9, 0xAF] @
     [[0xE2, 0x81, 0x9F], [0xE3, 0x80, 0x80]]"

fun trimLeft :: "nat \<Rightarrow> bytes list \<Rightarrow> bytes \<Rightarrow> bytes" where
  "trimLeft 0 rs s = s"
| "trimLeft (Suc n) rs s =
     (case find (\<lambda>r. HasPrefix s r) rs of None \<Rightarrow> s | Some r \<Rightarrow> trimLeft n rs (drop (length r) s))"

definition TrimSpace :: "bytes \<Rightarrow> bytes" where
  "TrimSpace s =
     (let s = trimLeft (length s) spaceRunes s in rev (trimLeft (length s) (map rev spaceRunes) (rev s)))"

text \<open>\<open>data\<close> is what reading the file gives.\<close>

definition firstStderrLine :: "bytes \<Rightarrow> goerr + bytes \<Rightarrow> bytes" where
  "firstStderrLine path data =
     (if path = [] then []
      else case data of
        Inl e \<Rightarrow> []
      | Inr text \<Rightarrow> (case find (\<lambda>l. l \<noteq> []) (map TrimSpace (splitLines text)) of None \<Rightarrow> [] | Some l \<Rightarrow> l))"

definition startupError :: "bytes \<Rightarrow> goerr option \<Rightarrow> bytes \<Rightarrow> goerr + bytes \<Rightarrow> goerr" where
  "startupError i werr stderrPath data =
     (let line = firstStderrLine stderrPath data in
      if line \<noteq> [] then Plain (Text ''session %q daemon exited before startup completed: %s'' [i, line]) []
      else case werr of
        Some e \<Rightarrow> Plain (Text ''session %q daemon exited before startup completed: %v'' [i]) [e]
      | None \<Rightarrow> Plain (Text ''session %q daemon exited before startup completed'' [i]) [])"

section \<open>Waiting for the session\<close>

text \<open>The polls of \<open>recheckEndedRecord\<close>: a record, or whether the window has passed.\<close>

fun recheckEndedRecord :: "(Info option \<times> bool) list \<Rightarrow> Info option option" where
  "recheckEndedRecord [] = None"
| "recheckEndedRecord ((Some info, late) # ps) = Some (Some info)"
| "recheckEndedRecord ((None, late) # ps) = (if late then Some None else recheckEndedRecord ps)"

record waitRound =
  wrCtx :: "goerr option"
  wrLive :: "Info option"
  wrEnded :: "Info option"
  wrExited :: "goerr option option"
  wrLiveAgain :: "Info option"
  wrRecheck :: "(Info option \<times> bool) list"
  wrStderr :: "goerr + bytes"
  wrLate :: bool

fun waitForSession :: "bytes \<Rightarrow> bytes \<Rightarrow> waitRound list \<Rightarrow> (goerr + Info) option" where
  "waitForSession i stderrPath [] = None"
| "waitForSession i stderrPath (w # ws) =
     (case wrCtx w of Some e \<Rightarrow> Some (Inl e) | None \<Rightarrow>
     (case wrLive w of Some info \<Rightarrow> Some (Inr info) | None \<Rightarrow>
     (case wrEnded w of Some info \<Rightarrow> Some (Inr info) | None \<Rightarrow>
     (case wrExited w of
        Some werr \<Rightarrow>
          (case wrLiveAgain w of
             Some info \<Rightarrow> Some (Inr info)
           | None \<Rightarrow>
               (case recheckEndedRecord (wrRecheck w) of
                  None \<Rightarrow> None
                | Some (Some info) \<Rightarrow> Some (Inr info)
                | Some None \<Rightarrow> Some (Inl (startupError i werr stderrPath (wrStderr w)))))
      | None \<Rightarrow>
          if wrLate w then Some (Inl (Plain (Text ''timed out waiting for session %q to start'' [i]) []))
          else waitForSession i stderrPath ws))))"

definition joinDaemonFileCleanupError :: "goerr option \<Rightarrow> bytes \<Rightarrow> goerr option \<Rightarrow> goerr option" where
  "joinDaemonFileCleanupError current path removed =
     (case removed of
        None \<Rightarrow> current
      | Some e \<Rightarrow>
          if errorsIs e ErrNotExist then current
          else errorsJoin [current, Some (Wrapped (Formatted ''remove daemon stderr %q: %w'' [path]) (Some e))])"

section \<open>Start\<close>

record startEnv =
  seEnsureDirs :: "goerr option"
  seSocketDir :: bytes
  seRetentionDir :: bytes
  seLock :: lockCalls
  seNetwork :: network
  seSpawn :: spawnCalls
  seWait :: "waitRound list"

record startResult =
  stFs :: fsys
  stSpawned :: "sessionConfig option"
  stInfo :: "Info option"
  stErr :: "goerr option"

definition fsErr :: "fs_error \<Rightarrow> goerr" where
  "fsErr e = (case e of FsNotExist p \<Rightarrow> Wrapped (Formatted ''%s: %w'' [p]) (Some (Sentinel ErrNotExist))
                      | FsFault m \<Rightarrow> Sentinel (ErrOther m))"

definition failedStart :: "fsys \<Rightarrow> goerr option \<Rightarrow> startResult" where
  "failedStart fs e = \<lparr>stFs = fs, stSpawned = None, stInfo = None, stErr = e\<rparr>"

text \<open>The loop that removes what an overwritten session left.\<close>

fun removePaths :: "bytes \<Rightarrow> fsys \<Rightarrow> bytes list \<Rightarrow> fsys \<times> goerr option" where
  "removePaths i fs [] = (fs, None)"
| "removePaths i fs (p # ps) =
     (case fsRemove fs p of
        (fs, Some (FsFault m)) \<Rightarrow>
          (fs, Some (Wrapped (Formatted ''replace session %q: %w'' [i]) (Some (fsErr (FsFault m)))))
      | (fs, _) \<Rightarrow> removePaths i fs ps)"

definition spawnAndWait :: "startEnv \<Rightarrow> fsys \<Rightarrow> bytes \<Rightarrow> bytes list \<Rightarrow> StartOptions \<Rightarrow> startResult option" where
  "spawnAndWait env fs i command opts =
     (let conf = \<lparr>cfgID = i, cfgCommand = command, cfgDir = soDir opts, cfgEnv = soEnv opts, cfgMetadata = soMetadata opts,
                 cfgSocketPath = socketPath (seSocketDir env) i, cfgRetentionDir = seRetentionDir env,
                 cfgRetentionCount = soRetentionCount opts, cfgScrollback = soScrollback opts\<rparr> in
      case spawnDaemon (seSpawn env) of
        Inl e \<Rightarrow> Some (failedStart fs (Some (Wrapped (StartupError i) e)))
      | Inr stderrPath \<Rightarrow>
          let joinCleanup = (\<lambda>e. joinDaemonFileCleanupError e stderrPath (spRemove (seSpawn env))) in
          case waitForSession i stderrPath (seWait env) of
            None \<Rightarrow> None
          | Some (Inl e) \<Rightarrow>
              Some \<lparr>stFs = fs, stSpawned = Some conf, stInfo = None, stErr = joinCleanup (Some (Wrapped (StartupError i) (Some e)))\<rparr>
          | Some (Inr info) \<Rightarrow>
              if iError info \<noteq> [] then
                Some \<lparr>stFs = fs, stSpawned = Some conf, stInfo = None,
                  stErr = joinCleanup (Some (Wrapped (StartupError i)
                    (Some (Plain (Text ''session %q failed to start: %s'' [i, iError info]) []))))\<rparr>
              else Some \<lparr>stFs = fs, stSpawned = Some conf, stInfo = Some info, stErr = joinCleanup None\<rparr>)"

text \<open>From the concurrency check on.\<close>

definition startCounted :: "startEnv \<Rightarrow> fsys \<Rightarrow> bytes \<Rightarrow> bytes list \<Rightarrow> StartOptions \<Rightarrow> startResult option" where
  "startCounted env fs i command opts =
     (let limit = (if soConcurrency opts \<le> 0 then defaultConcurrency else soConcurrency opts);
          ns = Namespace i;
          (fs, active) = runningInNamespace (seNetwork env) fs (seSocketDir env) ns in
      if int (length active) \<ge> limit then Some (failedStart fs (Some (Plain (ConcurrencyLimitError ns limit active) [])))
      else spawnAndWait env fs i command opts)"

text \<open>Under the lock.\<close>

definition startLocked :: "json \<Rightarrow> startEnv \<Rightarrow> fsys \<Rightarrow> bytes \<Rightarrow> bytes list \<Rightarrow> StartOptions \<Rightarrow> startResult option" where
  "startLocked js env fs i command opts =
     (if liveInfo (seNetwork env) (seSocketDir env) i \<noteq> None then
        Some (failedStart fs (Some (Wrapped (Formatted ''session %q: %w'' [i]) (Some (Sentinel ErrSessionRunning)))))
      else
        case endedRecord js fs (seRetentionDir env) i of
          (fs, None) \<Rightarrow> startCounted env fs i command opts
        | (fs, Some _) \<Rightarrow>
            if \<not> soOverwriteID opts then
              Some (failedStart fs (Some (Wrapped (Formatted ''session %q: %w'' [i]) (Some (Sentinel ErrSessionExists)))))
            else
              (case removePaths i fs [RecordPath (seRetentionDir env) i, HistoryPath (seRetentionDir env) i] of
                 (fs, Some e) \<Rightarrow> Some (failedStart fs (Some e))
               | (fs, None) \<Rightarrow> startCounted env fs i command opts))"

definition Start :: "json \<Rightarrow> startEnv \<Rightarrow> fsys \<Rightarrow> bytes \<Rightarrow> bytes list \<Rightarrow> StartOptions \<Rightarrow> startResult option" where
  "Start js env fs i command opts =
     (if i = [] then Some (failedStart fs (Some (Sentinel (ErrOther ''id must not be empty''))))
      else if command = [] then Some (failedStart fs (Some (Sentinel (ErrOther ''a command is required''))))
      else if seEnsureDirs env \<noteq> None then Some (failedStart fs (seEnsureDirs env))
      else if length (socketPath (seSocketDir env) i) > maxSocketPathLen then
        Some (failedStart fs (Some (Plain (Text ''socket path for id %q exceeds %d bytes'' [i, decimal maxSocketPathLen]) [])))
      else
        case lockNamespace (seLock env) of
          Some e \<Rightarrow> Some (failedStart fs (Some e))
        | None \<Rightarrow>
            map_option (\<lambda>r. r\<lparr>stErr := errorsJoin [stErr r, releaseNamespaceLock (seLock env)]\<rparr>)
              (startLocked js env fs i command opts))"

definition Run :: "json \<Rightarrow> startEnv \<Rightarrow> fsys \<Rightarrow> bytes \<Rightarrow> bytes list \<Rightarrow> RunSpec \<Rightarrow> startResult option" where
  "Run js env fs i command spec = Start js env fs i command (startOptions spec)"

section \<open>What a start presupposes\<close>

text \<open>The file system the active sessions are counted on.\<close>

definition countedFs :: "json \<Rightarrow> startEnv \<Rightarrow> fsys \<Rightarrow> bytes \<Rightarrow> fsys" where
  "countedFs js env fs i =
     (case endedRecord js fs (seRetentionDir env) i of
        (fs, None) \<Rightarrow> fs
      | (fs, Some _) \<Rightarrow> fst (removePaths i fs [RecordPath (seRetentionDir env) i, HistoryPath (seRetentionDir env) i]))"

definition activeAtStart :: "json \<Rightarrow> startEnv \<Rightarrow> fsys \<Rightarrow> bytes \<Rightarrow> Info list" where
  "activeAtStart js env fs i =
     snd (runningInNamespace (seNetwork env) (countedFs js env fs i) (seSocketDir env) (Namespace i))"

definition startLimit :: "StartOptions \<Rightarrow> int" where
  "startLimit opts = (if soConcurrency opts \<le> 0 then 3 else soConcurrency opts)"

lemma spawnAndWait_spawned:
  assumes "spawnAndWait env fs i command opts = Some r" "stSpawned r = Some conf"
  shows "cfgID conf = i \<and> cfgCommand conf = command \<and> cfgSocketPath conf = socketPath (seSocketDir env) i \<and>
    cfgRetentionDir conf = seRetentionDir env"
  using assms by (auto simp: spawnAndWait_def Let_def failedStart_def split: sum.splits option.splits if_splits)

lemma spawnAndWait_ok:
  assumes "spawnAndWait env fs i command opts = Some r" "stErr r = None"
  shows "\<exists>info stderrPath. stInfo r = Some info \<and> iError info = [] \<and> stSpawned r \<noteq> None \<and>
    waitForSession i stderrPath (seWait env) = Some (Inr info)"
  using assms by (auto simp: spawnAndWait_def Let_def failedStart_def joinDaemonFileCleanupError_def errorsJoin_None
      split: sum.splits option.splits if_splits)

lemma startCounted_spawned:
  assumes "startCounted env fs0 i command opts = Some r" "stSpawned r = Some conf"
  shows "int (length (snd (runningInNamespace (seNetwork env) fs0 (seSocketDir env) (Namespace i)))) < startLimit opts \<and>
    cfgID conf = i \<and> cfgCommand conf = command \<and> cfgSocketPath conf = socketPath (seSocketDir env) i \<and>
    cfgRetentionDir conf = seRetentionDir env"
proof -
  obtain fs1 active where a: "runningInNamespace (seNetwork env) fs0 (seSocketDir env) (Namespace i) = (fs1, active)" by fastforce
  then have "int (length active) < startLimit opts \<and> spawnAndWait env fs1 i command opts = Some r"
    using assms by (auto simp: startCounted_def failedStart_def defaultConcurrency_def startLimit_def Let_def split: if_splits)
  then show ?thesis using spawnAndWait_spawned [OF _ assms(2)] a by auto
qed

lemma startLocked_spawned:
  assumes "startLocked js env fs i command opts = Some r" "stSpawned r = Some conf"
  shows "liveInfo (seNetwork env) (seSocketDir env) i = None \<and>
    (soOverwriteID opts \<or> snd (endedRecord js fs (seRetentionDir env) i) = None) \<and>
    startCounted env (countedFs js env fs i) i command opts = Some r"
proof -
  obtain fs2 rec where e: "endedRecord js fs (seRetentionDir env) i = (fs2, rec)" by fastforce
  have l: "liveInfo (seNetwork env) (seSocketDir env) i = None"
    using assms by (auto simp: startLocked_def failedStart_def split: if_splits)
  show ?thesis
  proof (cases rec)
    case None
    then show ?thesis using assms(1) e l by (simp add: startLocked_def countedFs_def)
  next
    case (Some info)
    obtain fs3 x where p: "removePaths i fs2 [RecordPath (seRetentionDir env) i, HistoryPath (seRetentionDir env) i] = (fs3, x)"
      by fastforce
    then have "soOverwriteID opts \<and> startCounted env fs3 i command opts = Some r"
      using Some assms e l by (auto simp: startLocked_def failedStart_def split: if_splits option.splits)
    then show ?thesis using l e p Some by (simp add: countedFs_def)
  qed
qed

lemma Start_spawned:
  assumes "Start js env fs i command opts = Some r" "stSpawned r = Some conf"
  shows "i \<noteq> [] \<and> command \<noteq> [] \<and> length (socketPath (seSocketDir env) i) \<le> 104 \<and> lockNamespace (seLock env) = None \<and>
    liveInfo (seNetwork env) (seSocketDir env) i = None \<and>
    (soOverwriteID opts \<or> snd (endedRecord js fs (seRetentionDir env) i) = None) \<and>
    int (length (activeAtStart js env fs i)) < startLimit opts \<and>
    cfgID conf = i \<and> cfgCommand conf = command \<and> cfgSocketPath conf = socketPath (seSocketDir env) i \<and>
    cfgRetentionDir conf = seRetentionDir env"
proof -
  have g: "i \<noteq> []" "command \<noteq> []" "length (socketPath (seSocketDir env) i) \<le> 104" "lockNamespace (seLock env) = None"
    using assms by (auto simp: Start_def failedStart_def maxSocketPathLen_def split: if_splits option.splits)
  then obtain r0 where "startLocked js env fs i command opts = Some r0" "stSpawned r0 = Some conf"
    using assms by (auto simp: Start_def failedStart_def split: if_splits option.splits)
  note s = startLocked_spawned [OF this(1,2)]
  note c = startCounted_spawned [OF s [THEN conjunct2, THEN conjunct2] \<open>stSpawned r0 = Some conf\<close>]
  from g s c show ?thesis unfolding activeAtStart_def by (elim conjE, intro conjI)
qed

text \<open>
  C9. A daemon is spawned only for a valid id and command whose socket path fits, under the
  namespace lock, when no session answers under the id, its retained record is absent or is to
  be overwritten, and the namespace has room; it is configured with exactly that id, command,
  socket and retention directory.
\<close>

theorem Start_spawns_only_fresh:
  assumes "Start js env fs i command opts = Some r" "stSpawned r = Some conf"
  shows "i \<noteq> [] \<and> command \<noteq> [] \<and> length (socketPath (seSocketDir env) i) \<le> 104 \<and> lockNamespace (seLock env) = None \<and>
    liveInfo (seNetwork env) (seSocketDir env) i = None \<and>
    (soOverwriteID opts \<or> snd (endedRecord js fs (seRetentionDir env) i) = None) \<and>
    int (length (activeAtStart js env fs i)) < startLimit opts \<and>
    cfgID conf = i \<and> cfgCommand conf = command \<and> cfgSocketPath conf = socketPath (seSocketDir env) i \<and>
    cfgRetentionDir conf = seRetentionDir env"
  by (rule Start_spawned [OF assms])

section \<open>Readiness\<close>

text \<open>
  A start without an error returns the metadata of a session that answered on its socket or had
  already left a record, and that reports no start-up failure; the daemon was spawned.
\<close>

lemma Start_ok_is_ready:
  assumes "Start js env fs i command opts = Some r" "stErr r = None"
  shows "\<exists>info w. stInfo r = Some info \<and> iError info = [] \<and> stSpawned r \<noteq> None \<and> w \<in> set (seWait env) \<and>
    (wrLive w = Some info \<or> wrEnded w = Some info \<or> wrLiveAgain w = Some info \<or> recheckEndedRecord (wrRecheck w) = Some (Some info))"
proof -
  have w: "\<exists>w\<in>set ws. wrLive w = Some info \<or> wrEnded w = Some info \<or> wrLiveAgain w = Some info \<or>
      recheckEndedRecord (wrRecheck w) = Some (Some info)" if "waitForSession i p ws = Some (Inr info)" for p ws info
    using that by (induction ws) (auto split: option.splits if_splits)
  obtain r0 where r0: "startLocked js env fs i command opts = Some r0" "stErr r0 = None" "stInfo r = stInfo r0" "stSpawned r = stSpawned r0"
    using assms by (auto simp: Start_def failedStart_def errorsJoin_None split: if_splits option.splits)
  have "\<exists>fs0 fs1 active. runningInNamespace (seNetwork env) fs0 (seSocketDir env) (Namespace i) = (fs1, active) \<and>
      spawnAndWait env fs1 i command opts = Some r0"
    using r0(1,2) by (auto simp: startLocked_def startCounted_def failedStart_def Let_def split: if_splits option.splits prod.splits)
  then obtain fs1 where s: "spawnAndWait env fs1 i command opts = Some r0" by blast
  from spawnAndWait_ok [OF s r0(2)] w r0(3,4) show ?thesis by fastforce
qed

text \<open>Every start decides once the deadline of its wait has passed.\<close>

lemma waitForSession_decides:
  assumes "list_ex wrLate ws" "\<forall>w\<in>set ws. recheckEndedRecord (wrRecheck w) \<noteq> None"
  shows "waitForSession i p ws \<noteq> None"
  using assms by (induction ws) (auto split: option.splits)

lemma recheck_decides: "list_ex snd ps \<Longrightarrow> recheckEndedRecord ps \<noteq> None"
  by (induction ps rule: recheckEndedRecord.induct) auto

text \<open>
  C32. Starting always ends: once the deadline of the readiness wait has passed in some round, and the
  polls after an early exit have reached theirs, the start has returned, whatever was observed.
\<close>

theorem Start_returns:
  assumes "list_ex wrLate (seWait env)" "\<forall>w\<in>set (seWait env). list_ex snd (wrRecheck w)"
  shows "\<exists>r. Start js env fs i command opts = Some r"
proof -
  have w: "waitForSession i p (seWait env) \<noteq> None" for p
    by (rule waitForSession_decides [OF assms(1)]) (use assms(2) recheck_decides in blast)
  have s: "spawnAndWait env f i command opts \<noteq> None" for f
    by (simp add: spawnAndWait_def Let_def w split: sum.split option.split)
  have c: "startCounted env f i command opts \<noteq> None" for f
    using s by (simp add: startCounted_def Let_def split: prod.split)
  then have "startLocked js env fs i command opts \<noteq> None"
    by (simp add: startLocked_def split: prod.split option.split)
  then show ?thesis by (auto simp: Start_def split: option.split)
qed

section \<open>A refused overwrite\<close>

definition goneFrom :: "fsys \<Rightarrow> bytes \<Rightarrow> bool" where "goneFrom fs p \<longleftrightarrow> p \<notin> fst ` set (fsFiles fs)"

lemma fsRemove_gone: "goneFrom fs p \<Longrightarrow> goneFrom (fst (fsRemove fs q)) p"
  using fsRemove_files [of fs q] by (auto simp: goneFrom_def)

lemma runningLoop_gone: "goneFrom fs p \<Longrightarrow> goneFrom (fst (runningLoop net sdir fs names)) p"
  by (induction net sdir fs names rule: runningLoop.induct)
    (auto simp: fsRemove_gone split: option.split prod.splits)

lemma fsReadDir_files: "fsFiles (fst (fsReadDir fs d)) = fsFiles fs"
  by (simp add: fsReadDir_def fsFault_def split: list.split option.split)

lemma runningInNamespace_gone: "goneFrom fs p \<Longrightarrow> goneFrom (fst (runningInNamespace net fs sdir ns)) p"
proof -
  assume g: "goneFrom fs p"
  obtain fs1 x where r: "fsReadDir fs sdir = (fs1, x)" by fastforce
  then have "goneFrom fs1 p" using g fsReadDir_files [of fs sdir] by (simp add: goneFrom_def)
  then show ?thesis using r runningLoop_gone
    by (cases x) (simp_all add: runningInNamespace_def listRunning_def split: prod.split, metis fst_conv)
qed

lemma fsRemove_quiet:
  assumes "fsFaults fs = []"
  shows "fsFaults (fst (fsRemove fs p)) = [] \<and> goneFrom (fst (fsRemove fs p)) p \<and> (\<forall>m. snd (fsRemove fs p) \<noteq> Some (FsFault m))"
  using assms by (auto simp: fsRemove_def fsFault_def goneFrom_def map_of_eq_None_iff split: option.split)

lemma removePaths_quiet:
  "fsFaults fs = [] \<Longrightarrow> \<exists>fs'. removePaths i fs ps = (fs', None) \<and> (\<forall>p\<in>set ps. goneFrom fs' p) \<and>
    (\<forall>p. goneFrom fs p \<longrightarrow> goneFrom fs' p)"
proof (induction ps arbitrary: fs)
  case (Cons p ps)
  obtain fs1 x where r: "fsRemove fs p = (fs1, x)" by fastforce
  note q = fsRemove_quiet [OF Cons.prems, of p, unfolded r fst_conv snd_conv]
  have "removePaths i fs (p # ps) = removePaths i fs1 ps"
    using r q by (auto split: option.split fs_error.split)
  then show ?case using Cons.IH [of fs1] q fsRemove_gone [of fs _ p] r by auto
qed simp

lemma startCounted_full:
  assumes "runningInNamespace (seNetwork env) fs (seSocketDir env) (Namespace i) = (fs', active)"
    "startLimit opts \<le> int (length active)"
  shows "startCounted env fs i command opts =
    Some (failedStart fs' (Some (Plain (ConcurrencyLimitError (Namespace i) (startLimit opts) active) [])))"
  using assms by (cases "soConcurrency opts \<le> 0") (simp_all add: startCounted_def Let_def startLimit_def defaultConcurrency_def)

definition isLimitError :: "goerr \<Rightarrow> bool" where
  "isLimitError e \<longleftrightarrow> (case e of Plain (ConcurrencyLimitError _ _ _) _ \<Rightarrow> True | _ \<Rightarrow> False)"

text \<open>
  C39. An overwrite destroys the retained session before it knows that it may start: when the
  namespace is full the start is refused with a concurrency error and nothing is spawned, but the
  record and the history of the ended session are gone.
\<close>

theorem refused_overwrite_loses_record:
  assumes "i \<noteq> []" "command \<noteq> []" "seEnsureDirs env = None" "length (socketPath (seSocketDir env) i) \<le> 104"
    "lockNamespace (seLock env) = None" "liveInfo (seNetwork env) (seSocketDir env) i = None" "soOverwriteID opts"
    "fsFaults fs = []" "endedRecord js fs (seRetentionDir env) i = (fs, Some info)"
    "startLimit opts \<le> int (length (activeAtStart js env fs i))"
  shows "\<exists>r e. Start js env fs i command opts = Some r \<and> stSpawned r = None \<and> stErr r = Some e \<and>
    errorsAs isLimitError e \<noteq> None \<and>
    goneFrom (stFs r) (RecordPath (seRetentionDir env) i) \<and> goneFrom (stFs r) (HistoryPath (seRetentionDir env) i)"
proof -
  let ?rm = "removePaths i fs [RecordPath (seRetentionDir env) i, HistoryPath (seRetentionDir env) i]"
  obtain fs1 where rm: "?rm = (fs1, None)" and g: "goneFrom fs1 (RecordPath (seRetentionDir env) i)"
      "goneFrom fs1 (HistoryPath (seRetentionDir env) i)"
    using removePaths_quiet [OF assms(8)] by fastforce
  obtain fs2 active where a: "runningInNamespace (seNetwork env) fs1 (seSocketDir env) (Namespace i) = (fs2, active)" by fastforce
  have l: "startLimit opts \<le> int (length active)"
    using assms(9,10) rm a by (simp add: activeAtStart_def countedFs_def)
  let ?e = "Plain (ConcurrencyLimitError (Namespace i) (startLimit opts) active) []"
  have "startLocked js env fs i command opts = Some (failedStart fs2 (Some ?e))"
    using assms(6,7,9) startCounted_full [OF a l] unfolding startLocked_def by (simp add: rm del: removePaths.simps)
  then have "Start js env fs i command opts =
      Some ((failedStart fs2 (Some ?e))\<lparr>stErr := errorsJoin [Some ?e, releaseNamespaceLock (seLock env)]\<rparr>)"
    using assms(1-5) by (simp add: Start_def maxSocketPathLen_def failedStart_def)
  moreover have "\<exists>e. errorsJoin [Some ?e, x] = Some e \<and> errorsAs isLimitError e \<noteq> None" for x
    by (cases x) (simp_all add: errorsJoin_def map_filter_simps errorsAs_def isLimitError_def)
  moreover have "goneFrom fs2 p" if "goneFrom fs1 p" for p
    using runningInNamespace_gone [OF that, of "seNetwork env" "seSocketDir env" "Namespace i"] a by simp
  ultimately show ?thesis using g by (auto simp: failedStart_def)
qed

text \<open>A directory that cannot be read counts as empty, so the limit is then not enforced.\<close>

lemma unreadable_directory_has_room:
  "fsReadDir fs sdir = (fs1, Inl e) \<Longrightarrow> snd (runningInNamespace net fs sdir ns) = []"
  by (simp add: runningInNamespace_def listRunning_def)


section \<open>Witnesses\<close>

definition demoAnswer :: "Info \<Rightarrow> clientConn" where
  "demoAnswer info = \<lparr>encodeResult = None, ctxAtEncode = None,
     decodeResult = Inr \<lparr>rOK = True, rError = [], rInfo = Some info, rHistory = [], rExitCode = None\<rparr>,
     ctxAtDecode = None, closeResult = None\<rparr>"

definition demoNetwork :: network where
  "demoNetwork p = (if p = str ''/r/run/b.sock'' then Inr (demoAnswer (demoInfo (str ''b''))) else Inl (Sentinel ErrNotExist))"

definition demoRecords :: json where
  "demoRecords = \<lparr>marshalInfo = (\<lambda>i. Inr []), unmarshalInfo = (\<lambda>d. Some (demoInfo (str ''a'')))\<rparr>"

definition demoStartFs :: fsys where
  "demoStartFs = \<lparr>fsFiles = [(str ''/r/run/b.sock'', ([], 0)), (RecordPath (str ''/s'') (str ''a''), (str ''{}'', 0)),
     (HistoryPath (str ''/s'') (str ''a''), (str ''out'', 0))], fsDirs = [str ''/r/run''], fsFaults = [], fsNow = 0\<rparr>"

definition demoRound :: waitRound where
  "demoRound = \<lparr>wrCtx = None, wrLive = Some (demoInfo (str ''a'')), wrEnded = None, wrExited = None, wrLiveAgain = None,
     wrRecheck = [(None, True)], wrStderr = Inr [], wrLate = True\<rparr>"

definition demoStartEnv :: startEnv where
  "demoStartEnv = \<lparr>seEnsureDirs = None, seSocketDir = str ''/r/run'', seRetentionDir = str ''/s'',
     seLock = \<lparr>lkMkdirAll = None, lkOpenFile = None, lkFlock = None, lkClose = None, lkUnlock = None\<rparr>,
     seNetwork = demoNetwork,
     seSpawn = \<lparr>spExecutable = None, spMarshal = None, spDevNull = None, spCreateTemp = Inr (str ''/tmp/e''), spStart = None,
       spDevNullClose = None, spStderrClose = None, spKill = None, spWait = None, spRemove = None\<rparr>,
     seWait = [demoRound]\<rparr>"

definition demoOptions :: "bool \<Rightarrow> int \<Rightarrow> StartOptions" where
  "demoOptions ov n = \<lparr>soDir = [], soEnv = [], soStartTimeout = 0, soMetadata = [], soOverwriteID = ov, soConcurrency = n,
     soRetentionCount = 0, soScrollback = \<lparr>HeadSize = 0, TailSize = 0, CompressionBacklogSize = 0, Storage = [], StoragePath = []\<rparr>\<rparr>"

lemma demo_free: "liveInfo demoNetwork (str ''/r/run'') (str ''a'') = None" by code_simp
lemma demo_taken: "endedRecord demoRecords demoStartFs (str ''/s'') (str ''a'') = (demoStartFs, Some (demoInfo (str ''a'')))"
  by code_simp
lemma demo_active: "length (activeAtStart demoRecords demoStartEnv demoStartFs (str ''a'')) = 1"
  by code_simp

theorem refused_overwrite_loses_record_witness:
  "\<exists>r e. Start demoRecords demoStartEnv demoStartFs (str ''a'') [str ''sh''] (demoOptions True 1) = Some r \<and>
    stSpawned r = None \<and> stErr r = Some e \<and> errorsAs isLimitError e \<noteq> None \<and>
    goneFrom (stFs r) (RecordPath (seRetentionDir demoStartEnv) (str ''a'')) \<and>
    goneFrom (stFs r) (HistoryPath (seRetentionDir demoStartEnv) (str ''a''))"
proof (rule refused_overwrite_loses_record)
  show "length (socketPath (seSocketDir demoStartEnv) (str ''a'')) \<le> 104" by code_simp
  show "startLimit (demoOptions True 1) \<le> int (length (activeAtStart demoRecords demoStartEnv demoStartFs (str ''a'')))"
    unfolding demo_active by (simp add: startLimit_def demoOptions_def)
qed (use demo_free demo_taken in \<open>simp_all add: demoStartEnv_def demoOptions_def demoStartFs_def lockNamespace_def\<close>)

definition demoStarted :: startResult where
  "demoStarted = the (Start demoRecords demoStartEnv demoStartFs (str ''a'') [str ''sh''] (demoOptions True 2))"

lemma demo_started: "Start demoRecords demoStartEnv demoStartFs (str ''a'') [str ''sh''] (demoOptions True 2) = Some demoStarted"
  unfolding demoStarted_def by code_simp

lemma demo_spawned: "map_option cfgID (stSpawned demoStarted) = Some (str ''a'')"
  unfolding demoStarted_def by code_simp

theorem Start_spawns_only_fresh_witness:
  "int (length (activeAtStart demoRecords demoStartEnv demoStartFs (str ''a''))) < startLimit (demoOptions True 2)"
proof -
  obtain conf where "stSpawned demoStarted = Some conf" using demo_spawned by auto
  from Start_spawns_only_fresh [OF demo_started this] show ?thesis by blast
qed

theorem Start_returns_witness:
  "\<exists>r. Start demoRecords demoStartEnv demoStartFs (str ''a'') [str ''sh''] (demoOptions False 0) = Some r"
  by (rule Start_returns) (simp_all add: demoStartEnv_def demoRound_def)

end
