(* ===== verification/Cli.thy ===== *)
theory Cli
  imports Command_Api Start
begin

text \<open>
  \<open>internal/cli/cli.go\<close> and \<open>cmd/bgx/main.go\<close>: the command actions, the errors they
  report and the exit status. The urfave package gives the parsed command line; the operations are
  a record of functions, as in the code, and an action returns the operations it called, what it
  printed and its error. JSON output is the printed value; messages are formats with arguments.
  Lemmas: which failures reach which code, that a mistaken command line calls no operation, and
  that the arguments of attach are read back as they are meant.
\<close>

section \<open>Errors\<close>

definition codeInvalidArgument :: string where "codeInvalidArgument = ''invalid_argument''"
definition codeNotFound :: string where "codeNotFound = ''not_found''"
definition codeAlreadyExists :: string where "codeAlreadyExists = ''already_exists''"
definition codeConcurrencyLimit :: string where "codeConcurrencyLimit = ''concurrency_limit''"
definition codeStartupFailed :: string where "codeStartupFailed = ''startup_failed''"
definition codeFilesystem :: string where "codeFilesystem = ''filesystem''"
definition codeInternal :: string where "codeInternal = ''internal''"
definition codeSessionNotFound :: string where "codeSessionNotFound = ''session_not_found''"
definition codeSessionEnded :: string where "codeSessionEnded = ''session_ended''"
definition codeAttachFailed :: string where "codeAttachFailed = ''attach_failed''"
definition codeBridgeFailed :: string where "codeBridgeFailed = ''bridge_failed''"
definition errorSource :: string where "errorSource = ''bgx''"

definition failJSON :: "string \<Rightarrow> string \<Rightarrow> bytes list \<Rightarrow> goerr list \<Rightarrow> goerr" where
  "failJSON code fmt args errs = Wrapped (CodedError code None) (Some (Plain (Text fmt args) errs))"

definition isNotFound :: "goerr \<Rightarrow> bool" where
  "isNotFound e \<longleftrightarrow> (case e of Wrapped (SessionNotFoundError _ _) _ \<Rightarrow> True | _ \<Rightarrow> False)"
definition isEnded :: "goerr \<Rightarrow> bool" where
  "isEnded e \<longleftrightarrow> (case e of Wrapped (SessionEndedError _ _) _ \<Rightarrow> True | _ \<Rightarrow> False)"
definition isAttachOptions :: "goerr \<Rightarrow> bool" where
  "isAttachOptions e \<longleftrightarrow> (case e of Wrapped AttachOptionsError _ \<Rightarrow> True | _ \<Rightarrow> False)"
definition isStartup :: "goerr \<Rightarrow> bool" where
  "isStartup e \<longleftrightarrow> (case e of Wrapped (StartupError _) _ \<Rightarrow> True | _ \<Rightarrow> False)"
definition isCoded :: "goerr \<Rightarrow> bool" where
  "isCoded e \<longleftrightarrow> (case e of Wrapped (CodedError _ _) _ \<Rightarrow> True | _ \<Rightarrow> False)"
definition isResponse :: "goerr \<Rightarrow> bool" where
  "isResponse e \<longleftrightarrow> (case e of Plain (ResponseError _ _) _ \<Rightarrow> True | _ \<Rightarrow> False)"
definition isExit :: "goerr \<Rightarrow> bool" where
  "isExit e \<longleftrightarrow> (case e of Plain (ExitError _) _ \<Rightarrow> True | _ \<Rightarrow> False)"

text \<open>The message of the \<open>ResponseError\<close> in an error.\<close>

definition responseMessage :: "goerr \<Rightarrow> bytes" where
  "responseMessage e = (case e of Plain (ResponseError op m) _ \<Rightarrow> m | _ \<Rightarrow> [])"

definition runError :: "bytes \<Rightarrow> goerr \<Rightarrow> goerr" where
  "runError i e =
     (if errorsIs e ErrSessionRunning then failJSON codeAlreadyExists ''run: session %q is already running'' [i] []
      else if errorsIs e ErrSessionExists then
        failJSON codeAlreadyExists ''run: session %q already exists; pass --overwrite-id to replace it'' [i] []
      else
        case errorsAs isLimitError e of
          Some (Plain (ConcurrencyLimitError ns limit active) _) \<Rightarrow>
            Wrapped (CodedError codeConcurrencyLimit (Some active))
              (Some (if ns = [] then
                 Plain (Text ''run: the global namespace already has %d active session(s); concurrency limit is %d''
                   [decimal (length active), decimal (nat limit)]) []
               else
                 Plain (Text ''run: namespace %q already has %d active session(s); concurrency limit is %d''
                   [ns, decimal (length active), decimal (nat limit)]) []))
        | _ \<Rightarrow>
            if errorsAs isStartup e \<noteq> None then failJSON codeStartupFailed ''run: %v'' [] [e]
            else failJSON codeInternal ''run: %v'' [] [e])"

section \<open>Operations and their use\<close>

record AttachOptions =
  aoMode :: bytes
  aoShowDetachInstructions :: bool
  aoSSH :: bytes
  aoVia :: "bytes list option"

datatype opCall =
    CallRun bytes "bytes list" RunSpec | CallInfo bytes | CallWait bytes | CallKill bytes | CallSend bytes bytes
  | CallHistory bytes | CallAttach bytes AttachOptions | CallBridge bytes | CallList "(bytes \<times> bytes) list" | CallVersion

datatype cliOutput =
    OutRun Info "VersionInfo option" | OutMissing bytes | OutInfo InfoResult | OutWait bytes int | OutSend SendResult
  | OutHistory bytes | OutList "Info list" | OutVersion VersionInfo

text \<open>\<open>opInfo\<close> is told which call of the action it answers; \<open>opPrint\<close> writes to stdout.\<close>

record operations =
  opEnsureDirs :: "goerr option"
  opRun :: "bytes \<Rightarrow> bytes list \<Rightarrow> RunSpec \<Rightarrow> goerr + Info"
  opInfo :: "nat \<Rightarrow> bytes \<Rightarrow> goerr + InfoResult"
  opWait :: "bytes \<Rightarrow> goerr + ExitResult"
  opKill :: "bytes \<Rightarrow> goerr + InfoResult"
  opSend :: "bytes \<Rightarrow> bytes \<Rightarrow> goerr + SendResult"
  opHistory :: "bytes \<Rightarrow> goerr + bytes"
  opAttach :: "bytes \<Rightarrow> AttachOptions \<Rightarrow> goerr option"
  opBridge :: "bytes \<Rightarrow> goerr option"
  opList :: "(bytes \<times> bytes) list \<Rightarrow> Info list"
  opVersion :: VersionInfo
  opPrint :: "cliOutput \<Rightarrow> goerr option"

text \<open>A command line as parsed by urfave.\<close>

record cmdLine =
  clArgs :: "bytes list"
  clMetadata :: "bytes list"
  clOverwriteID :: bool
  clHeadSize :: int
  clTailSize :: int
  clStorage :: string
  clStoragePath :: bytes
  clRetention :: int
  clConcurrency :: int
  clMode :: bytes
  clShowDetachInstructions :: bool
  clSSH :: bytes

record actionResult =
  arCalls :: "opCall list"
  arOut :: "cliOutput list"
  arErr :: "goerr option"

definition failed :: "opCall list \<Rightarrow> goerr \<Rightarrow> actionResult" where
  "failed calls e = \<lparr>arCalls = calls, arOut = [], arErr = Some e\<rparr>"

definition printed1 :: "operations \<Rightarrow> opCall list \<Rightarrow> cliOutput \<Rightarrow> actionResult" where
  "printed1 ops calls v = \<lparr>arCalls = calls, arOut = [v], arErr = opPrint ops v\<rparr>"

definition firstArg :: "cmdLine \<Rightarrow> bytes" where
  "firstArg cmd = (case clArgs cmd of [] \<Rightarrow> [] | a # as \<Rightarrow> a)"

section \<open>Actions\<close>

definition equals :: byte where "equals = 0x3D"

fun parseEntries :: "(bytes \<times> bytes) list \<Rightarrow> bytes list \<Rightarrow> bytes + (bytes \<times> bytes) list" where
  "parseEntries m [] = Inr m"
| "parseEntries m (entry # es) =
     (case IndexByte entry equals of
        None \<Rightarrow> Inl entry
      | Some k \<Rightarrow>
          if take k entry = [] then Inl entry
          else parseEntries (AList.update (take k entry) (drop (k + 1) entry) m) es)"

definition parseMetadata :: "bytes list \<Rightarrow> goerr + (bytes \<times> bytes) list" where
  "parseMetadata entries =
     (case parseEntries [] entries of
        Inl entry \<Rightarrow> Inl (Plain (Text ''invalid metadata %q, expected key=value'' [entry]) [])
      | Inr m \<Rightarrow> Inr m)"

definition runAction :: "operations \<Rightarrow> cmdLine \<Rightarrow> actionResult" where
  "runAction ops cmd =
     (case clArgs cmd of
        [] \<Rightarrow> failed [] (failJSON codeInvalidArgument ''run: an id is required'' [] [])
      | i # command \<Rightarrow>
          if i = [] then failed [] (failJSON codeInvalidArgument ''run: id must not be empty'' [] [])
          else if command = [] then failed [] (failJSON codeInvalidArgument ''run: a command is required'' [] [])
          else
            (case parseMetadata (clMetadata cmd) of
               Inl e \<Rightarrow> failed [] (failJSON codeInvalidArgument ''run: %v'' [] [e])
             | Inr metadata \<Rightarrow>
                 let version = opVersion ops in
                 if length (socketPath (viSocketDir version) i) > maxSocketPathLen then
                   failed [CallVersion] (failJSON codeInvalidArgument ''run: socket path for id %q exceeds %d bytes''
                     [i, decimal maxSocketPathLen] [])
                 else
                   let spec = \<lparr>rsDir = [], rsEnv = [], rsStartTimeout = 0, rsOverwriteID = clOverwriteID cmd,
                         rsMetadata = metadata, rsHeadSize = clHeadSize cmd, rsTailSize = clTailSize cmd,
                         rsStorage = clStorage cmd, rsStoragePath = clStoragePath cmd, rsRetention = clRetention cmd,
                         rsConcurrency = clConcurrency cmd\<rparr>;
                       calls = [CallVersion, CallRun i command spec] in
                   (case opRun ops i command spec of
                      Inl e \<Rightarrow> failed calls (runError i e)
                    | Inr info \<Rightarrow> printed1 ops calls (OutRun info (if viFallback version \<noteq> [] then Some version else None)))))"

definition infoAction :: "operations \<Rightarrow> cmdLine \<Rightarrow> actionResult" where
  "infoAction ops cmd =
     (let i = firstArg cmd in
      if i = [] then failed [] (failJSON codeInvalidArgument ''info: an id is required'' [] [])
      else
        case opInfo ops 0 i of
          Inl e \<Rightarrow> failed [CallInfo i] (failJSON codeInternal ''info: %v'' [] [e])
        | Inr r \<Rightarrow> printed1 ops [CallInfo i] (if \<not> irExists r then OutMissing i else OutInfo r))"

definition waitAction :: "operations \<Rightarrow> cmdLine \<Rightarrow> actionResult" where
  "waitAction ops cmd =
     (let i = firstArg cmd in
      if i = [] then failed [] (failJSON codeInvalidArgument ''wait: an id is required'' [] [])
      else
        case opWait ops i of
          Inl e \<Rightarrow>
            failed [CallWait i]
              (if errorsAs isNotFound e \<noteq> None then failJSON codeNotFound ''wait: session %q not found'' [i] []
               else failJSON codeInternal ''wait: %v'' [] [e])
        | Inr r \<Rightarrow>
            let p = printed1 ops [CallWait i] (OutWait i (exCode r)) in
            if arErr p \<noteq> None then p
            else if exCode r \<noteq> 0 then p\<lparr>arErr := Some (Plain (ExitError (exCode r)) [])\<rparr>
            else p)"

definition killAction :: "operations \<Rightarrow> cmdLine \<Rightarrow> actionResult" where
  "killAction ops cmd =
     (let i = firstArg cmd in
      if i = [] then failed [] (failJSON codeInvalidArgument ''kill: an id is required'' [] [])
      else
        case opKill ops i of
          Inl e \<Rightarrow>
            failed [CallKill i]
              (if errorsAs isNotFound e \<noteq> None then failJSON codeNotFound ''kill: session %q not found'' [i] []
               else failJSON codeInternal ''kill: %v'' [] [e])
        | Inr r \<Rightarrow> printed1 ops [CallKill i] (OutInfo r))"

text \<open>The loop over the arguments after the id\<close>

definition flagDetach :: bytes where "flagDetach = str ''--show-detach-instructions''"
definition flagMode :: bytes where "flagMode = str ''--mode''"
definition flagSSH :: bytes where "flagSSH = str ''--ssh''"
definition flagVia :: bytes where "flagVia = str ''--via''"

fun attachArgs :: "bytes list \<Rightarrow> AttachOptions \<Rightarrow> goerr + AttachOptions" where
  "attachArgs [] opts = Inr opts"
| "attachArgs (a # others) opts =
     (if a = flagDetach then attachArgs others (opts\<lparr>aoShowDetachInstructions := True\<rparr>)
      else if a = flagMode then
        (case others of
           [] \<Rightarrow> Inl (failJSON codeInvalidArgument ''attach: --mode requires a value'' [] [])
         | m # others' \<Rightarrow> attachArgs others' (opts\<lparr>aoMode := m\<rparr>))
      else if a = flagSSH then
        (case others of
           [] \<Rightarrow> Inl (failJSON codeInvalidArgument ''attach: --ssh requires a host'' [] [])
         | h # others' \<Rightarrow> attachArgs others' (opts\<lparr>aoSSH := h\<rparr>))
      else if a = flagVia then
        (if others = [] then Inl (failJSON codeInvalidArgument ''attach: --via requires a command'' [] [])
         else Inr (opts\<lparr>aoVia := Some others\<rparr>))
      else Inl (failJSON codeInvalidArgument ''attach: unexpected argument %q'' [a] []))"

definition attachFailure :: "bytes \<Rightarrow> goerr \<Rightarrow> goerr" where
  "attachFailure i e =
     (case errorsAs isAttachOptions e of
        Some oe \<Rightarrow> failJSON codeInvalidArgument ''%v'' [] [oe]
      | None \<Rightarrow>
          if errorsAs isNotFound e \<noteq> None then failJSON codeSessionNotFound ''attach: session %q does not exist'' [i] []
          else if errorsAs isEnded e \<noteq> None then failJSON codeSessionEnded ''attach: session %q has already ended'' [i] []
          else
            (case errorsAs isResponse e of
               Some re \<Rightarrow> failJSON codeAttachFailed ''attach: %s'' [responseMessage re] []
             | None \<Rightarrow> failJSON codeAttachFailed ''attach: %v'' [] [e]))"

definition attachAction :: "operations \<Rightarrow> cmdLine \<Rightarrow> actionResult" where
  "attachAction ops cmd =
     (let i = firstArg cmd in
      if i = [] then failed [] (failJSON codeInvalidArgument ''attach: an id is required'' [] [])
      else
        case attachArgs (tl (clArgs cmd)) \<lparr>aoMode = clMode cmd, aoShowDetachInstructions = clShowDetachInstructions cmd,
            aoSSH = clSSH cmd, aoVia = None\<rparr> of
          Inl e \<Rightarrow> failed [] e
        | Inr opts \<Rightarrow>
            (case opAttach ops i opts of
               None \<Rightarrow> \<lparr>arCalls = [CallAttach i opts], arOut = [], arErr = None\<rparr>
             | Some e \<Rightarrow> failed [CallAttach i opts] (attachFailure i e)))"

text \<open>A session that is not there, or not running, for \<open>bridge\<close>.\<close>

definition bridgeUnavailable :: "bytes \<Rightarrow> InfoResult \<Rightarrow> goerr option" where
  "bridgeUnavailable i r =
     (if \<not> irExists r then Some (failJSON codeSessionNotFound ''bridge: session %q does not exist'' [i] [])
      else case irInfo r of
        None \<Rightarrow> Some (failJSON codeSessionEnded ''bridge: session %q has already ended'' [i] [])
      | Some info \<Rightarrow>
          if \<not> iRunning info then Some (failJSON codeSessionEnded ''bridge: session %q has already ended'' [i] []) else None)"

definition bridgeAction :: "operations \<Rightarrow> cmdLine \<Rightarrow> actionResult" where
  "bridgeAction ops cmd =
     (let i = firstArg cmd in
      if i = [] then failed [] (failJSON codeInvalidArgument ''bridge: an id is required'' [] [])
      else
        case opInfo ops 0 i of
          Inl e \<Rightarrow> failed [CallInfo i] (failJSON codeBridgeFailed ''bridge: %v'' [] [e])
        | Inr r \<Rightarrow>
            (case bridgeUnavailable i r of
               Some e \<Rightarrow> failed [CallInfo i] e
             | None \<Rightarrow>
                 (case opBridge ops i of
                    None \<Rightarrow> \<lparr>arCalls = [CallInfo i, CallBridge i], arOut = [], arErr = None\<rparr>
                  | Some e \<Rightarrow>
                      failed [CallInfo i, CallBridge i, CallInfo i]
                        (case opInfo ops 1 i of
                           Inr r \<Rightarrow>
                             (case bridgeUnavailable i r of
                                Some ue \<Rightarrow> ue
                              | None \<Rightarrow> failJSON codeBridgeFailed ''%v'' [] [e])
                         | Inl _ \<Rightarrow> failJSON codeBridgeFailed ''%v'' [] [e]))))"

definition sendAction :: "operations \<Rightarrow> cmdLine \<Rightarrow> actionResult" where
  "sendAction ops cmd =
     (case clArgs cmd of
        [] \<Rightarrow> failed [] (failJSON codeInvalidArgument ''send: an id is required'' [] [])
      | i # words \<Rightarrow>
          if i = [] then failed [] (failJSON codeInvalidArgument ''send: id must not be empty'' [] [])
          else
            let input = joinTexts (str '' '') words in
            case opSend ops i input of
              Inl e \<Rightarrow>
                failed [CallSend i input]
                  (if errorsAs isNotFound e \<noteq> None then failJSON codeNotFound ''send: session %q not found'' [i] []
                   else case errorsAs isResponse e of
                     Some re \<Rightarrow> failJSON codeInternal ''send: %s'' [responseMessage re] []
                   | None \<Rightarrow> failJSON codeInternal ''send: %v'' [] [e])
            | Inr r \<Rightarrow> printed1 ops [CallSend i input] (OutSend r))"

definition historyAction :: "operations \<Rightarrow> cmdLine \<Rightarrow> actionResult" where
  "historyAction ops cmd =
     (let i = firstArg cmd in
      if i = [] then failed [] (failJSON codeInvalidArgument ''history: an id is required'' [] [])
      else
        case opHistory ops i of
          Inl e \<Rightarrow>
            failed [CallHistory i]
              (if errorsAs isNotFound e \<noteq> None then failJSON codeNotFound ''history: session %q not found'' [i] []
               else failJSON codeInternal ''history: %v'' [] [e])
        | Inr h \<Rightarrow> printed1 ops [CallHistory i] (OutHistory h))"

definition listAction :: "operations \<Rightarrow> cmdLine \<Rightarrow> actionResult" where
  "listAction ops cmd =
     (case parseMetadata (clMetadata cmd) of
        Inl e \<Rightarrow> failed [] (failJSON codeInvalidArgument ''list: %v'' [] [e])
      | Inr m \<Rightarrow> printed1 ops [CallList m] (OutList (opList ops m)))"

definition versionAction :: "operations \<Rightarrow> actionResult" where
  "versionAction ops = printed1 ops [CallVersion] (OutVersion (opVersion ops))"

definition withDirs :: "operations \<Rightarrow> actionResult \<Rightarrow> actionResult" where
  "withDirs ops action =
     (case opEnsureDirs ops of Some e \<Rightarrow> failed [] (failJSON codeFilesystem ''%v'' [] [e]) | None \<Rightarrow> action)"

section \<open>Standard streams as one stream\<close>

text \<open>\<open>stdioStream\<close>: both files are closed once, and the first error stays the answer.\<close>

record stdioStream =
  ssClosed :: bool
  ssCloseErr :: "goerr option"

definition newStdioStream :: stdioStream where
  "newStdioStream = \<lparr>ssClosed = False, ssCloseErr = None\<rparr>"

definition stdioClose :: "goerr option \<Rightarrow> goerr option \<Rightarrow> stdioStream \<Rightarrow> stdioStream \<times> goerr option" where
  "stdioClose stdinClose stdoutClose s =
     (if ssClosed s then (s, ssCloseErr s)
      else
        let e = (case stdinClose of None \<Rightarrow> stdoutClose | Some e \<Rightarrow> Some e) in
        (s\<lparr>ssClosed := True, ssCloseErr := e\<rparr>, e))"

lemma stdioClose_again:
  "stdioClose a b s = (s', e) \<Longrightarrow> stdioClose a' b' s' = (s', e)"
  by (auto simp: stdioClose_def Let_def split: if_splits)

section \<open>The commands\<close>

text \<open>What the program declares to urfave; \<open>cmStopOnNthArg\<close> is after how many arguments flags end.\<close>

datatype flagKind = BoolFlag | StringFlag | StringSliceFlag | IntFlag int

record cliFlag =
  fgName :: string
  fgKind :: flagKind
  fgEnvVar :: "string option"

record command =
  cmName :: string
  cmAliases :: "string list"
  cmUsage :: string
  cmArgsUsage :: string
  cmStopOnNthArg :: "nat option"
  cmFlags :: "cliFlag list"
  cmAction :: "cmdLine \<Rightarrow> actionResult"

definition plainFlag :: "string \<Rightarrow> flagKind \<Rightarrow> cliFlag" where
  "plainFlag name kind = \<lparr>fgName = name, fgKind = kind, fgEnvVar = None\<rparr>"

definition plainCommand :: "string \<Rightarrow> string \<Rightarrow> string \<Rightarrow> (cmdLine \<Rightarrow> actionResult) \<Rightarrow> command" where
  "plainCommand name usage argsUsage action =
     \<lparr>cmName = name, cmAliases = [], cmUsage = usage, cmArgsUsage = argsUsage, cmStopOnNthArg = None, cmFlags = [],
      cmAction = action\<rparr>"

definition cliDefaultConcurrency :: int where "cliDefaultConcurrency = 3"

definition runCommand :: "operations \<Rightarrow> command" where
  "runCommand ops =
     \<lparr>cmName = ''run'', cmAliases = [], cmUsage = ''run a command async in a new session'',
      cmArgsUsage = ''[--overwrite-id] [--metadata key=value...] <id> <command...>'', cmStopOnNthArg = Some 1,
      cmFlags =
        [plainFlag ''overwrite-id'' BoolFlag, plainFlag ''metadata'' StringSliceFlag, plainFlag ''head-size'' (IntFlag 0),
         plainFlag ''tail-size'' (IntFlag 0), plainFlag ''storage'' StringFlag, plainFlag ''storage-path'' StringFlag,
         \<lparr>fgName = ''retention'', fgKind = IntFlag 0, fgEnvVar = Some ''BGX_RETENTION''\<rparr>,
         \<lparr>fgName = ''concurrency'', fgKind = IntFlag cliDefaultConcurrency, fgEnvVar = Some ''BGX_CONCURRENCY''\<rparr>],
      cmAction = runAction ops\<rparr>"

definition waitCommand :: "operations \<Rightarrow> command" where
  "waitCommand ops = plainCommand ''wait'' ''wait for a session to finish and return its exit code'' ''<id>'' (waitAction ops)"

definition killCommand :: "operations \<Rightarrow> command" where
  "killCommand ops = plainCommand ''kill'' ''kill a running session'' ''<id>'' (killAction ops)"

definition historyCommand :: "operations \<Rightarrow> command" where
  "historyCommand ops = plainCommand ''history'' ''print the scrollback history of a session'' ''<id>'' (historyAction ops)"

definition attachCommand :: "operations \<Rightarrow> command" where
  "attachCommand ops =
     \<lparr>cmName = ''attach'', cmAliases = [], cmUsage = ''attach to a running session'',
      cmArgsUsage = ''<id> [--mode <mode>] [--ssh <host>] [--show-detach-instructions] [--via <cmd...>]'',
      cmStopOnNthArg = Some 1,
      cmFlags = [plainFlag ''mode'' StringFlag, plainFlag ''show-detach-instructions'' BoolFlag, plainFlag ''ssh'' StringFlag],
      cmAction = attachAction ops\<rparr>"

definition bridgeCommand :: "operations \<Rightarrow> command" where
  "bridgeCommand ops = plainCommand ''bridge'' ''forward one raw session connection over stdio'' ''<id>'' (bridgeAction ops)"

definition sendCommand :: "operations \<Rightarrow> command" where
  "sendCommand ops = plainCommand ''send'' ''send raw input to a session PTY without attaching'' ''<id> <text...>'' (sendAction ops)"

definition infoCommand :: "operations \<Rightarrow> command" where
  "infoCommand ops = plainCommand ''info'' ''print metadata about a session'' ''<id>'' (infoAction ops)"

definition listCommand :: "operations \<Rightarrow> command" where
  "listCommand ops =
     (plainCommand ''list'' ''list sessions'' [] (listAction ops))\<lparr>cmAliases := [''ls''], cmFlags := [plainFlag ''metadata'' StringSliceFlag]\<rparr>"

definition versionCommand :: "operations \<Rightarrow> command" where
  "versionCommand ops = plainCommand ''version'' ''print version and environment info'' [] (\<lambda>cmd. versionAction ops)"

definition rootCommand :: "operations \<Rightarrow> command list" where
  "rootCommand ops =
     map (\<lambda>c. c\<lparr>cmAction := \<lambda>cmd. withDirs ops (cmAction c cmd)\<rparr>)
       [runCommand ops, waitCommand ops, killCommand ops, historyCommand ops, attachCommand ops, bridgeCommand ops,
        sendCommand ops, infoCommand ops, listCommand ops, versionCommand ops]"

section \<open>A whole command\<close>

text \<open>
  What urfave makes of the arguments: a command by its name or an alias, with its parsed line; a
  line it cannot parse; a name it does not know, with the error it returns after the callback; or
  a help text, with the result of printing it.
\<close>

datatype invocation = Invoked string cmdLine | Mistaken goerr | Unknown string "goerr option" | Helped "goerr option"

text \<open>The two callbacks \<open>applyJSONUsageErrors\<close> installs on every command\<close>

definition onUsageError :: "goerr \<Rightarrow> goerr" where
  "onUsageError e = Wrapped (CodedError codeInvalidArgument None) (Some e)"

definition commandNotFound :: "string \<Rightarrow> goerr" where
  "commandNotFound name = failJSON codeInvalidArgument ''unknown command %q'' [str name] []"

definition commandAction :: "operations \<Rightarrow> string \<Rightarrow> cmdLine \<Rightarrow> actionResult" where
  "commandAction ops name cmd =
     (case find (\<lambda>c. name = cmName c \<or> name \<in> set (cmAliases c)) (rootCommand ops) of
        None \<Rightarrow> failed [] (commandNotFound name)
      | Some c \<Rightarrow> cmAction c cmd)"

text \<open>An error urfave returns replaces the one its callback left.\<close>

definition rootRun :: "operations \<Rightarrow> invocation \<Rightarrow> actionResult" where
  "rootRun ops iv =
     (case iv of
        Invoked name cmd \<Rightarrow> commandAction ops name cmd
      | Mistaken e \<Rightarrow> failed [] (onUsageError e)
      | Unknown name (Some e) \<Rightarrow> failed [] e
      | Unknown name None \<Rightarrow> failed [] (commandNotFound name)
      | Helped e \<Rightarrow> \<lparr>arCalls = [], arOut = [], arErr = e\<rparr>)"

record errorJSON =
  ejError :: goerr
  ejCode :: string
  ejSource :: string
  ejSessions :: "Info list option"

definition emitErrorJSON :: "string \<Rightarrow> goerr \<Rightarrow> Info list option \<Rightarrow> errorJSON" where
  "emitErrorJSON code e extra = \<lparr>ejError = e, ejCode = code, ejSource = errorSource, ejSessions = extra\<rparr>"

text \<open>What goes to stderr, and the error of the command; \<open>werr\<close> is the result of that write.\<close>

definition reportError :: "goerr option \<Rightarrow> goerr option \<Rightarrow> errorJSON option \<times> goerr option" where
  "reportError commandErr werr =
     (case commandErr of
        None \<Rightarrow> (None, None)
      | Some e \<Rightarrow>
          (case errorsAs isExit e of
             Some x \<Rightarrow> (None, Some x)
           | None \<Rightarrow>
               let (code, extra) = (case errorsAs isCoded e of
                     Some (Wrapped (CodedError c p) _) \<Rightarrow> (c, p)
                   | _ \<Rightarrow> (codeInternal, None)) in
               (Some (emitErrorJSON code e extra), errorsJoin [Some e, werr])))"

definition runCli :: "operations \<Rightarrow> goerr option \<Rightarrow> invocation \<Rightarrow> errorJSON option \<times> goerr option" where
  "runCli ops werr iv = reportError (arErr (rootRun ops iv)) werr"

definition exitCode :: "goerr option \<Rightarrow> int" where
  "exitCode e =
     (case e of
        None \<Rightarrow> 0
      | Some e \<Rightarrow> (case errorsAs isExit e of Some (Plain (ExitError n) _) \<Rightarrow> n | _ \<Rightarrow> 1))"

section \<open>What a command reports\<close>

definition errorCodes :: "string list" where
  "errorCodes = [codeInvalidArgument, codeNotFound, codeAlreadyExists, codeConcurrencyLimit, codeStartupFailed,
     codeFilesystem, codeInternal, codeSessionNotFound, codeSessionEnded, codeAttachFailed, codeBridgeFailed]"

text \<open>An error the commands make: a code of the list and a message that wraps nothing.\<close>

definition codedWith :: "string set \<Rightarrow> goerr \<Rightarrow> bool" where
  "codedWith cs e \<longleftrightarrow> (\<exists>c p fmt args errs. c \<in> cs \<and> e = Wrapped (CodedError c p) (Some (Plain (Text fmt args) errs)))"

lemma codedWith_failJSON [simp]: "codedWith cs (failJSON c fmt args errs) \<longleftrightarrow> c \<in> cs"
  by (auto simp: codedWith_def failJSON_def)

text \<open>
  The shapes of an action's result: its error is coded, an exit status, or that of printing; a
  coded error other than a usage mistake comes after the operation it reports.
\<close>

definition reported :: "operations \<Rightarrow> actionResult \<Rightarrow> bool" where
  "reported ops r \<longleftrightarrow>
     (case arErr r of
        None \<Rightarrow> True
      | Some e \<Rightarrow> codedWith (set errorCodes) e \<or> (\<exists>v. opPrint ops v = Some e))"

lemma reported_failed [simp]: "reported ops (failed calls e) \<longleftrightarrow> codedWith (set errorCodes) e \<or> (\<exists>v. opPrint ops v = Some e)"
  by (simp add: reported_def failed_def)

lemma reported_printed [simp]: "reported ops (printed1 ops calls v)"
  by (auto simp: reported_def printed1_def split: option.split)

lemma codes_in [simp]: "codeInvalidArgument \<in> set errorCodes" "codeNotFound \<in> set errorCodes" "codeAlreadyExists \<in> set errorCodes"
  "codeConcurrencyLimit \<in> set errorCodes" "codeStartupFailed \<in> set errorCodes" "codeFilesystem \<in> set errorCodes"
  "codeInternal \<in> set errorCodes" "codeSessionNotFound \<in> set errorCodes" "codeSessionEnded \<in> set errorCodes"
  "codeAttachFailed \<in> set errorCodes" "codeBridgeFailed \<in> set errorCodes"
  by (simp_all add: errorCodes_def)

definition codes_run :: "string set" where
  "codes_run = {codeAlreadyExists, codeConcurrencyLimit, codeStartupFailed, codeInternal}"

lemma coded_runError: "codedWith codes_run (runError i e)"
proof (cases "errorsAs isLimitError e")
  case None
  then show ?thesis by (auto simp: runError_def codes_run_def)
next
  case (Some x)
  then have "isLimitError x" unfolding errorsAs_def by (metis find_Some_iff)
  then obtain ns l active es where "x = Plain (ConcurrencyLimitError ns l active) es"
    by (cases x; auto simp: isLimitError_def split: plainError.splits)
  then show ?thesis using Some by (auto simp: runError_def codes_run_def) (auto simp: codedWith_def)
qed

lemma codedWith_mono: "codedWith cs e \<Longrightarrow> cs \<subseteq> ds \<Longrightarrow> codedWith ds e"
  by (auto simp: codedWith_def)

lemma coded_run [simp]: "codedWith (set errorCodes) (runError i e)"
  by (rule codedWith_mono [OF coded_runError]) (simp add: codes_run_def)

lemma coded_attach [simp]: "codedWith (set errorCodes) (attachFailure i e)"
  by (simp add: attachFailure_def split: option.split)

lemma coded_attachArgs: "attachArgs as opts = Inl e \<Longrightarrow> codedWith {codeInvalidArgument} e"
  by (induction as opts rule: attachArgs.induct) (auto split: if_splits list.splits)

lemma coded_unavailable: "bridgeUnavailable i r = Some e \<Longrightarrow> codedWith {codeSessionNotFound, codeSessionEnded} e"
  by (auto simp: bridgeUnavailable_def split: if_splits option.splits)

lemma reported_actions:
  "reported ops (runAction ops cmd)" "reported ops (killAction ops cmd)" "reported ops (historyAction ops cmd)"
  "reported ops (sendAction ops cmd)" "reported ops (infoAction ops cmd)" "reported ops (listAction ops cmd)"
  "reported ops (versionAction ops)"
  by (simp_all add: runAction_def killAction_def historyAction_def sendAction_def infoAction_def listAction_def
      versionAction_def Let_def split: list.split sum.split option.split)

lemma reported_attach: "reported ops (attachAction ops cmd)"
proof -
  have "codedWith (set errorCodes) e" if "attachArgs as opts = Inl e" for as opts e
    by (rule codedWith_mono [OF coded_attachArgs [OF that]]) simp
  then show ?thesis by (auto simp: attachAction_def Let_def reported_def failed_def split: sum.split option.split)
qed

lemma reported_bridge: "reported ops (bridgeAction ops cmd)"
proof -
  have "codedWith (set errorCodes) e" if "bridgeUnavailable i r = Some e" for i r e
    by (rule codedWith_mono [OF coded_unavailable [OF that]]) simp
  then show ?thesis by (auto simp: bridgeAction_def Let_def reported_def failed_def split: sum.split option.split)
qed

lemma reported_wait:
  "reported ops (waitAction ops cmd) \<or>
   (\<exists>r. opWait ops (firstArg cmd) = Inr r \<and> exCode r \<noteq> 0 \<and> arErr (waitAction ops cmd) = Some (Plain (ExitError (exCode r)) []))"
  by (auto simp: waitAction_def Let_def split: sum.split)

lemma reported_withDirs: "reported ops a \<Longrightarrow> reported ops (withDirs ops a)"
  by (simp add: withDirs_def split: option.split)

text \<open>The table read as a choice by name.\<close>

lemma commandAction_names:
  "commandAction ops name cmd =
     (if name = ''run'' then withDirs ops (runAction ops cmd)
      else if name = ''wait'' then withDirs ops (waitAction ops cmd)
      else if name = ''kill'' then withDirs ops (killAction ops cmd)
      else if name = ''history'' then withDirs ops (historyAction ops cmd)
      else if name = ''attach'' then withDirs ops (attachAction ops cmd)
      else if name = ''bridge'' then withDirs ops (bridgeAction ops cmd)
      else if name = ''send'' then withDirs ops (sendAction ops cmd)
      else if name = ''info'' then withDirs ops (infoAction ops cmd)
      else if name = ''list'' \<or> name = ''ls'' then withDirs ops (listAction ops cmd)
      else if name = ''version'' then withDirs ops (versionAction ops)
      else failed [] (commandNotFound name))"
  by (simp add: commandAction_def rootCommand_def runCommand_def waitCommand_def killCommand_def historyCommand_def
      attachCommand_def bridgeCommand_def sendCommand_def infoCommand_def listCommand_def versionCommand_def plainCommand_def)

text \<open>No two commands share a name or an alias, and no command declares a flag twice.\<close>

lemma rootCommand_unambiguous:
  "distinct (concat (map (\<lambda>c. cmName c # cmAliases c) (rootCommand ops))) \<and>
   list_all (\<lambda>c. distinct (map fgName (cmFlags c))) (rootCommand ops)"
  by (simp add: rootCommand_def runCommand_def waitCommand_def killCommand_def historyCommand_def
      attachCommand_def bridgeCommand_def sendCommand_def infoCommand_def listCommand_def versionCommand_def
      plainCommand_def plainFlag_def)

lemma reported_command:
  "reported ops (commandAction ops name cmd) \<or>
   (name = ''wait'' \<and> (\<exists>r. opWait ops (firstArg cmd) = Inr r \<and> exCode r \<noteq> 0 \<and>
      arErr (commandAction ops name cmd) = Some (Plain (ExitError (exCode r)) [])))"
proof (cases "name = ''wait''")
  case True
  then have c: "commandAction ops name cmd = withDirs ops (waitAction ops cmd)" by (simp add: commandAction_names)
  from reported_wait [of ops cmd] show ?thesis
  proof
    assume "reported ops (waitAction ops cmd)"
    then show ?thesis using c reported_withDirs by simp
  next
    assume w: "\<exists>r. opWait ops (firstArg cmd) = Inr r \<and> exCode r \<noteq> 0 \<and>
        arErr (waitAction ops cmd) = Some (Plain (ExitError (exCode r)) [])"
    show ?thesis
    proof (cases "opEnsureDirs ops")
      case None
      then show ?thesis using w c True by (simp add: withDirs_def)
    next
      case (Some e)
      then show ?thesis using c by (simp add: withDirs_def)
    qed
  qed
next
  case False
  then show ?thesis
    by (simp add: commandAction_names commandNotFound_def reported_withDirs reported_actions reported_attach reported_bridge)
qed

text \<open>Errors of the process's own writes, and those urfave makes, are no exit status and no coded error.\<close>

definition ordinary :: "goerr \<Rightarrow> bool" where
  "ordinary e \<longleftrightarrow> errorsAs isExit e = None \<and> errorsAs isCoded e = None"

fun parserError :: "invocation \<Rightarrow> goerr option" where
  "parserError (Invoked name cmd) = None"
| "parserError (Mistaken e) = Some e"
| "parserError (Unknown name e) = e"
| "parserError (Helped e) = e"

definition plainWrites :: "operations \<Rightarrow> goerr option \<Rightarrow> bool" where
  "plainWrites ops werr \<longleftrightarrow> (\<forall>v e. opPrint ops v = Some e \<longrightarrow> ordinary e) \<and> (\<forall>e. werr = Some e \<longrightarrow> errorsAs isExit e = None)"

lemma errorsAs_exit_join:
  "errorsAs isExit e = None \<Longrightarrow> errorsAs isExit x = None \<Longrightarrow> errorsAs isExit (Joined [e, x]) = None"
  "errorsAs isExit e = None \<Longrightarrow> errorsAs isExit (Joined [e]) = None"
  by (auto simp: errorsAs_def find_None_iff isExit_def)

lemma errorsAs_coded:
  "errorsAs isExit (Wrapped (CodedError c p) (Some (Plain (Text fmt args) errs))) = None"
  "errorsAs isCoded (Wrapped (CodedError c p) (Some y)) = Some (Wrapped (CodedError c p) (Some y))"
  by (simp_all add: errorsAs_def isExit_def isCoded_def)

lemma errorsAs_usage: "errorsAs isExit e = None \<Longrightarrow> errorsAs isExit (onUsageError e) = None"
  by (simp add: errorsAs_def onUsageError_def isExit_def)

text \<open>A command's error that is not an exit status is printed with its code, and the status is 1.\<close>

lemma reported_error:
  assumes "plainWrites ops werr" "runCli ops werr iv = (j, e)"
    and "arErr (rootRun ops iv) = Some y" "errorsAs isExit y = None"
    and "\<forall>c p z. errorsAs isCoded y = Some (Wrapped (CodedError c p) z) \<longrightarrow> c \<in> set errorCodes"
  shows "\<exists>x. j = Some x \<and> ejSource x = ''bgx'' \<and> ejCode x \<in> set errorCodes \<and> exitCode e = 1"
proof -
  obtain x where x: "j = Some x" "ejSource x = ''bgx''" "ejCode x \<in> set errorCodes" "e = errorsJoin [Some y, werr]"
    using assms(2-5) by (auto simp: runCli_def reportError_def emitErrorJSON_def errorSource_def
        split: option.splits goerr.splits wrapperError.splits)
  have "exitCode e = 1"
    using assms(4) x(4) assms(1)
    by (cases werr) (simp_all add: exitCode_def errorsJoin_def map_filter_simps plainWrites_def errorsAs_exit_join)
  then show ?thesis using x by blast
qed

text \<open>Of the ways a command ends that urfave decides, each is one of those of the commands.\<close>

lemma parser_outcome:
  assumes "plainWrites ops werr" "\<forall>x. parserError iv = Some x \<longrightarrow> ordinary x" "runCli ops werr iv = (j, e)"
    and "\<forall>name cmd. iv \<noteq> Invoked name cmd"
  shows "(j = None \<and> e = None \<and> exitCode e = 0) \<or>
    (\<exists>x. j = Some x \<and> ejSource x = ''bgx'' \<and> ejCode x \<in> set errorCodes \<and> exitCode e = 1)"
proof (cases "arErr (rootRun ops iv)")
  case None
  then show ?thesis using assms(3) by (simp add: runCli_def reportError_def exitCode_def)
next
  case (Some y)
  have "ordinary y \<or> (\<exists>x. ordinary x \<and> y = onUsageError x) \<or> (\<exists>name. y = commandNotFound name)"
    using Some assms(2,4) by (cases iv) (auto simp: rootRun_def failed_def split: option.splits)
  then consider "ordinary y" | x where "ordinary x" "y = onUsageError x" | name where "y = commandNotFound name" by blast
  then have "errorsAs isExit y = None \<and> (\<forall>c p z. errorsAs isCoded y = Some (Wrapped (CodedError c p) z) \<longrightarrow> c \<in> set errorCodes)"
  proof cases
    case 1
    then show ?thesis by (simp add: ordinary_def)
  next
    case 2
    then show ?thesis by (simp add: ordinary_def errorsAs_usage) (simp add: onUsageError_def errorsAs_coded)
  next
    case 3
    then show ?thesis by (simp add: commandNotFound_def failJSON_def errorsAs_coded)
  qed
  then show ?thesis using reported_error [OF assms(1,3) Some] by blast
qed

text \<open>
  C24. Every command line ends in one of three ways: it succeeds, prints no error and exits with 0;
  it is \<open>wait\<close> and exits with the session's own non-zero status, without an error message; or it
  prints one JSON error, marked as coming from bgx and carrying one of the documented codes, and
  exits with 1. That holds for mistaken flags, unknown commands and help texts, too.
\<close>

theorem cli_outcome:
  assumes "plainWrites ops werr" "\<forall>x. parserError iv = Some x \<longrightarrow> ordinary x" "runCli ops werr iv = (j, e)"
  shows "(j = None \<and> e = None \<and> exitCode e = 0) \<or>
    (j = None \<and> (\<exists>cmd r. iv = Invoked ''wait'' cmd \<and> opWait ops (firstArg cmd) = Inr r \<and> exCode r \<noteq> 0 \<and> exitCode e = exCode r)) \<or>
    (\<exists>x. j = Some x \<and> ejSource x = ''bgx'' \<and> ejCode x \<in> set errorCodes \<and> exitCode e = 1)"
proof (cases iv)
  case (Invoked name cmd)
  let ?a = "commandAction ops name cmd"
  have run: "rootRun ops iv = ?a" using Invoked by (simp add: rootRun_def)
  note fin = reported_error [OF assms(1,3), unfolded run]
  from reported_command [of ops name cmd] show ?thesis
  proof
    assume r: "reported ops ?a"
    show ?thesis
    proof (cases "arErr ?a")
      case None
      then show ?thesis using assms(3) run by (simp add: runCli_def reportError_def exitCode_def)
    next
      case (Some y)
      from r Some consider c p fmt args errs where "c \<in> set errorCodes" "y = Wrapped (CodedError c p) (Some (Plain (Text fmt args) errs))"
        | v where "opPrint ops v = Some y" by (auto simp: reported_def codedWith_def)
      then show ?thesis
      proof cases
        case 1
        then show ?thesis using fin [OF Some] by (simp add: errorsAs_coded)
      next
        case 2
        then show ?thesis using fin [OF Some] assms(1) by (simp add: plainWrites_def ordinary_def)
      qed
    qed
  next
    assume "name = ''wait'' \<and> (\<exists>r. opWait ops (firstArg cmd) = Inr r \<and> exCode r \<noteq> 0 \<and>
      arErr ?a = Some (Plain (ExitError (exCode r)) []))"
    then obtain r where r: "name = ''wait''" "opWait ops (firstArg cmd) = Inr r" "exCode r \<noteq> 0"
      "arErr ?a = Some (Plain (ExitError (exCode r)) [])" by blast
    have x: "errorsAs isExit (Plain (ExitError n) []) = Some (Plain (ExitError n) [])" for n
      by (simp add: errorsAs_def isExit_def)
    have "j = None \<and> exitCode e = exCode r"
      using assms(3) unfolding runCli_def reportError_def run r(4) by (auto simp: x exitCode_def)
    then show ?thesis using r Invoked by blast
  qed
qed (use parser_outcome [OF assms] in auto)

section \<open>The arguments of attach\<close>

definition renderAttach :: "AttachOptions \<Rightarrow> bytes list" where
  "renderAttach opts =
     (if aoShowDetachInstructions opts then [flagDetach] else []) @ (if aoMode opts \<noteq> [] then [flagMode, aoMode opts] else []) @
     (if aoSSH opts \<noteq> [] then [flagSSH, aoSSH opts] else []) @ (case aoVia opts of None \<Rightarrow> [] | Some v \<Rightarrow> flagVia # v)"

lemma flags_distinct: "flagMode \<noteq> flagDetach" "flagSSH \<noteq> flagDetach" "flagVia \<noteq> flagDetach" "flagSSH \<noteq> flagMode"
  "flagVia \<noteq> flagMode" "flagVia \<noteq> flagSSH"
  by (simp_all add: flagMode_def flagDetach_def flagSSH_def flagVia_def)

text \<open>
  The arguments after the id say what they mean: options written out are read back exactly,
  whatever the values are (a mode or a host that looks like an option, a transport command with
  options of its own).
\<close>

theorem attachArgs_roundtrip:
  assumes "aoVia opts \<noteq> Some []"
  shows "attachArgs (renderAttach opts) \<lparr>aoMode = [], aoShowDetachInstructions = False, aoSSH = [], aoVia = None\<rparr> = Inr opts"
  using assms flags_distinct by (cases opts) (auto simp: renderAttach_def split: option.split)


section \<open>Witnesses\<close>

definition demoOps :: operations where
  "demoOps = \<lparr>opEnsureDirs = None, opRun = (\<lambda>i c s. Inl (Sentinel ErrSessionRunning)),
     opInfo = (\<lambda>n i. Inr \<lparr>irExists = False, irInfo = None\<rparr>), opWait = (\<lambda>i. Inr \<lparr>exInfo = demoInfo i, exCode = 3\<rparr>),
     opKill = (\<lambda>i. Inl (Sentinel ErrEOF)), opSend = (\<lambda>i p. Inr \<lparr>srID = i, srSent = True\<rparr>), opHistory = (\<lambda>i. Inr []),
     opAttach = (\<lambda>i opts. None), opBridge = (\<lambda>i. None), opList = (\<lambda>m. []),
     opVersion = \<lparr>viVersion = [], viSocketDir = str ''/r'', viRetentionDir = [], viFallback = []\<rparr>, opPrint = (\<lambda>v. None)\<rparr>"

definition demoLine :: cmdLine where
  "demoLine = \<lparr>clArgs = [str ''a'', str ''sh''], clMetadata = [], clOverwriteID = False, clHeadSize = 0, clTailSize = 0,
     clStorage = [], clStoragePath = [], clRetention = 0, clConcurrency = 3, clMode = [], clShowDetachInstructions = False,
     clSSH = []\<rparr>"

theorem cli_outcome_witness:
  "exitCode (snd (runCli demoOps None (Invoked ''wait'' demoLine))) = 3 \<and>
   exitCode (snd (runCli demoOps None (Invoked ''run'' demoLine))) = 1 \<and>
   exitCode (snd (runCli demoOps None (Mistaken (Sentinel (ErrOther ''flag''))))) = 1"
proof -
  let ?w = "Invoked ''wait'' demoLine" and ?r = "Invoked ''run'' demoLine" and ?m = "Mistaken (Sentinel (ErrOther ''flag''))"
  have p: "plainWrites demoOps None" by (simp add: plainWrites_def demoOps_def)
  have u: "\<forall>x. parserError ?w = Some x \<longrightarrow> ordinary x" "\<forall>x. parserError ?r = Some x \<longrightarrow> ordinary x"
    "\<forall>x. parserError ?m = Some x \<longrightarrow> ordinary x" by (simp_all add: ordinary_def errorsAs_def isExit_def isCoded_def)
  have w: "fst (runCli demoOps None ?w) = None \<and> snd (runCli demoOps None ?w) \<noteq> None"
    "fst (runCli demoOps None ?r) \<noteq> None" "fst (runCli demoOps None ?m) \<noteq> None" by code_simp+
  then have "exitCode (snd (runCli demoOps None ?w)) = 3"
    using cli_outcome [OF p u(1) surjective_pairing] by (auto simp: demoOps_def)
  then show ?thesis using w(2,3) cli_outcome [OF p u(2) surjective_pairing] cli_outcome [OF p u(3) surjective_pairing] by auto
qed

theorem attachArgs_roundtrip_witness:
  "attachArgs [flagMode, flagSSH, flagVia, str ''ssh'', flagMode]
     \<lparr>aoMode = [], aoShowDetachInstructions = False, aoSSH = [], aoVia = None\<rparr> =
   Inr \<lparr>aoMode = flagSSH, aoShowDetachInstructions = False, aoSSH = [], aoVia = Some [str ''ssh'', flagMode]\<rparr>"
proof -
  let ?o = "\<lparr>aoMode = flagSSH, aoShowDetachInstructions = False, aoSSH = [], aoVia = Some [str ''ssh'', flagMode]\<rparr>"
  have "renderAttach ?o = [flagMode, flagSSH, flagVia, str ''ssh'', flagMode]"
    by (simp add: renderAttach_def flagSSH_def del: str_Cons) (simp add: str_def)
  moreover have "aoVia ?o \<noteq> Some []" by simp
  ultimately show ?thesis using attachArgs_roundtrip [of ?o] by metis
qed

end
