(* ===== verification/Transport.thy ===== *)
theory Transport
  imports Attach_Client Cli
begin

text \<open>
  \<open>transport.go\<close> and the rest of \<open>attach.go\<close>: a session reached over another
  process's pipes, the bridge at its far end, and the choice between the two ways to attach. System
  calls are their results. Lemmas: no pipe end is left open, what the bridge reports, and which
  error an attachment to a session that is not there gives.
\<close>

section \<open>The transport process\<close>

datatype pipeEnd = StdinR | StdinW | StdoutR | StdoutW

record transportStart =
  tsStdinPipe :: "goerr option"
  tsStdoutPipe :: "goerr option"
  tsStart :: "goerr option"
  tsClose :: "pipeEnd \<Rightarrow> goerr option"
  tsKill :: "goerr option"
  tsWait :: "goerr option"

text \<open>Closing releases the descriptor whatever it returns.\<close>

definition closeEnds :: "transportStart \<Rightarrow> pipeEnd list \<Rightarrow> pipeEnd list \<Rightarrow> pipeEnd list \<times> goerr option list" where
  "closeEnds t opened ends = (filter (\<lambda>e. e \<notin> set ends) opened, map (tsClose t) ends)"

record startedTransport =
  tpOpen :: "pipeEnd list"
  tpRunning :: bool
  tpErr :: "goerr option"

definition startTransportProcess :: "transportStart \<Rightarrow> bytes list \<Rightarrow> startedTransport" where
  "startTransportProcess t argv =
     (case tsStdinPipe t of
        Some e \<Rightarrow> \<lparr>tpOpen = [], tpRunning = False, tpErr = Some e\<rparr>
      | None \<Rightarrow>
          (case tsStdoutPipe t of
             Some e \<Rightarrow>
               (case closeEnds t [StdinR, StdinW] [StdinR, StdinW] of
                  (opened, es) \<Rightarrow> \<lparr>tpOpen = opened, tpRunning = False, tpErr = errorsJoin (Some e # es)\<rparr>)
           | None \<Rightarrow>
               let opened = [StdinR, StdinW, StdoutR, StdoutW] in
               case tsStart t of
                 Some e \<Rightarrow>
                   (case closeEnds t opened [StdinR, StdinW, StdoutR, StdoutW] of
                      (opened, es) \<Rightarrow>
                        \<lparr>tpOpen = opened, tpRunning = False,
                         tpErr = errorsJoin (Some (Wrapped (Formatted ''start transport %q: %w'' [hd argv]) (Some e)) # es)\<rparr>)
               | None \<Rightarrow>
                   (case closeEnds t opened [StdinR, StdoutW] of
                      (opened, es) \<Rightarrow>
                        (case errorsJoin es of
                           Some e \<Rightarrow>
                             (case closeEnds t opened [StdinW, StdoutR] of
                                (opened, fs) \<Rightarrow>
                                  \<lparr>tpOpen = opened, tpRunning = False,
                                   tpErr = errorsJoin ([Some e, tsKill t, tsWait t] @ fs)\<rparr>)
                         | None \<Rightarrow> \<lparr>tpOpen = opened, tpRunning = True, tpErr = None\<rparr>))))"

text \<open>\<open>transportConn.Close\<close>; the flag tells whether the process ended within the grace period.\<close>

record transportEnd =
  teStdinClose :: "goerr option"
  teExitedInGrace :: bool
  teWait :: "goerr option"
  teKill :: "goerr option"
  teStdoutClose :: "goerr option"
  teStderr :: bytes

definition transportClose :: "transportEnd \<Rightarrow> goerr option" where
  "transportClose t =
     (let killErr = (case teKill t of None \<Rightarrow> None | Some e \<Rightarrow> if errorsIs e ErrProcessDone then None else Some e);
          closeErr = (if teExitedInGrace t then errorsJoin [teStdinClose t, teWait t]
                      else errorsJoin [teStdinClose t, killErr, teWait t]) in
      errorsJoin [closeErr, teStdoutClose t])"

definition stderrOutput :: "transportEnd \<Rightarrow> bytes" where "stderrOutput t = TrimSpace (teStderr t)"

text \<open>\<open>unmarshal\<close> decodes the code, the error and the source of a line.\<close>

definition remoteBGXError :: "(bytes \<Rightarrow> (bytes \<times> bytes \<times> bytes) option) \<Rightarrow> bytes \<Rightarrow> (bytes \<times> bytes) option" where
  "remoteBGXError unmarshal stderr =
     foldl (\<lambda>acc line. case unmarshal line of
         None \<Rightarrow> acc
       | Some (code, message, source) \<Rightarrow>
           if source = str ''bgx'' \<and> code \<noteq> [] \<and> message \<noteq> [] then Some (code, message) else acc)
       None (splitLines stderr)"

section \<open>Attach\<close>

text \<open>The way to the session: \<open>None\<close> its socket, \<open>Some\<close> a transport command.\<close>

definition attachRoute :: "bytes \<Rightarrow> AttachOptions \<Rightarrow> goerr + string \<times> bytes list option" where
  "attachRoute i opts =
     (let invalid = (\<lambda>m. Inl (Wrapped AttachOptionsError (Some (Sentinel (ErrOther m))))) in
      if i = [] then invalid ''an id is required''
      else if aoSSH opts \<noteq> [] \<and> aoVia opts \<noteq> None then invalid ''--ssh and --via are mutually exclusive''
      else if aoVia opts = Some [] then invalid ''--via requires a command''
      else
        case normalized (map (\<lambda>b. char_of (unat b)) (aoMode opts)) of
          None \<Rightarrow>
            Inl (Wrapped AttachOptionsError
              (Some (Plain (Text ''unknown mode %q (want auto, isolated, or native)'' [aoMode opts]) [])))
        | Some mode \<Rightarrow>
            Inr (mode, map_option (\<lambda>via. via @ [str ''bgx'', str ''bridge'', i])
                         (if aoSSH opts \<noteq> [] then Some [str ''ssh'', aoSSH opts] else aoVia opts)))"

definition sessionEnded :: "bytes \<Rightarrow> goerr option \<Rightarrow> goerr" where
  "sessionEnded i cause = Wrapped (SessionEndedError ''attach'' i) cause"

text \<open>A session that is not running locally has ended or does not exist.\<close>

definition endedOrMissing :: "json \<Rightarrow> fsys \<Rightarrow> bytes \<Rightarrow> bytes \<Rightarrow> goerr option \<Rightarrow> fsys \<times> goerr" where
  "endedOrMissing js fs rdir i cause =
     (case endedRecord js fs rdir i of
        (fs, Some _) \<Rightarrow> (fs, sessionEnded i cause)
      | (fs, None) \<Rightarrow> (fs, sessionNotFound ''attach'' i cause))"

definition localCheck :: "json \<Rightarrow> network \<Rightarrow> fsys \<Rightarrow> bytes \<Rightarrow> bytes \<Rightarrow> bytes \<Rightarrow> fsys \<times> goerr option" where
  "localCheck js net fs sdir rdir i =
     (case liveInfo net sdir i of
        Some info \<Rightarrow> if iRunning info then (fs, None) else (fs, Some (sessionEnded i None))
      | None \<Rightarrow> (case endedOrMissing js fs rdir i None of (fs, e) \<Rightarrow> (fs, Some e)))"

text \<open>The error of the client, told as the caller is to see it.\<close>

definition attachError ::
    "json \<Rightarrow> (bytes \<Rightarrow> (bytes \<times> bytes \<times> bytes) option) \<Rightarrow> fsys \<Rightarrow> bytes \<Rightarrow> bytes \<Rightarrow> transportEnd option \<Rightarrow> goerr \<Rightarrow> fsys \<times> goerr" where
  "attachError js unmarshal fs rdir i transport e =
     (let remote = (case transport of None \<Rightarrow> None | Some t \<Rightarrow> remoteBGXError unmarshal (teStderr t));
          local = (if errorsIs e ErrAttachSocketDial then endedOrMissing js fs rdir i (Some e)
                   else
                     (fs, case transport of
                        None \<Rightarrow> e
                      | Some t \<Rightarrow>
                          if stderrOutput t \<noteq> [] then Wrapped (Formatted ''attach: %w: %s'' [stderrOutput t]) (Some e) else e)) in
      case remote of
        Some (code, message) \<Rightarrow>
          if code = str codeSessionNotFound then (fs, sessionNotFound ''attach'' i (Some (Plain (Text ''%s'' [message]) [])))
          else if code = str codeSessionEnded then (fs, sessionEnded i (Some (Plain (Text ''%s'' [message]) [])))
          else local
      | None \<Rightarrow> local)"

text \<open>What the two dialers give, and how the attachment over each goes.\<close>

record attachWorld =
  awStart :: "bytes list \<Rightarrow> transportStart"
  awEnd :: transportEnd
  awDial :: "goerr option"
  awConn :: attachConn
  awRun :: "attachConfig \<Rightarrow> goerr option"

definition socketDialed :: "(goerr \<Rightarrow> bytes) \<Rightarrow> attachWorld \<Rightarrow> goerr + attachConn option" where
  "socketDialed errText w =
     (case awDial w of
        Some e \<Rightarrow> Inl (Wrapped (Formatted ''%w: %v'' [errText e]) (Some (Sentinel ErrAttachSocketDial)))
      | None \<Rightarrow> Inr (Some (awConn w)))"

definition transportDialed :: "attachWorld \<Rightarrow> bytes list \<Rightarrow> goerr + attachConn option" where
  "transportDialed w argv =
     (case tpErr (startTransportProcess (awStart w argv) argv) of
        Some e \<Rightarrow> Inl e
      | None \<Rightarrow> Inr (Some ((awConn w)\<lparr>acClose := transportClose (awEnd w)\<rparr>)))"

definition clientOptions :: "string \<Rightarrow> AttachOptions \<Rightarrow> attachOption option list" where
  "clientOptions mode opts =
     Some (WithAttachMode mode) # (if aoShowDetachInstructions opts then [Some WithDetachInstructions] else [])"

definition Attach ::
    "json \<Rightarrow> network \<Rightarrow> (bytes \<Rightarrow> (bytes \<times> bytes \<times> bytes) option) \<Rightarrow> (goerr \<Rightarrow> bytes) \<Rightarrow> attachWorld \<Rightarrow>
      fsys \<Rightarrow> bytes \<Rightarrow> bytes \<Rightarrow> bytes \<Rightarrow> AttachOptions \<Rightarrow> fsys \<times> goerr option" where
  "Attach js net unmarshal errText w fs sdir rdir i opts =
     (case attachRoute i opts of
        Inl e \<Rightarrow> (fs, Some e)
      | Inr (mode, route) \<Rightarrow>
          (case (case route of Some _ \<Rightarrow> (fs, None) | None \<Rightarrow> localCheck js net fs sdir rdir i) of
             (fs, Some e) \<Rightarrow> (fs, Some e)
           | (fs, None) \<Rightarrow>
               let dialed = (case route of Some argv \<Rightarrow> transportDialed w argv | None \<Rightarrow> socketDialed errText w);
                   transport = (if route \<noteq> None \<and> \<not> isl dialed then Some (awEnd w) else None) in
               case AttachClient True (Some dialed) (clientOptions mode opts) (awRun w) of
                 None \<Rightarrow> (fs, None)
               | Some e \<Rightarrow> (case attachError js unmarshal fs rdir i transport e of (fs, e) \<Rightarrow> (fs, Some e))))"

section \<open>Bridge\<close>

definition wrapBridgeError :: "string \<Rightarrow> goerr option \<Rightarrow> goerr option" where
  "wrapBridgeError op e =
     (case e of None \<Rightarrow> None
      | Some x \<Rightarrow> if errorsIs x ErrNetClosed then None else Some (Wrapped (Formatted ''bridge: %s: %w'' [str op]) (Some x)))"

definition wrapBridgeCloseWriteError :: "goerr option \<Rightarrow> goerr option" where
  "wrapBridgeCloseWriteError e =
     (case e of Some x \<Rightarrow> if errorsIs x ErrNotConn then None else wrapBridgeError ''close session write side'' e
      | None \<Rightarrow> wrapBridgeError ''close session write side'' e)"

text \<open>What dialing a Unix socket gives; another kind of connection is closed again.\<close>

datatype dialedConn = UnixConn | OtherConn "goerr option"

definition dialSession :: "(bytes \<Rightarrow> goerr + dialedConn) \<Rightarrow> bytes \<Rightarrow> bytes \<Rightarrow> goerr option" where
  "dialSession dialUnix sdir i =
     (case dialUnix (socketPath sdir i) of
        Inl e \<Rightarrow> Some e
      | Inr (OtherConn ce) \<Rightarrow> errorsJoin [Some (Plain (Text ''dial unix socket returned %T'' []) []), ce]
      | Inr UnixConn \<Rightarrow> None)"

text \<open>
  The calls \<open>Bridge\<close> makes; \<open>bcLate\<close> tells whether the inbound copy returned when the
  teardown had begun. The connection is closed once, so that its result is one value.
\<close>

record bridgeCalls =
  bcDial :: "goerr option"
  bcInbound :: "goerr option"
  bcLate :: bool
  bcCloseWrite :: "goerr option"
  bcOutbound :: "goerr option"
  bcRwClose :: "goerr option"
  bcConnClose :: "goerr option"
  bcContext :: "goerr option"

definition bridgeInbound :: "bridgeCalls \<Rightarrow> goerr option" where
  "bridgeInbound b =
     (let copyErr = (if bcLate b then None else bcInbound b);
          shutdownErr = (if copyErr \<noteq> None then wrapBridgeError ''close session connection'' (bcConnClose b)
                         else wrapBridgeCloseWriteError (bcCloseWrite b)) in
      errorsJoin [copyErr, shutdownErr])"

definition Bridge :: "bridgeCalls \<Rightarrow> goerr option" where
  "Bridge b =
     (case bcDial b of
        Some e \<Rightarrow>
          errorsJoin [Some (Errorf ''bridge: dial: %w'' e), wrapBridgeError ''close caller stream'' (bcRwClose b)]
      | None \<Rightarrow>
          let rwCloseErr = wrapBridgeError ''close caller stream'' (bcRwClose b);
              inErr = bridgeInbound b;
              ret = (case bcContext b of
                       Some e \<Rightarrow> errorsJoin [Some e, rwCloseErr, inErr]
                     | None \<Rightarrow>
                         (case inErr of
                            Some e \<Rightarrow> errorsJoin [Some (Errorf ''bridge: %w'' e), rwCloseErr]
                          | None \<Rightarrow>
                              (case bcOutbound b of
                                 Some e \<Rightarrow> errorsJoin [Some (Errorf ''bridge: %w'' e), rwCloseErr]
                               | None \<Rightarrow> rwCloseErr))) in
          errorsJoin [ret, wrapBridgeError ''close session connection'' (bcConnClose b)])"


section \<open>No pipe end is lost\<close>

text \<open>
  Starting a transport loses no descriptor and no process: it fails with every pipe end it
  opened closed again and no process left running, or succeeds with the process running and exactly
  the two ends of this side open, whichever of its calls fail.
\<close>

theorem startTransport_no_leak:
  "case tpErr (startTransportProcess t argv) of
     Some e \<Rightarrow> tpOpen (startTransportProcess t argv) = [] \<and> \<not> tpRunning (startTransportProcess t argv)
   | None \<Rightarrow> tpOpen (startTransportProcess t argv) = [StdinW, StdoutR] \<and> tpRunning (startTransportProcess t argv)"
  by (simp add: startTransportProcess_def closeEnds_def errorsJoin_def map_filter_simps Let_def split: option.split)

section \<open>Attaching to a session that is not there\<close>

lemma normalized_again: "normalized m = Some m' \<Longrightarrow> normalized m' = Some m'"
  by (auto simp: normalized_def split: if_splits)

lemma attachRoute_mode: "attachRoute i opts = Inr (mode, route) \<Longrightarrow> normalized mode = Some mode"
  by (auto simp: attachRoute_def Let_def split: if_splits option.splits dest: normalized_again)

definition missingFailure :: "bytes \<Rightarrow> goerr" where
  "missingFailure i = failJSON codeSessionNotFound ''attach: session %q does not exist'' [i] []"
definition endedFailure :: "bytes \<Rightarrow> goerr" where
  "endedFailure i = failJSON codeSessionEnded ''attach: session %q has already ended'' [i] []"

definition dialFailed :: "bytes \<Rightarrow> goerr" where
  "dialFailed d = Wrapped (Formatted ''%s: dial: %w'' [str ''attach''])
     (Some (Wrapped (Formatted ''%w: %v'' [d]) (Some (Sentinel ErrAttachSocketDial))))"

lemmas failure_defs = attachFailure_def errorsAs_def sessionEnded_def sessionNotFound_def isAttachOptions_def isNotFound_def
  isEnded_def missingFailure_def endedFailure_def

lemma attachFailure_ended:
  "attachFailure i (sessionEnded i None) = endedFailure i" "attachFailure i (sessionEnded i (Some (dialFailed d))) = endedFailure i"
  "attachFailure i (sessionEnded i (Some (Plain p es))) = endedFailure i"
  by (simp_all add: failure_defs dialFailed_def)

lemma attachFailure_missing:
  "attachFailure i (sessionNotFound ''attach'' i None) = missingFailure i"
  "attachFailure i (sessionNotFound ''attach'' i (Some (dialFailed d))) = missingFailure i"
  "attachFailure i (sessionNotFound ''attach'' i (Some (Plain p es))) = missingFailure i"
  by (simp_all add: failure_defs dialFailed_def)

lemma clientOptions_config:
  "attachConfigOf (clientOptions mode opts) = \<lparr>cfMode = mode, cfShowDetachInstructions = aoShowDetachInstructions opts\<rparr>"
  by (simp add: attachConfigOf_def clientOptions_def WithAttachMode_def WithDetachInstructions_def)

lemma AttachClient_dialFailed:
  assumes "normalized mode = Some mode" "awDial w = Some d"
  shows "AttachClient True (Some (socketDialed errText w)) (clientOptions mode opts) atch = Some (dialFailed (errText d))"
  using assms by (simp add: AttachClient_def clientOptions_config socketDialed_def dialFailed_def)

text \<open>
  C20. Attaching to a local session that is not running is always told as such, and the race with
  its end makes no difference: whether its socket gives no answer, answers that it has ended, or
  goes away between the answer and the dial, the command reports that the session has ended when it
  was seen ended or its record can be read, and otherwise that it does not exist, and never a
  failed dial.
\<close>

theorem attach_absent_session:
  assumes "attachRoute i opts = Inr (mode, None)" "endedRecord js fs rdir i = (fs', r)"
    "case liveInfo net sdir i of None \<Rightarrow> \<not> seenEnded | Some info \<Rightarrow> seenEnded = (\<not> iRunning info) \<and> (seenEnded \<or> awDial w \<noteq> None)"
  shows "\<exists>e. snd (Attach js net unmarshal errText w fs sdir rdir i opts) = Some e \<and>
    attachFailure i e = (if seenEnded \<or> r \<noteq> None then endedFailure i else missingFailure i)"
proof (cases "liveInfo net sdir i")
  case None
  then show ?thesis using assms
    by (cases r) (simp_all add: Attach_def localCheck_def endedOrMissing_def attachFailure_ended attachFailure_missing)
next
  case (Some info)
  show ?thesis
  proof (cases "iRunning info")
    case False
    then show ?thesis using assms Some
      by (simp add: Attach_def localCheck_def attachFailure_ended)
  next
    case True
    then obtain d where d: "awDial w = Some d" "\<not> seenEnded" using assms(3) Some by auto
    note c = AttachClient_dialFailed [OF attachRoute_mode [OF assms(1)] d(1)]
    have "errorsIs (dialFailed x) ErrAttachSocketDial" for x by (simp add: dialFailed_def)
    then show ?thesis using assms(1,2) Some True d(2)
      by (cases r) (simp_all add: Attach_def localCheck_def c attachError_def endedOrMissing_def attachFailure_ended attachFailure_missing)
  qed
qed

lemma foldl_keeps: "\<forall>x\<in>set xs. f acc x = acc \<Longrightarrow> foldl f acc xs = acc"
  by (induction xs) simp_all

text \<open>
  A remote failure is reported as if the session were local: when the bgx at the far end of a
  transport reports a missing or ended session on its stderr, whatever else is written there and
  however the stream to it failed, the command here reports the same code.
\<close>

theorem remote_error_is_local:
  assumes "attachRoute i opts = Inr (mode, Some argv)" "tpErr (startTransportProcess (awStart w argv) argv) = None"
    "AttachClient True (Some (transportDialed w argv)) (clientOptions mode opts) (awRun w) = Some e"
    "splitLines (teStderr (awEnd w)) = before @ line # after" "unmarshal line = Some (str code, message, str ''bgx'')"
    "message \<noteq> []" "\<forall>l\<in>set after. unmarshal l = None" "code \<in> {codeSessionNotFound, codeSessionEnded}"
  shows "\<exists>e. snd (Attach js net unmarshal errText w fs sdir rdir i opts) = Some e \<and>
    attachFailure i e = (if code = codeSessionNotFound then missingFailure i else endedFailure i)"
proof -
  have n: "str code \<noteq> []" "str codeSessionEnded \<noteq> str codeSessionNotFound" "codeSessionEnded \<noteq> codeSessionNotFound"
    using assms(8) by (auto simp: codeSessionNotFound_def codeSessionEnded_def)
  have "remoteBGXError unmarshal (teStderr (awEnd w)) = Some (str code, message)"
    using assms(5-7) n unfolding remoteBGXError_def assms(4) by (simp add: foldl_keeps)
  moreover have "\<exists>conn. transportDialed w argv = Inr (Some conn)" using assms(2) by (simp add: transportDialed_def)
  ultimately show ?thesis
    using assms(1,3,8) n by (auto simp: Attach_def attachError_def attachFailure_ended attachFailure_missing)
qed

text \<open>At the far end the session is gone: before the bridge, or seen so once the bridge has failed.\<close>

definition farGone :: "operations \<Rightarrow> bytes \<Rightarrow> InfoResult \<Rightarrow> bool" where
  "farGone far i r \<longleftrightarrow>
     bridgeUnavailable i r \<noteq> None \<and>
     (opInfo far 0 i = Inr r \<or>
      (\<exists>r0. opInfo far 0 i = Inr r0 \<and> bridgeUnavailable i r0 = None) \<and> opBridge far i \<noteq> None \<and> opInfo far 1 i = Inr r)"

definition farCode :: "InfoResult \<Rightarrow> string" where
  "farCode r = (if irExists r then codeSessionEnded else codeSessionNotFound)"

lemma bridge_reports_gone:
  assumes "opEnsureDirs far = None" "farGone far (firstArg cmd) r" "firstArg cmd \<noteq> []"
    "runCli far werr (Invoked ''bridge'' cmd) = (j, e)"
  shows "\<exists>x. j = Some x \<and> ejCode x = farCode r \<and> ejSource x = ''bgx''"
proof -
  obtain u where u: "bridgeUnavailable (firstArg cmd) r = Some u" using assms(2) by (auto simp: farGone_def)
  then obtain fmt args where f: "u = failJSON (farCode r) fmt args []"
    by (auto simp: bridgeUnavailable_def farCode_def split: if_splits option.splits)
  have "arErr (bridgeAction far cmd) = Some u"
    using assms(2,3) u by (auto simp: farGone_def bridgeAction_def failed_def Let_def split: option.split)
  then have "arErr (rootRun far (Invoked ''bridge'' cmd)) = Some u"
    using assms(1) by (simp add: rootRun_def commandAction_names withDirs_def)
  then show ?thesis
    using assms(4) by (auto simp: runCli_def reportError_def f failJSON_def errorsAs_coded emitErrorJSON_def errorSource_def)
qed

text \<open>
  C21. A remote failure is reported as if the session were local. When the bgx at the far end of a
  transport runs \<open>bridge\<close> for a session that does not exist or has ended, before its bridge or
  while it runs, then whatever else is written to its stderr before its error, and however the stream to it
  failed, attaching here ends with the error of a missing or an ended local session.
\<close>

theorem bridge_error_is_local:
  assumes "attachRoute i opts = Inr (mode, Some argv)" "tpErr (startTransportProcess (awStart w argv) argv) = None"
    "AttachClient True (Some (transportDialed w argv)) (clientOptions mode opts) (awRun w) = Some e"
    "opEnsureDirs far = None" "firstArg cmd = i" "farGone far i r" "runCli far werr (Invoked ''bridge'' cmd) = (Some j, farErr)"
    "splitLines (teStderr (awEnd w)) = before @ encode j # after"
    "unmarshal (encode j) = Some (str (ejCode j), message, str (ejSource j))" "message \<noteq> []" "\<forall>l\<in>set after. unmarshal l = None"
  shows "\<exists>e. snd (Attach js net unmarshal errText w fs sdir rdir i opts) = Some e \<and>
    attachFailure i e = (if irExists r then endedFailure i else missingFailure i)"
proof -
  have "i \<noteq> []" using assms(1) by (auto simp: attachRoute_def Let_def)
  then have j: "ejCode j = farCode r" "ejSource j = ''bgx''"
    using bridge_reports_gone [OF assms(4), of cmd r werr "Some j" farErr] assms(5-7) by auto
  have c: "farCode r \<in> {codeSessionNotFound, codeSessionEnded}" by (simp add: farCode_def)
  have "farCode r = codeSessionNotFound \<longleftrightarrow> \<not> irExists r"
    by (simp add: farCode_def codeSessionNotFound_def codeSessionEnded_def)
  then show ?thesis
    using remote_error_is_local [OF assms(1-3,8) assms(9) [unfolded j] assms(10,11) c, of js net errText fs sdir rdir]
    by (cases "irExists r") simp_all
qed

section \<open>What the bridge reports\<close>

text \<open>An end that was closed already is no failure.\<close>

definition closedWell :: "goerr option \<Rightarrow> bool" where
  "closedWell e \<longleftrightarrow> (case e of None \<Rightarrow> True | Some x \<Rightarrow> errorsIs x ErrNetClosed)"

lemma wrapBridgeError_None: "wrapBridgeError op e = None \<longleftrightarrow> closedWell e"
  by (simp add: wrapBridgeError_def closedWell_def split: option.split)

lemma wrapBridgeCloseWriteError_None:
  "wrapBridgeCloseWriteError e = None \<longleftrightarrow> closedWell e \<or> (\<exists>x. e = Some x \<and> errorsIs x ErrNotConn)"
  by (auto simp: wrapBridgeCloseWriteError_def wrapBridgeError_None closedWell_def split: option.split)

text \<open>
  The bridge returns nil exactly when nothing went wrong: the session was dialled, the context
  is alive, no copy failed (a failure of the inbound copy counts unless the teardown had begun), the
  session's side could be half-closed, and both streams closed, where an end that is closed or no
  longer connected is no failure.
\<close>

theorem Bridge_reports:
  "Bridge b = None \<longleftrightarrow>
     bcDial b = None \<and> bcContext b = None \<and> bcOutbound b = None \<and> closedWell (bcRwClose b) \<and> closedWell (bcConnClose b) \<and>
     (bcInbound b = None \<or> bcLate b) \<and>
     (closedWell (bcCloseWrite b) \<or> (\<exists>x. bcCloseWrite b = Some x \<and> errorsIs x ErrNotConn))"
proof (cases "bcDial b")
  case None
  have "bridgeInbound b = None \<longleftrightarrow> (bcInbound b = None \<or> bcLate b) \<and>
     (closedWell (bcCloseWrite b) \<or> (\<exists>x. bcCloseWrite b = Some x \<and> errorsIs x ErrNotConn))"
    by (auto simp: bridgeInbound_def Let_def errorsJoin_None wrapBridgeCloseWriteError_None)
  then show ?thesis using None
    by (auto simp: Bridge_def Let_def errorsJoin_None wrapBridgeError_None split: option.split)
qed (simp add: Bridge_def errorsJoin_None)

section \<open>Witnesses\<close>

definition demoAttachOptions :: "bytes list option \<Rightarrow> AttachOptions" where
  "demoAttachOptions via = \<lparr>aoMode = [], aoShowDetachInstructions = False, aoSSH = [], aoVia = via\<rparr>"

definition demoWorld :: "goerr option \<Rightarrow> bytes \<Rightarrow> attachWorld" where
  "demoWorld dialed stderr =
     \<lparr>awStart = (\<lambda>argv. \<lparr>tsStdinPipe = None, tsStdoutPipe = None, tsStart = None, tsClose = (\<lambda>e. None), tsKill = None, tsWait = None\<rparr>),
      awEnd = \<lparr>teStdinClose = None, teExitedInGrace = True, teWait = None, teKill = None, teStdoutClose = None, teStderr = stderr\<rparr>,
      awDial = dialed,
      awConn = \<lparr>acEncode = None, acCtxAtEncode = None, acLine = ([], Some (Sentinel ErrEOF)), acCtxAtLine = None,
                acDecode = (\<lambda>l. Inl (Sentinel ErrEOF)), acClose = None\<rparr>,
      awRun = (\<lambda>m. None)\<rparr>"

definition demoUnmarshal :: "bytes \<Rightarrow> (bytes \<times> bytes \<times> bytes) option" where
  "demoUnmarshal l = (if l = str ''{}'' then Some (str codeSessionEnded, str ''gone'', str ''bgx'') else None)"

lemma demoRoute:
  "attachRoute (str ''b'') (demoAttachOptions None) = Inr (AttachModeAuto, None)"
  "attachRoute (str ''b'') (demoAttachOptions (Some [str ''vm''])) = Inr (AttachModeAuto, Some [str ''vm'', str ''bgx'', str ''bridge'', str ''b''])"
  by code_simp+

lemma demoLive: "liveInfo demoNetwork (str ''/r/run'') (str ''b'') = Some (demoInfo (str ''b''))" by code_simp
lemma demoUnended: "endedRecord demoRecords demoStartFs (str ''/s'') (str ''b'') = (demoStartFs, None)" by code_simp

text \<open>A session that ends between the answer and the dial.\<close>

theorem attach_absent_session_witness:
  "\<exists>e. snd (Attach demoRecords demoNetwork demoUnmarshal (\<lambda>e. []) (demoWorld (Some (Sentinel ErrConnRefused)) []) demoStartFs
       (str ''/r/run'') (str ''/s'') (str ''b'') (demoAttachOptions None)) = Some e \<and> attachFailure (str ''b'') e = missingFailure (str ''b'')"
proof -
  have "iRunning (demoInfo (str ''b''))" "awDial (demoWorld (Some (Sentinel ErrConnRefused)) []) \<noteq> None"
    by (simp_all add: demoInfo_def demoWorld_def)
  then have "case liveInfo demoNetwork (str ''/r/run'') (str ''b'') of None \<Rightarrow> \<not> False
      | Some info \<Rightarrow> False = (\<not> iRunning info) \<and> (False \<or> awDial (demoWorld (Some (Sentinel ErrConnRefused)) []) \<noteq> None)"
    unfolding demoLive by simp
  from attach_absent_session [OF demoRoute(1) demoUnended this] show ?thesis by simp
qed

definition demoNoise :: bytes where "demoNoise = str ''noise'' @ [0x0A] @ str ''{}'' @ [0x0A] @ str ''bye''"

lemma demoClientFails:
  "AttachClient True (Some (transportDialed (demoWorld None noise) argv)) (clientOptions AttachModeAuto opts) (awRun (demoWorld None noise)) =
     Some (protocolError ''attach'' (Errorf ''decode response: %w'' (Sentinel ErrEOF)))"
  by (simp add: demoWorld_def AttachClient_def clientOptions_config transportDialed_def startTransportProcess_def closeEnds_def errorsJoin_def
      map_filter_simps Let_def attachHandshake_def joinDeferred_def transportClose_def normalized_def
      withoutExpectedAttachShutdownErrors_def)

theorem remote_error_is_local_witness:
  "\<exists>e. snd (Attach demoRecords demoNetwork demoUnmarshal (\<lambda>e. []) (demoWorld None demoNoise) demoStartFs
       (str ''/r/run'') (str ''/s'') (str ''b'') (demoAttachOptions (Some [str ''vm'']))) = Some e \<and>
     attachFailure (str ''b'') e = endedFailure (str ''b'')"
proof -
  let ?w = "demoWorld None demoNoise" and ?argv = "[str ''vm'', str ''bgx'', str ''bridge'', str ''b'']"
  have s: "tpErr (startTransportProcess (awStart ?w ?argv) ?argv) = None" by code_simp
  have c: "AttachClient True (Some (transportDialed ?w ?argv)) (clientOptions AttachModeAuto (demoAttachOptions (Some [str ''vm'']))) (awRun ?w) =
      Some (protocolError ''attach'' (Errorf ''decode response: %w'' (Sentinel ErrEOF)))" by (rule demoClientFails)
  have l: "splitLines (teStderr (awEnd ?w)) = [str ''noise''] @ str ''{}'' # [str ''bye'']" by code_simp
  have u: "demoUnmarshal (str ''{}'') = Some (str codeSessionEnded, str ''gone'', str ''bgx'')"
    "demoUnmarshal (str ''bye'') = None" by code_simp+
  have a: "\<forall>l\<in>set [str ''bye'']. demoUnmarshal l = None" by (simp only: list.set ball_simps u)
  have "str ''gone'' \<noteq> []" "codeSessionEnded \<in> {codeSessionNotFound, codeSessionEnded}" "codeSessionEnded \<noteq> codeSessionNotFound"
    by (simp_all add: codeSessionEnded_def codeSessionNotFound_def)
  then show ?thesis
    using remote_error_is_local [OF demoRoute(2) s c l u(1) _ a, of demoRecords demoNetwork "\<lambda>e. []" demoStartFs "str ''/r/run''" "str ''/s''"]
    by simp
qed

definition farCmd :: cmdLine where "farCmd = demoLine\<lparr>clArgs := [str ''b'']\<rparr>"

definition farUnmarshal :: "bytes \<Rightarrow> (bytes \<times> bytes \<times> bytes) option" where
  "farUnmarshal l = (if l = str ''{}'' then Some (str codeSessionNotFound, str ''gone'', str ''bgx'') else None)"

theorem bridge_error_is_local_witness:
  "\<exists>e. snd (Attach demoRecords demoNetwork farUnmarshal (\<lambda>e. []) (demoWorld None demoNoise) demoStartFs
       (str ''/r/run'') (str ''/s'') (str ''b'') (demoAttachOptions (Some [str ''vm'']))) = Some e \<and>
     attachFailure (str ''b'') e = missingFailure (str ''b'')"
proof -
  let ?w = "demoWorld None demoNoise" and ?argv = "[str ''vm'', str ''bgx'', str ''bridge'', str ''b'']"
  have s: "tpErr (startTransportProcess (awStart ?w ?argv) ?argv) = None" by code_simp
  have c: "AttachClient True (Some (transportDialed ?w ?argv)) (clientOptions AttachModeAuto (demoAttachOptions (Some [str ''vm'']))) (awRun ?w) =
      Some (protocolError ''attach'' (Errorf ''decode response: %w'' (Sentinel ErrEOF)))" by (rule demoClientFails)
  have far: "opEnsureDirs demoOps = None" "firstArg farCmd = str ''b''" by code_simp+
  have "opInfo demoOps 0 (str ''b'') = Inr \<lparr>irExists = False, irInfo = None\<rparr>" by (simp add: demoOps_def)
  then have g: "farGone demoOps (str ''b'') \<lparr>irExists = False, irInfo = None\<rparr>" by (simp add: farGone_def bridgeUnavailable_def)
  obtain j fe where r: "runCli demoOps None (Invoked ''bridge'' farCmd) = (Some j, fe)" "ejCode j = codeSessionNotFound" "ejSource j = ''bgx''"
    using bridge_reports_gone [OF far(1) g [folded far(2)], of None] far(2) by (auto simp: farCode_def) (metis prod.collapse)
  have l: "splitLines (teStderr (awEnd ?w)) = [str ''noise''] @ str ''{}'' # [str ''bye'']" by code_simp
  have u: "farUnmarshal (str ''{}'') = Some (str codeSessionNotFound, str ''gone'', str ''bgx'')"
    "farUnmarshal (str ''bye'') = None" by code_simp+
  have a: "\<forall>l\<in>set [str ''bye'']. farUnmarshal l = None" by (simp only: list.set ball_simps u)
  have "str ''gone'' \<noteq> []" by simp
  note b = bridge_error_is_local [OF demoRoute(2) s c far g r(1), where encode = "\<lambda>j. str ''{}''", OF l _ this a, unfolded r(2,3), OF u(1)]
  show ?thesis using b [of demoRecords demoNetwork "\<lambda>e. []" demoStartFs "str ''/r/run''" "str ''/s''"] by simp
qed

end
