(* ===== verification/Process_Terminal.thy ===== *)
theory Process_Terminal
  imports Transport
begin

text \<open>
  The ends of a bgx process: \<open>terminal*.go\<close>, the process's own terminal with its raw mode,
  size, interruptible reads and resize notifications on Unix and Windows, and
  \<open>daemonize.go\<close> with \<open>main\<close>, by which the program is its own daemon. System calls
  are their results. Lemmas: sizes are never truncated, the terminal's mode comes back, no resize is
  lost, and a cancelled read on Windows loses no other error.
\<close>

section \<open>Size\<close>

definition normalizeSizeErrorUnix :: "goerr \<Rightarrow> goerr" where
  "normalizeSizeErrorUnix e =
     (if errorsIs e (ErrOther ''ENOTTY'') \<or> errorsIs e (ErrOther ''EINVAL'')
      then Joined [Sentinel ErrSizeUnavailable, e] else e)"

definition normalizeSizeErrorWindows :: "goerr \<Rightarrow> goerr" where
  "normalizeSizeErrorWindows e =
     (if errorsIs e (ErrOther ''ERROR_INVALID_HANDLE'') \<or> errorsIs e (ErrOther ''ERROR_INVALID_FUNCTION'')
      then Joined [Sentinel ErrSizeUnavailable, e] else e)"

text \<open>The first argument is the platform's \<open>normalizeTerminalSizeError\<close>, the second the answer of \<open>term.GetSize\<close>.\<close>

definition SizeOf :: "(goerr \<Rightarrow> goerr) \<Rightarrow> goerr + int \<times> int \<Rightarrow> goerr + 16 word \<times> 16 word" where
  "SizeOf nse answer =
     (case answer of
        Inl e \<Rightarrow> Inl (nse e)
      | Inr (width, height) \<Rightarrow>
          if width \<le> 0 \<or> height \<le> 0 \<or> width > uint (- 1 :: 16 word) \<or> height > uint (- 1 :: 16 word)
          then Inl (Wrapped (Formatted ''%w: width=%d height=%d'' []) (Some (Sentinel ErrSizeUnavailable)))
          else Inr (word_of_int width, word_of_int height))"

section \<open>Raw mode\<close>

text \<open>The saved state, and the mode the device is in.\<close>

record 'm processTerminal =
  ptState :: "'m option"
  ptMode :: 'm

text \<open>\<open>made\<close> is what \<open>term.MakeRaw\<close> makes of the mode, and \<open>None\<close> when it fails.\<close>

definition EnterRaw :: "bool \<Rightarrow> 'm option \<Rightarrow> 'm processTerminal \<Rightarrow> 'm processTerminal" where
  "EnterRaw isTerminal made t =
     (if ptState t \<noteq> None \<or> \<not> isTerminal then t
      else case made of None \<Rightarrow> t | Some r \<Rightarrow> t\<lparr>ptState := Some (ptMode t), ptMode := r\<rparr>)"

definition Restore :: "goerr option \<Rightarrow> 'm processTerminal \<Rightarrow> 'm processTerminal \<times> goerr option" where
  "Restore err t =
     (case ptState t of
        None \<Rightarrow> (t, None)
      | Some m \<Rightarrow> (if err = None then t\<lparr>ptState := None, ptMode := m\<rparr> else t\<lparr>ptState := None\<rparr>, err))"

section \<open>Reads that can be interrupted\<close>

text \<open>
  \<open>ReadContext\<close> on Unix: each round is what the context and then \<open>poll\<close> answer;
  \<open>None\<close> while it waits.
\<close>

fun ReadContext :: "bytes \<times> goerr option \<Rightarrow> (goerr option \<times> (goerr + int)) list \<Rightarrow> (bytes \<times> goerr option) option" where
  "ReadContext r [] = None"
| "ReadContext r ((ctxErr, poll) # rounds) =
     (case ctxErr of
        Some e \<Rightarrow> Some ([], Some e)
      | None \<Rightarrow>
          (case poll of
             Inl e \<Rightarrow> if errorsIs e (ErrOther ''EINTR'') then ReadContext r rounds else Some ([], Some e)
           | Inr ready \<Rightarrow> if ready = 0 then ReadContext r rounds else Some r))"

definition opAborted :: sentinel where "opAborted = ErrOther ''ERROR_OPERATION_ABORTED''"

fun withoutAborted :: "goerr \<Rightarrow> goerr option" where
  "withoutAborted (Sentinel x) = (if x = opAborted then None else Some (Sentinel x))"
| "withoutAborted (Joined es) = errorsJoin (map withoutAborted es)"
| "withoutAborted (Errorf m e) = map_option (Pruned (Errorf m e)) (withoutAborted e)"
| "withoutAborted (Pruned w e) = map_option (Pruned (Pruned w e)) (withoutAborted e)"
| "withoutAborted (Wrapped k None) = None"
| "withoutAborted (Wrapped k (Some e)) = map_option (Pruned (Wrapped k (Some e))) (withoutAborted e)"
| "withoutAborted (Plain p es) = Some (Plain p es)"

definition withoutExpectedWindowsCancellationError :: "goerr option \<Rightarrow> goerr option" where
  "withoutExpectedWindowsCancellationError e = (case e of None \<Rightarrow> None | Some x \<Rightarrow> withoutAborted x)"

record windowsRead =
  wnDuplicate :: "goerr option"
  wnRead :: "bytes \<times> goerr option"
  wnCancelled :: "goerr option"
  wnCancelIo :: "goerr option"
  wnClose :: "goerr option"

definition unless :: "sentinel \<Rightarrow> goerr option \<Rightarrow> goerr option" where
  "unless s e = (case e of None \<Rightarrow> None | Some x \<Rightarrow> if errorsIs x s then None else e)"

text \<open>\<open>wnCancelled\<close> is the error of the context when its end is noticed before the read.\<close>

definition ReadContextWindows :: "windowsRead \<Rightarrow> bytes \<times> goerr option" where
  "ReadContextWindows w =
     (case wnDuplicate w of
        Some e \<Rightarrow> ([], Some e)
      | None \<Rightarrow>
          (case (wnRead w, wnCancelled w) of
             ((data, err), None) \<Rightarrow> (data, errorsJoin [err, wnClose w])
           | ((data, err), Some ctxErr) \<Rightarrow>
               (data, errorsJoin [withoutExpectedWindowsCancellationError err,
                  unless (ErrOther ''ERROR_NOT_FOUND'') (wnCancelIo w), unless ErrOsClosed (wnClose w), Some ctxErr])))"

section \<open>Resize notifications\<close>

text \<open>\<open>ResizeEvents\<close> on Unix: both channels hold one item, and a signal that finds its channel full is dropped.\<close>

record resizeEvents =
  reSignal :: bool
  reEvent :: bool
  reStopped :: bool

datatype resizeStep = Winch | Forward | CtxDone | Taken

fun resizeEventsStep :: "resizeEvents \<Rightarrow> resizeStep \<Rightarrow> resizeEvents" where
  "resizeEventsStep s Winch = s\<lparr>reSignal := True\<rparr>"
| "resizeEventsStep s Forward =
     (if reStopped s \<or> \<not> reSignal s then s else s\<lparr>reSignal := False, reEvent := True\<rparr>)"
| "resizeEventsStep s CtxDone = s\<lparr>reStopped := True\<rparr>"
| "resizeEventsStep s Taken = s\<lparr>reEvent := False\<rparr>"

definition ResizeEvents :: resizeEvents where
  "ResizeEvents = \<lparr>reSignal = False, reEvent = False, reStopped = False\<rparr>"

text \<open>On Windows no event is ever sent; the channel is closed with the context.\<close>

fun resizeEventsStepWindows :: "resizeEvents \<Rightarrow> resizeStep \<Rightarrow> resizeEvents" where
  "resizeEventsStepWindows s CtxDone = s\<lparr>reStopped := True\<rparr>"
| "resizeEventsStepWindows s other = s"

lemma resizeEventsWindows_silent: "\<not> reEvent (foldl resizeEventsStepWindows ResizeEvents steps)"
proof -
  have "\<not> reEvent s \<Longrightarrow> \<not> reEvent (foldl resizeEventsStepWindows s steps)" for s
  proof (induction steps arbitrary: s)
    case (Cons st steps)
    then show ?case by (cases st) simp_all
  qed simp
  then show ?thesis by (simp add: ResizeEvents_def)
qed

section \<open>The program as its own daemon\<close>

datatype intercepted = NotADaemon | Exits int "(string \<times> goerr) option"

text \<open>The value of the marker, the result of clearing it, the decoding of a configuration, and \<open>Serve\<close>.\<close>

definition InterceptDaemon :: "bytes \<Rightarrow> goerr option \<Rightarrow> (bytes \<Rightarrow> goerr + sessionConfig) \<Rightarrow> (sessionConfig \<Rightarrow> goerr option) \<Rightarrow> intercepted" where
  "InterceptDaemon marker unsetErr decode Serve =
     (if marker = [] then NotADaemon
      else case unsetErr of
        Some e \<Rightarrow> Exits 1 (Some (''bgx daemon: clear config marker: %v'', e))
      | None \<Rightarrow>
          (case decode marker of
             Inl e \<Rightarrow> Exits 1 (Some (''bgx daemon: invalid config: %v'', e))
           | Inr c \<Rightarrow>
               (case Serve c of
                  Some e \<Rightarrow> Exits 1 (Some (''bgx daemon: %v'', e))
                | None \<Rightarrow> Exits 0 None)))"

definition mainStatus :: "intercepted \<Rightarrow> goerr option \<Rightarrow> int" where
  "mainStatus i cliErr = (case i of Exits n _ \<Rightarrow> n | NotADaemon \<Rightarrow> exitCode cliErr)"

section \<open>What the terminal promises\<close>

text \<open>
  Sizes are exact or refused: the terminal's size is the one the system reports, as numbers,
  exactly when both dimensions are positive and fit 16 bits; every other report is the unavailable
  size, which an attachment takes for no size, so that a size is never cut down to its low bits.
\<close>

theorem SizeOf_exact:
  "(SizeOf nse answer = Inr (c, r) \<longleftrightarrow> answer = Inr (uint c, uint r) \<and> c \<noteq> 0 \<and> r \<noteq> 0) \<and>
   (case answer of Inl e \<Rightarrow> SizeOf nse answer = Inl (nse e)
    | Inr (w, h) \<Rightarrow> case SizeOf nse answer of Inl e \<Rightarrow> errorsIs e ErrSizeUnavailable | Inr p \<Rightarrow> w > 0 \<and> h > 0)"
proof (cases answer)
  case (Inr p)
  obtain w h where p: "p = (w, h)" by fastforce
  have top: "uint (- 1 :: 16 word) = 65535" by code_simp
  have b: "0 \<le> uint x \<and> uint x \<le> 65535" for x :: "16 word" using uint_lt2p [of x] by simp
  have nz: "x \<noteq> 0 \<longleftrightarrow> 0 < uint x" for x :: "16 word" by (simp only: word_neq_0_conv word_less_def uint_0_eq)
  have k: "word_of_int v = x \<longleftrightarrow> v = uint x" if "0 < v" "v \<le> 65535" for v and x :: "16 word"
  proof -
    have "uint (word_of_int v :: 16 word) = v" using that by (simp add: unsigned_of_int take_bit_int_eq_self)
    then show ?thesis by (metis word_of_int_uint)
  qed
  show ?thesis
  proof (cases "w \<le> 0 \<or> h \<le> 0 \<or> w > 65535 \<or> h > 65535")
    case True
    then show ?thesis unfolding Inr p SizeOf_def top using b [of c] b [of r] nz [of c] nz [of r] by auto
  next
    case False
    then show ?thesis unfolding Inr p SizeOf_def top using k [of w c] k [of h r] nz [of c] nz [of r] by auto
  qed
qed (simp add: SizeOf_def)

text \<open>The calls of an attachment on its terminal.\<close>

datatype 'm rawCall = CallEnter bool "'m option" | CallRestore "goerr option"

fun rawStep :: "'m processTerminal \<Rightarrow> 'm rawCall \<Rightarrow> 'm processTerminal" where
  "rawStep t (CallEnter b r) = EnterRaw b r t"
| "rawStep t (CallRestore e) = fst (Restore e t)"

text \<open>The mode to come back to.\<close>

definition homeMode :: "'m processTerminal \<Rightarrow> 'm" where
  "homeMode t = (case ptState t of None \<Rightarrow> ptMode t | Some m \<Rightarrow> m)"

lemma rawStep_home: "c \<notin> range (CallRestore \<circ> Some) \<Longrightarrow> homeMode (rawStep t c) = homeMode t"
  by (cases c) (auto simp: homeMode_def EnterRaw_def Restore_def image_iff split: option.split)

lemma rawSteps_home: "set calls \<inter> range (CallRestore \<circ> Some) = {} \<Longrightarrow> homeMode (foldl rawStep t calls) = homeMode t"
proof (induction calls arbitrary: t)
  case (Cons c calls)
  then show ?case using rawStep_home [of c t] by simp
qed simp

lemma Restore_home: "ptMode (fst (Restore None t)) = homeMode t"
  by (simp add: Restore_def homeMode_def split: option.split)

text \<open>
  The mode comes back: after any calls on a terminal, whichever attempts to enter raw mode
  succeed, a restore leaves the device in the mode it had at first, as long as no restore fails. A
  failed restore forgets that mode, so that no later one brings it back.
\<close>

theorem raw_mode_restored:
  assumes "ptState t = None" "\<forall>c\<in>set calls. \<forall>e. c \<noteq> CallRestore (Some e)"
  shows "ptMode (fst (Restore None (foldl rawStep t calls))) = ptMode t \<and>
    (\<forall>e r. ptMode (fst (Restore None (fst (Restore (Some e) (EnterRaw True (Some r) t))))) = r)"
proof
  have "set calls \<inter> range (CallRestore \<circ> Some) = {}" using assms(2) by auto
  then show "ptMode (fst (Restore None (foldl rawStep t calls))) = ptMode t"
    using assms(1) by (simp add: Restore_home rawSteps_home homeMode_def [of t])
  show "\<forall>e r. ptMode (fst (Restore None (fst (Restore (Some e) (EnterRaw True (Some r) t))))) = r"
    using assms(1) by (simp add: Restore_def EnterRaw_def)
qed

theorem raw_mode_restored_witness:
  "ptMode (fst (Restore None (foldl rawStep \<lparr>ptState = None, ptMode = 0 :: nat\<rparr> [CallEnter True (Some 1)]))) = 0"
  using raw_mode_restored [of "\<lparr>ptState = None, ptMode = 0 :: nat\<rparr>" "[CallEnter True (Some 1)]"] by simp

text \<open>Whether a signal came after the last notification was taken.\<close>

fun unnoticed :: "bool \<Rightarrow> resizeStep list \<Rightarrow> bool" where
  "unnoticed due [] = due"
| "unnoticed due (x # xs) = unnoticed (if x = Winch then True else if x = Taken then False else due) xs"

lemma unnoticed_pending:
  "due \<longrightarrow> reSignal s \<or> reEvent s \<Longrightarrow> unnoticed due xs \<Longrightarrow>
    reSignal (foldl resizeEventsStep s xs) \<or> reEvent (foldl resizeEventsStep s xs)"
proof (induction xs arbitrary: s due)
  case (Cons x xs)
  let ?due = "if x = Winch then True else if x = Taken then False else due"
  have "?due \<longrightarrow> reSignal (resizeEventsStep s x) \<or> reEvent (resizeEventsStep s x)"
    using Cons.prems(1) by (cases x) auto
  then show ?case using Cons.IH [of ?due "resizeEventsStep s x"] Cons.prems(2) by (simp only: unnoticed.simps foldl_Cons)
qed auto

text \<open>
  No resize is lost: however signals, forwarding and taking interleave, while a signal has not been
  followed by the taking of a notification, one of the two channels holds a notification of it, to
  be forwarded and taken unless the attachment ends first.
\<close>

theorem resize_not_lost:
  assumes "unnoticed False xs"
  shows "reSignal (foldl resizeEventsStep ResizeEvents xs) \<or> reEvent (foldl resizeEventsStep ResizeEvents xs)"
  by (rule unnoticed_pending [OF _ assms]) simp

theorem resize_not_lost_witness:
  "reSignal (foldl resizeEventsStep ResizeEvents [Winch, Forward, Taken, Winch]) \<or>
    reEvent (foldl resizeEventsStep ResizeEvents [Winch, Forward, Taken, Winch])"
  by (rule resize_not_lost) simp

lemma causes_withoutAborted: "causesOf (withoutAborted e) = filter (\<lambda>x. x \<noteq> opAborted) (causes e)"
proof (induction e rule: withoutAborted.induct)
  case (2 es)
  then show ?case by (simp add: causes_errorsJoin filter_concat comp_def cong: map_cong)
next
  case (3 m e)
  then show ?case by (cases "withoutAborted e") (auto simp: causesOf_def)
next
  case (4 w e)
  then show ?case by (cases "withoutAborted e") (auto simp: causesOf_def)
next
  case (6 k e)
  then show ?case by (cases "withoutAborted e") (auto simp: causesOf_def)
qed (auto simp: causesOf_def opAborted_def)

text \<open>An end of the read that is noticed first leaves the read's other errors.\<close>

lemma ReadContextWindows_causes:
  assumes "wnDuplicate w = None" "wnCancelled w = Some e" "wnCancelIo w = None" "wnClose w = None"
  shows "causesOf (snd (ReadContextWindows w)) = filter (\<lambda>x. x \<noteq> opAborted) (causesOf (snd (wnRead w))) @ causes e"
  using assms
  by (cases "wnRead w"; cases "snd (wnRead w)")
    (simp_all add: ReadContextWindows_def causes_errorsJoin unless_def withoutExpectedWindowsCancellationError_def
      causesOf_def [of None] causesOf_def [of "Some x" for x] causes_withoutAborted)

text \<open>An embedding program is a daemon just when it was started as one, and then never runs its own command line.\<close>

lemma mainStatus_daemon:
  "marker \<noteq> [] \<Longrightarrow> mainStatus (InterceptDaemon marker u d S) e = (if \<exists>c. u = None \<and> d marker = Inr c \<and> S c = None then 0 else 1)"
  by (auto simp: mainStatus_def InterceptDaemon_def split: option.split sum.split)

end
