(* ===== verification/Program.thy ===== *)
theory Program
  imports Lifecycle Process_Terminal
begin

text \<open>
  The program as a whole: the operations a \<open>bgx\<close> process is given (\<open>defaultOperations\<close> of
  \<open>internal/cli/cli.go\<close>), each one the model of its component in the directories the process
  resolved, and a session from \<open>bgx run\<close> over its daemon to the commands that ask for it. The
  world of a process is what the system, the network and the terminal answer it. Lemmas: what the
  commands print and the status they exit with after the session's end.
\<close>

section \<open>The operations of a process\<close>

text \<open>
  The files and the sockets are as the process finds them at its n-th look at the session; the polls
  of \<open>wait\<close> and the rounds of a start go on until the operation has answered.
\<close>

record world =
  woVersion :: bytes
  woTrial :: "bytes \<Rightarrow> dirTrial"
  woEnv :: dirEnv
  woProcess :: dirProcess
  woJson :: json
  woFs :: "nat \<Rightarrow> fsys"
  woDials :: "nat \<Rightarrow> bytes \<Rightarrow> dialer"
  woNetwork :: network
  woStart :: startEnv
  woPolls :: "bytes \<Rightarrow> (fsys \<times> pollEvent) list"
  woSortByID :: "Info list \<Rightarrow> Info list"
  woMapOrder :: "Info list \<Rightarrow> Info list"
  woUnmarshal :: "bytes \<Rightarrow> (bytes \<times> bytes \<times> bytes) option"
  woErrText :: "goerr \<Rightarrow> bytes"
  woAttach :: attachWorld
  woDialUnix :: "bytes \<Rightarrow> goerr + dialedConn"
  woBridge :: "bytes \<Rightarrow> bridgeCalls"
  woStdinClose :: "goerr option"
  woStdoutClose :: "goerr option"
  woPrint :: "cliOutput \<Rightarrow> goerr option"

text \<open>Every operation comes after \<open>ensureDirs\<close>, which resolves the directories for good.\<close>

definition resolved :: "world \<Rightarrow> dirProcess" where
  "resolved w = fst (EnsureDirs (woTrial w) (woEnv w) (woProcess w))"

definition worldSocketDir :: "world \<Rightarrow> bytes" where
  "worldSocketDir w = snd (socketDir (woTrial w) (woEnv w) (resolved w))"

definition worldRetentionDir :: "world \<Rightarrow> bytes" where
  "worldRetentionDir w = snd (retentionDir (woTrial w) (woEnv w) (resolved w))"

definition worldEnsureDirs :: "world \<Rightarrow> goerr option" where
  "worldEnsureDirs w =
     map_option (\<lambda>m. Plain (Text ''%s'' [m]) []) (snd (EnsureDirs (woTrial w) (woEnv w) (woProcess w)))"

definition sessionClient :: "(bytes \<Rightarrow> dialer) \<Rightarrow> bytes \<Rightarrow> bytes \<Rightarrow> client" where
  "sessionClient dials sdir i = NewClient (dials (socketPath sdir i))"

definition worldStart :: "world \<Rightarrow> startEnv" where
  "worldStart w = (woStart w)\<lparr>seEnsureDirs := worldEnsureDirs w, seSocketDir := worldSocketDir w,
     seRetentionDir := worldRetentionDir w, seNetwork := woNetwork w\<rparr>"

definition startAnswer :: "startResult \<Rightarrow> goerr + Info" where
  "startAnswer r = (case stErr r of Some e \<Rightarrow> Inl e | None \<Rightarrow> Inr (the (stInfo r)))"

definition defaultOperations :: "world \<Rightarrow> operations" where
  "defaultOperations w =
     (let js = woJson w; sdir = worldSocketDir w; rdir = worldRetentionDir w;
          client = (\<lambda>n i. sessionClient (woDials w n) sdir i) in
      \<lparr>opEnsureDirs = worldEnsureDirs w,
       opRun = (\<lambda>i command spec. startAnswer (the (Run js (worldStart w) (woFs w 0) i command spec))),
       opInfo = (\<lambda>n i. snd (InfoOp js (client n i) (woFs w n) rdir i)),
       opWait = (\<lambda>i. the (WaitOp js (client 0 i) (woFs w 0) (woPolls w i) sdir rdir i)),
       opKill = (\<lambda>i. snd (KillOp js (client 0 i) (woFs w 0) rdir i)),
       opSend = (\<lambda>i input. SendOp (client 0 i) i input),
       opHistory = (\<lambda>i. snd (HistoryOp js (client 0 i) (woFs w 0) rdir i)),
       opAttach = (\<lambda>i opts. snd (Attach js (woNetwork w) (woUnmarshal w) (woErrText w) (woAttach w) (woFs w 0) sdir rdir i opts)),
       opBridge = (\<lambda>i. Bridge ((woBridge w i)\<lparr>bcDial := dialSession (woDialUnix w) sdir i,
                      bcRwClose := snd (stdioClose (woStdinClose w) (woStdoutClose w) newStdioStream)\<rparr>)),
       opList = (\<lambda>m. snd (ListSessions (woSortByID w) (woMapOrder w) (woNetwork w) js (woFs w 0) sdir rdir m)),
       opVersion = snd (VersionOp (woVersion w) (woTrial w) (woEnv w) (resolved w)),
       opPrint = woPrint w\<rparr>)"

text \<open>What the commands do with a session that has ended, once the directories are there.\<close>

lemma ended_commands:
  assumes "worldEnsureDirs w = None" "\<forall>v. woPrint w v = None" "firstArg cmd = i" "i \<noteq> []"
    and "snd (InfoOp (woJson w) (sessionClient (woDials w 0) (worldSocketDir w) i) (woFs w 0) (worldRetentionDir w) i) =
      Inr \<lparr>irExists = True, irInfo = Some info\<rparr>"
    and "WaitOp (woJson w) (sessionClient (woDials w 0) (worldSocketDir w) i) (woFs w 0) (woPolls w i) (worldSocketDir w)
      (worldRetentionDir w) i = Some (Inr \<lparr>exInfo = info, exCode = code\<rparr>)"
    and "snd (HistoryOp (woJson w) (sessionClient (woDials w 0) (worldSocketDir w) i) (woFs w 0) (worldRetentionDir w) i) = Inr out"
  shows "arOut (rootRun (defaultOperations w) (Invoked ''info'' cmd)) = [OutInfo \<lparr>irExists = True, irInfo = Some info\<rparr>] \<and>
    arOut (rootRun (defaultOperations w) (Invoked ''history'' cmd)) = [OutHistory out] \<and>
    arOut (rootRun (defaultOperations w) (Invoked ''wait'' cmd)) = [OutWait i code] \<and>
    fst (runCli (defaultOperations w) werr (Invoked ''wait'' cmd)) = None \<and>
    mainStatus NotADaemon (snd (runCli (defaultOperations w) werr (Invoked ''wait'' cmd))) = code"
proof -
  let ?ops = "defaultOperations w"
  have o: "opEnsureDirs ?ops = None" "opPrint ?ops = woPrint w"
    "opInfo ?ops 0 i = Inr \<lparr>irExists = True, irInfo = Some info\<rparr>" "opWait ?ops i = Inr \<lparr>exInfo = info, exCode = code\<rparr>"
    "opHistory ?ops i = Inr out"
    using assms by (simp_all add: defaultOperations_def Let_def)
  have r: "arErr (rootRun ?ops (Invoked ''wait'' cmd)) = (if code = 0 then None else Some (Plain (ExitError code) []))"
    "arOut (rootRun ?ops (Invoked ''wait'' cmd)) = [OutWait i code]"
    "arOut (rootRun ?ops (Invoked ''info'' cmd)) = [OutInfo \<lparr>irExists = True, irInfo = Some info\<rparr>]"
    "arOut (rootRun ?ops (Invoked ''history'' cmd)) = [OutHistory out]"
    using o assms(2-4)
    by (simp_all add: rootRun_def commandAction_names withDirs_def waitAction_def infoAction_def historyAction_def printed1_def Let_def)
  have x: "errorsAs isExit (Plain (ExitError code) []) = Some (Plain (ExitError code) [])" by (simp add: errorsAs_def isExit_def)
  have "fst (runCli ?ops werr (Invoked ''wait'' cmd)) = None \<and>
      mainStatus NotADaemon (snd (runCli ?ops werr (Invoked ''wait'' cmd))) = code"
    unfolding runCli_def r(1) by (simp add: reportError_def x mainStatus_def exitCode_def)
  then show ?thesis using r by blast
qed

section \<open>From bgx run to bgx wait\<close>

lemma socketPath_no_record:
  assumes "sdir \<noteq> []" shows "socketPath sdir i \<notin> {RecordPath rdir j, HistoryPath rdir j}"
proof -
  have "component (encodeName i @ str ''.sock'')" by (rule component_encoded) (simp_all add: slash_def)
  then have l: "last (splitSlash (socketPath sdir i)) = encodeName i @ str ''.sock''"
    unfolding socketPath_def encodeName_def [symmetric] by (rule Join_last [OF assms])
  have "last (a @ str ''.sock'') \<noteq> last (b @ str ''.json'')" "last (a @ str ''.sock'') \<noteq> last (b @ str ''.history'')" for a b
    by simp_all
  then show ?thesis using l last_RecordPath [of rdir j] last_HistoryPath [of rdir j] by (metis empty_iff insert_iff)
qed


section \<open>Witness\<close>

definition wholeEnv :: dirEnv where
  "wholeEnv = \<lparr>runtimeVar = str ''/r'', stateVar = str ''/s'', xdgRuntimeDir = [], xdgStateHome = [], userHome = None,
     tempDir = str ''/tmp'', workDir = None\<rparr>"

definition wholeWorld :: "fsys \<Rightarrow> world" where
  "wholeWorld fs = \<lparr>woVersion = str ''v1'', woTrial = (\<lambda>d. \<lparr>trMkdirAll = None, trCreateTemp = None, trClose = None, trRemove = None\<rparr>),
     woEnv = wholeEnv, woProcess = freshDirs, woJson = wholeJson, woFs = (\<lambda>n. fs), woDials = (\<lambda>n p op input. Inl (Sentinel ErrConnRefused)),
     woNetwork = (\<lambda>p. Inl (Sentinel ErrNotExist)), woStart = demoStartEnv, woPolls = (\<lambda>i. []), woSortByID = (\<lambda>xs. xs), woMapOrder = (\<lambda>xs. xs),
     woUnmarshal = (\<lambda>l. None), woErrText = (\<lambda>e. []), woAttach = demoWorld None [], woDialUnix = (\<lambda>p. Inr UnixConn),
     woBridge = (\<lambda>i. \<lparr>bcDial = None, bcInbound = None, bcLate = False, bcCloseWrite = None, bcOutbound = None, bcRwClose = None,
        bcConnClose = None, bcContext = None\<rparr>),
     woStdinClose = None, woStdoutClose = None, woPrint = (\<lambda>v. None)\<rparr>"

definition wholeSpec :: RunSpec where
  "wholeSpec = \<lparr>rsDir = [], rsEnv = [], rsStartTimeout = 0, rsOverwriteID = False, rsMetadata = [], rsHeadSize = 4, rsTailSize = 4,
     rsStorage = ''memory'', rsStoragePath = [], rsRetention = 1, rsConcurrency = 3\<rparr>"

definition wholeStarted :: "startResult option" where
  "wholeStarted = Run wholeJson (worldStart (wholeWorld demoStartFs)) demoStartFs (str ''a'') [str ''sh''] wholeSpec"

lemma whole_world:
  "case wholeStarted of None \<Rightarrow> False | Some r \<Rightarrow> stSpawned r = Some wholeConfig"
  "worldSocketDir (wholeWorld demoStartFs) \<noteq> []" "worldRetentionDir (wholeWorld demoStartFs) = wholeKeep"
  "worldEnsureDirs (wholeWorld demoStartFs) = None"
  by code_simp+

lemma whole_same: "worldRetentionDir (wholeWorld fs) = worldRetentionDir (wholeWorld demoStartFs)"
  "worldEnsureDirs (wholeWorld fs) = worldEnsureDirs (wholeWorld demoStartFs)"
  by (simp_all add: worldRetentionDir_def worldEnsureDirs_def resolved_def wholeWorld_def)


end
