(* ===== verification/Attached_Session.thy ===== *)
theory Attached_Session
  imports Session_Run Attach_Client Frame
begin

text \<open>
  The daemon, the wire and the client together: the output of a session, framed by the writer of
  \<open>daemon/attach.go\<close>, read back by \<open>client_attach.go\<close> and applied to the client's own
  emulated terminal (\<open>attachmodels.go\<close>). Lemmas: whatever the workers of an attachment do in
  between, its model has seen exactly the output frames read, and so shows what the session shows.
\<close>

section \<open>What the workers do to the model\<close>

text \<open>The frames a list of events reads.\<close>

fun framesRead :: "attachEvent list \<Rightarrow> (FrameTag \<times> bytes) list" where
  "framesRead [] = []"
| "framesRead (EvFrameRead (Inr f) # evs) = f # framesRead evs"
| "framesRead (ev # evs) = framesRead evs"

definition outputPayloads :: "(FrameTag \<times> bytes) list \<Rightarrow> bytes list" where
  "outputPayloads fs = map snd (filter (\<lambda>f. fst f = FrameOutput) fs)"

lemma outputPayloads_simps [simp]: "outputPayloads [] = []"
  "outputPayloads (f # fs) = (if fst f = FrameOutput then [snd f] else []) @ outputPayloads fs"
  by (simp_all add: outputPayloads_def)

text \<open>
  The model has the core \<open>k\<close> and is presented as its mode asks for; once it has seen output, the
  presentation is that of the screen it is on.
\<close>

definition mirrors :: "string \<Rightarrow> bool \<Rightarrow> core \<Rightarrow> 'g attachModels \<Rightarrow> bool" where
  "mirrors mode fd k m \<longleftrightarrow> well_presented m \<and> mmode m = mode \<and> coreOf (mterm m) = k \<and> (fd \<longrightarrow> fits m)"

lemma normalized_modes: "normalized mode = Some mode \<Longrightarrow> mode \<in> {AttachModeAuto, AttachModeIsolated, AttachModeNative}"
  by (auto simp: normalized_def split: if_splits)

lemma presented_resized:
  assumes "presented p m" "resizeLocked G m c r = (m', None)" shows "presented p m'"
  using assms(1) resizeLocked_ok [OF assms(2)] sessionRows_cong [of m' m r] by (simp add: presented_def)

lemma mirrors_resized:
  assumes "mirrors mode fd k m" "resizeLocked G m c r = (m', None)" shows "mirrors mode fd k m'"
proof -
  note r = resizeLocked_ok [OF assms(2)]
  have "alt (mterm m') = alt (mterm m)" by (rule alt_core) (rule r(6))
  then have "fits m \<Longrightarrow> fits m'" using presented_resized [OF _ assms(2)] r(4) by (simp add: fits_def)
  moreover have "presented PresentationPending m \<Longrightarrow> presented PresentationPending m'" using presented_resized [OF _ assms(2)] .
  ultimately show ?thesis using assms(1) r(3,4,6,7) by (auto simp: mirrors_def well_presented_def)
qed

lemma resizeLocked_failed: "resizeLocked G m c r = (m', Some e) \<Longrightarrow> m' = m"
  by (auto simp: resizeLocked_def Let_def split: sum.splits)

lemma mirrors_applyResize: "mirrors mode fd k m \<Longrightarrow> mirrors mode fd k (fst (applyResize G m c r))"
  using mirrors_resized [of mode fd k m G c r] resizeLocked_failed [of G m c r]
  by (auto simp: applyResize_def split: prod.split option.split)

lemma mirrors_steady: "mirrors mode fd k m \<Longrightarrow> steady m m' \<Longrightarrow> mirrors mode fd k m'"
  using fits_steady [of m m'] steady_presented [of m m'] by (auto simp: mirrors_def well_presented_def steady_def kept_def)

lemma mirrors_paint: "mirrors mode fd k m \<Longrightarrow> mirrors mode fd k (paintModels G m)"
proof (erule mirrors_steady)
  show "steady m (paintModels G m)"
    by (auto simp: paintModels_def steady_def kept_def split: option.split prod.split)
qed

lemma mirrors_sendSize: "mirrors mode fd k (arModels s) \<Longrightarrow> mirrors mode fd k (arModels (fst (sendSize G s)))"
proof -
  assume m: "mirrors mode fd k (arModels s)"
  have f: "arModels (fst (sendSizeFrame u p)) = arModels u" for u p
    by (simp add: sendSizeFrame_def split: list.split option.split)
  have "mirrors mode fd k (fst (applyResize G (arModels s) c r))" for c r using mirrors_applyResize [OF m] .
  then show ?thesis using m
    by (auto simp: sendSize_def Let_def f split: sum.split prod.split) (metis fst_conv)+
qed

lemma mirrors_output:
  assumes "applyOutput G m p = (m', resized, None)" "mirrors mode fd k m" "normalized mode = Some mode"
  shows "mirrors mode True (foldl stepCore k p) m'"
proof -
  have "mmode m \<in> {AttachModeAuto, AttachModeIsolated, AttachModeNative}"
    using assms(2) normalized_modes [OF assms(3)] by (simp add: mirrors_def)
  from applyOutput_ok [OF assms(1) _ this] show ?thesis using assms(2) by (simp add: mirrors_def)
qed

lemma mirrors_start:
  assumes "startModels G (newAttachModels t mode hints ph) = (m, None)" "normalized mode = Some mode"
  shows "mirrors mode False (coreOf t) m"
proof -
  let ?n = "newAttachModels t mode hints ph"
  have n: "mmode ?n = mode" "mterm ?n = t" "pres ?n = PresentationPending" "\<not> panicked ?n" "view ?n = None"
    "mrows ?n = sessionRows ?n (physicalRows ?n)" "mrows ?n = physicalRows ?n"
    by (simp_all add: newAttachModels_def sessionRows_def)
  from normalized_modes [OF assms(2)] consider "mode = AttachModeAuto" | "mode = AttachModeIsolated" | "mode = AttachModeNative" by auto
  then show ?thesis
  proof cases
    case 1
    then have "m = ?n" using assms(1) n(1) by (simp add: startModels_def mode_defs)
    then show ?thesis using n 1 by (simp add: mirrors_def well_presented_def presented_def)
  next
    case 2
    then have "enterIsolated G ?n = (m, None)" using assms(1) n(1) by (simp add: startModels_def)
    from enterIsolated_ok [OF this] show ?thesis using n 2
      by (simp add: mirrors_def well_presented_def fits_def presents_def kept_def)
  next
    case 3
    then have "m = ?n\<lparr>pres := PresentationNative\<rparr>" using assms(1) n(1) by (simp add: startModels_def mode_defs)
    then show ?thesis using n 3
      by (simp add: mirrors_def well_presented_def fits_def presents_def presented_def sessionRows_def mode_defs coreOf_def)
  qed
qed

text \<open>As long as the frame worker runs, every event keeps the model in step with the frames read.\<close>

lemma mirrors_frame:
  assumes "arFrameErr (onFrame G s (Inr f)) = None" "mirrors mode fd k (arModels s)" "normalized mode = Some mode"
  shows "mirrors mode (fd \<or> fst f = FrameOutput) (foldl stepCore k (concat (outputPayloads [f]))) (arModels (onFrame G s (Inr f)))"
proof -
  obtain tag p where f: "f = (tag, p)" by fastforce
  have run: "arFrameErr s = None" "tag \<noteq> FrameEnded" using assms(1) by (auto simp: onFrame_def f split: if_splits)
  consider "tag = FrameOutput" | "tag = FrameResize" "tag \<noteq> FrameOutput" | "tag \<noteq> FrameOutput" "tag \<noteq> FrameResize" by blast
  then show ?thesis
  proof cases
    case 1
    obtain m resized e where a: "applyOutput G (arModels s) p = (m, resized, e)" by (metis prod_cases3)
    have "e = None" using assms(1) run 1 a by (cases e) (auto simp: onFrame_def f)
    note m = mirrors_output [OF a [unfolded this] assms(2,3)]
    have "arModels (onFrame G s (Inr f)) = (if resized then arModels (fst (sendSize G (s\<lparr>arModels := m\<rparr>))) else m)"
      using run 1 a \<open>e = None\<close> by (auto simp: onFrame_def f split: prod.split option.split)
    then show ?thesis using m mirrors_sendSize [of mode True _ "s\<lparr>arModels := m\<rparr>" G] 1 by (simp add: f)
  next
    case 2
    then have "arModels (onFrame G s (Inr f)) = arModels (fst (sendSize G s))"
      using run by (auto simp: onFrame_def f split: prod.split option.split)
    then show ?thesis using mirrors_sendSize [OF assms(2)] 2 by (simp add: f)
  next
    case 3
    then show ?thesis using run assms(2) by (simp add: onFrame_def f)
  qed
qed

lemma mirrors_step:
  assumes "arFrameErr (attachEventStep G s ev) = None" "mirrors mode fd k (arModels s)" "normalized mode = Some mode"
  shows "mirrors mode (fd \<or> outputPayloads (framesRead [ev]) \<noteq> []) (foldl stepCore k (concat (outputPayloads (framesRead [ev]))))
    (arModels (attachEventStep G s ev))"
proof (cases ev)
  case EvResized
  then show ?thesis using assms(2) mirrors_sendSize [OF assms(2), of G]
    by (cases "sendSize G s") (simp add: onResized_def)
next
  case (EvFrameRead r)
  show ?thesis
  proof (cases r)
    case (Inl e)
    then show ?thesis using EvFrameRead assms(1) by (simp add: onFrame_def split: if_splits)
  next
    case (Inr f)
    then show ?thesis using EvFrameRead mirrors_frame [OF _ assms(2,3), of G f] assms(1) by (auto split: if_splits)
  qed
next
  case (EvInput iev)
  then show ?thesis using assms(2) by simp
next
  case EvPainted
  then show ?thesis using mirrors_paint [OF assms(2)] by simp
qed

lemma framesRead_Cons: "framesRead (ev # evs) = framesRead [ev] @ framesRead evs"
  by (cases "ev # evs" rule: framesRead.cases) auto

lemma outputPayloads_append: "outputPayloads (fs @ gs) = outputPayloads fs @ outputPayloads gs"
  by (simp add: outputPayloads_def)

lemma mirrors_events:
  assumes "arFrameErr (attachEvents G s evs) = None" "mirrors mode fd k (arModels s)" "normalized mode = Some mode"
  shows "mirrors mode (fd \<or> outputPayloads (framesRead evs) \<noteq> []) (foldl stepCore k (concat (outputPayloads (framesRead evs))))
    (arModels (attachEvents G s evs))"
  using assms(1,2)
proof (induction evs arbitrary: s fd k)
  case Nil
  then show ?case by (simp add: attachEvents_def)
next
  case (Cons ev evs)
  let ?s = "attachEventStep G s ev"
  have e: "attachEvents G s (ev # evs) = attachEvents G ?s evs" by (simp add: attachEvents_def)
  have "arFrameErr ?s = None"
    using events_keep [of ?s _ G evs] Cons.prems(1) unfolding e by (cases "arFrameErr ?s") auto
  from Cons.IH [OF Cons.prems(1) [unfolded e] mirrors_step [OF this Cons.prems(2) assms(3)]]
  show ?case unfolding e framesRead_Cons [of ev evs]
    by (simp only: outputPayloads_append concat_append foldl_append append_is_Nil_conv de_Morgan_conj disj_assoc)
qed

section \<open>The client shows the session\<close>

lemma sent_payloads:
  "outputPayloads (map (\<lambda>f. (ofTag f, ofPayload f)) fs) = outputsOf fs"
  by (simp add: outputPayloads_def outputsOf_def filter_map comp_def)

text \<open>
  C3. An attached user looks at the session. When the daemon has sent a client all that is queued for
  it and the client has read those frames from the wire, then, however the daemon's and the client's
  workers were interleaved, whatever sizes were reported, and with resynchronisations in the stream, the client's own
  terminal is on the screen the session's terminal is on (primary or alternate) and has its tracked
  modes, and what is presented to the user is the isolated view or the native stream as the mode of
  the attachment asks for that screen.
\<close>

theorem attached_terminal_agrees:
  assumes "runs z G (initSession c so t0) out inp s" "newTerminal G defaultCols defaultRows = Inr t0"
    and "\<forall>g d. Format G g = Inr d \<longrightarrow> neutral d" "handlerErr s = []"
    and "(i, a) \<in> set (attachers s)" "\<not> writeFailed a" "frames a = sent a"
    and "\<forall>f\<in>set (sent a). length (ofPayload f) \<le> unat maxFrameLen"
    and "wire = writeFrames (map (\<lambda>f. (ofTag f, ofPayload f)) (sent a))"
    and "framesRead evs = fst (readFrames \<lparr>rest = wire, endErr = EOF\<rparr>)"
    and "newTerminal H DefaultCols DefaultRows = Inr t1" "normalized mode = Some mode"
    and "startModels H (newAttachModels t1 mode hints ph) = (m, None)" "attachedStart H env m = (r0, None)"
    and "r = attachEvents H r0 evs" "arFrameErr r = None"
  shows "alt (mterm (arModels r)) = alt (sterm s) \<and> modes (mterm (arModels r)) = modes (sterm s) \<and>
    pres (arModels r) = presents mode (alt (sterm s))"
proof -
  note contract = agrees_contract [OF assms(3)]
  obtain R where "fanout_contract.served follows agrees (outDone s) R s"
    using fanout_contract.runs_served [OF contract assms(1) newTerminal_follows [OF assms(2)]] by blast
  then have R: "follows R (sterm s)" "agrees (outDone s) R (outputs a)"
    using assms(4-6) unfolding fanout_contract.served_def [OF contract] by blast+
  obtain R2 where "tiles.served G t0 (outDone s) R2 s" using tiles.runs_served [OF assms(1) fed_init] by blast
  then have "tiled G t0 (outDone s) R2 (outputs a)" using assms(4-6) by (auto simp: tiles.served_def)
  then have ne: "outputs a \<noteq> []" by (auto simp: tiled_def)
  let ?fs = "map (\<lambda>f. (ofTag f, ofPayload f)) (sent a)"
  have "framesRead evs = ?fs"
    using assms(8) readFrames_frameBytes [of ?fs EOF] unfolding assms(9,10) writeFrames_eq by auto
  then have o: "outputPayloads (framesRead evs) = outputs a" using assms(7) by (simp add: sent_payloads outputs_def)
  have t1: "coreOf t1 = core0" using newTerminal_follows [OF assms(11)] by (simp add: follows_def)
  have "mirrors mode False core0 m" using mirrors_start [OF assms(13,12)] by (simp add: t1)
  then have "mirrors mode False core0 (arModels r0)"
    using mirrors_sendSize [of mode False core0 "\<lparr>arModels = m, arInput = startInput (aeInputFaults env), arSizes = aeSizes env,
       arSizeFaults = aeSizeFaults env, arSizeFrames = [], arResizeErr = None, arFrameErr = None, arSessionEnded = False\<rparr>" H]
      assms(14) by (simp add: attachedStart_def)
  then have "mirrors mode True (foldl stepCore core0 (concat (outputs a))) (arModels r)"
    using mirrors_events [of H r0 evs mode False core0] assms(12,15,16) o ne by simp
  then have m: "coreOf (mterm (arModels r)) = foldl stepCore core0 (concat (outputs a))" "fits (arModels r)" "mmode (arModels r) = mode"
    by (simp_all add: mirrors_def)
  have "screenOf (coreOf (mterm (arModels r))) = screenOf (coreOf (sterm s))"
    using R dom_core0 unfolding m(1) agrees_def follows_def by simp
  then have "alt (mterm (arModels r)) = alt (sterm s) \<and> modes (mterm (arModels r)) = modes (sterm s)"
    by (simp add: screenOf_def coreOf_def)
  then show ?thesis using m(2,3) by (simp add: fits_def presented_def)
qed

section \<open>Witness\<close>

definition watchEnv :: attachEnv where
  "watchEnv = \<lparr>aeEnterRaw = None, aeRestore = None, aePhysical = \<lparr>shown = [], answers = []\<rparr>, aeSizes = [], aeSizeFaults = [],
     aeInputFaults = []\<rparr>"

definition watchModels :: "bytes attachModels" where
  "watchModels = fst (startModels recorder (newAttachModels recorderTerminal AttachModeNative False \<lparr>shown = [], answers = []\<rparr>))"

definition watchStart :: "bytes attachRun" where "watchStart = fst (attachedStart recorder watchEnv watchModels)"

definition watchEvents :: "attachEvent list" where
  "watchEvents = [EvFrameRead (Inr (FrameOutput, demoScreen)), EvResized, EvFrameRead (Inr (FrameOutput, str ''ab'')), EvPainted]"

lemma watch_evaluated:
  "snd (startModels recorder (newAttachModels recorderTerminal AttachModeNative False \<lparr>shown = [], answers = []\<rparr>)) = None"
  "snd (attachedStart recorder watchEnv watchModels) = None"
  "arFrameErr (attachEvents recorder watchStart watchEvents) = None"
  "normalized AttachModeNative = Some AttachModeNative"
  by code_simp+

theorem attached_terminal_agrees_witness:
  "alt (mterm (arModels (attachEvents recorder watchStart watchEvents))) = alt (sterm demoState) \<and>
   modes (mterm (arModels (attachEvents recorder watchStart watchEvents))) = modes (sterm demoState) \<and>
   pres (arModels (attachEvents recorder watchStart watchEvents)) = presents AttachModeNative (alt (sterm demoState))"
proof -
  let ?fs = "[(FrameOutput, demoScreen), (FrameOutput, str ''ab'')]"
  have n: "newTerminal recorder defaultCols defaultRows = Inr recorderTerminal" "newTerminal recorder DefaultCols DefaultRows = Inr recorderTerminal"
    using recorder_new by (simp_all add: defaultCols_def defaultRows_def DefaultCols_def DefaultRows_def)
  have sent: "sent demoClient = map (\<lambda>(t, p). \<lparr>ofTag = t, ofPayload = p\<rparr>) ?fs" by (simp add: demoClient_def)
  have l: "length demoScreen \<le> unat maxFrameLen" "length (str ''ab'') \<le> unat maxFrameLen"
    unfolding maxFrameLen_eq by (simp_all add: demoScreen_def modeSequences_def trackedModes_def modeSequence_def decimal.simps SnapshotPrefix_def csi_def)
  have small: "\<forall>f\<in>set (sent demoClient). length (ofPayload f) \<le> unat maxFrameLen"
    unfolding sent using l by (simp only: list.map prod.case list.set outFrame.select_convs ball_simps simp_thms)
  have wire: "writeFrames ?fs = writeFrames (map (\<lambda>f. (ofTag f, ofPayload f)) (sent demoClient))" by (simp add: sent)
  have "\<forall>(t, p)\<in>set ?fs. length p \<le> unat maxFrameLen" using l by (simp only: prod.case list.set ball_simps simp_thms)
  from readFrames_frameBytes [OF this, of EOF] have read: "framesRead watchEvents = fst (readFrames \<lparr>rest = writeFrames ?fs, endErr = EOF\<rparr>)"
    unfolding writeFrames_eq by (simp add: watchEvents_def)
  have st: "startModels recorder (newAttachModels recorderTerminal AttachModeNative False \<lparr>shown = [], answers = []\<rparr>) = (watchModels, None)"
    "attachedStart recorder watchEnv watchModels = (watchStart, None)"
    using watch_evaluated(1,2) by (simp_all add: watchModels_def watchStart_def prod_eq_iff)
  show ?thesis
    by (rule attached_terminal_agrees [OF demo_runs n(1) recorder_neutral demo_client(1-4) small wire read n(2) watch_evaluated(4) st refl watch_evaluated(3)])
qed

end
