(* ===== verification/Spec2Isabelle.thy ===== *)
theory Spec2Isabelle
  imports Program Attached_Session
begin

text \<open>
  bgx keeps terminal sessions running in the background. Each session is a daemon process of its
  own, which runs a command in a PTY, keeps its output, and serves a Unix socket: single requests
  as JSON lines, and attachments as a stream of frames in both directions. When the command ends,
  the daemon stores a record and the output as files and removes its socket. The command line and
  the library start daemons, ask them by their sockets, and fall back to the record of a session
  that is gone. This development models the Go sources and proves what makes each part correct;
  every definition stands for the code named in its theory, and effects, errors and interleavings
  are written out. Integers that wrap are words, Go's other integers \<open>int\<close> or \<open>nat\<close>.

  The parts and their theories.

  Byte streams. \<open>Bgx_Prelude\<close> and \<open>Paths\<close>: byte strings and the library functions the
  sources call on them (\<open>bytes\<close>, \<open>utf8\<close>, \<open>url.QueryEscape\<close>, \<open>filepath.Join\<close>).
  \<open>Vtscan\<close> (\<open>vtscan/vtscan.go\<close>): where a VT stream may be cut; \<open>SafeCut\<close> is the
  largest safe offset and lies between two tokens. \<open>Frame\<close> (\<open>daemon/frame.go\<close>): framing,
  with round trips and the cap on lengths. \<open>Device_Attributes\<close> (\<open>daemon/da.go\<close>): the replies
  to terminal queries, equal to a declarative specification. \<open>Ctrlkey\<close> (\<open>ctrlkey.go\<close>): the
  detach key, found however the input is split, with nothing lost or reordered otherwise.

  What a daemon keeps. \<open>Backend\<close> and \<open>Store\<close> (\<open>scrollback/\<close>): the head and the tail
  of the output in compressed chunks, with the drain goroutine as atomic steps between its unlocked
  sections; a snapshot is the stream with at most its middle cut out and the exact number of missing
  bytes. \<open>Vt\<close> (\<open>vt/vt.go\<close>): the emulated screen and its modes over libghostty;
  \<open>Retention\<close> and \<open>Session_Info\<close> (\<open>daemon/retention.go\<close>, \<open>daemon/protocol.go\<close>):
  the files of ended sessions, their order of writing and their pruning.

  The daemon (\<open>daemon/daemon.go\<close>, \<open>daemon/attach.go\<close>). \<open>Session_State\<close>: the state
  of \<open>Session\<close> with its attachers, the input queue, sizes. \<open>Fanout\<close>: how output reaches the
  attached clients. \<open>Session\<close>: starting, pumping, requests, killing, reaping, persisting.
  \<open>Session_Run\<close>: all interleavings of these critical sections, as the step function
  \<open>daemonStep\<close> and the inductive \<open>runs\<close>; over them, accepted input is delivered whole and in
  order, what a client is sent tiles the output, a client that replays it shows the session's
  screen (the abstract specification, a terminal that saw all output), and the end is told.
  \<open>Session_Ops\<close>: single operations. \<open>Session_Serve\<close>: the accept loop, one connection, the
  stages of \<open>run\<close>; and the daemon composed with the typed client. \<open>Session_History\<close>: what a
  run leaves in the store and in the exit state: the output pump takes its reads in order, the store
  sees the run as a schedule of its own operations, and the command is reaped once. \<open>Lifecycle\<close>:
  \<open>Serve\<close> over any run of these sections, and what the operations find when the daemon is gone.

  The client side. \<open>Go_Errors\<close>: Go error values as trees with \<open>errors.Is\<close>, \<open>As\<close>,
  \<open>Join\<close>, and the three functions that take expected errors out of them. \<open>Client_Api\<close>
  (\<open>client_api.go\<close>): one operation per stream. \<open>Dirs\<close> (\<open>dirs.go\<close>): the directories and
  the memory a process has of them. \<open>Sessions\<close> (\<open>sessions.go\<close>, \<open>client.go\<close>): live and
  ended sessions, merged and filtered. \<open>Start\<close> (\<open>start.go\<close>, \<open>client.go\<close>): starting a
  session under the lock of its namespace, waiting for it, cleaning up. \<open>Command_Api\<close>
  (\<open>command_api.go\<close>): the operations behind the commands. \<open>Cli\<close>
  (\<open>internal/cli/cli.go\<close>): the table of commands and flags, the commands, their errors and the
  exit status.

  Attaching. \<open>Attach_Input\<close> (\<open>client_attach_input.go\<close>): the loop that forwards input and
  looks for the detach key. \<open>Attach_View\<close> (\<open>attachview.go\<close>): the painter.
  \<open>Attach_Models\<close> (\<open>attachmodels.go\<close>): the client-local terminal and the choice of its
  presentation; \<open>Attach_Presentation\<close> has its invariant, that the local terminal mirrors the
  session, and what reaches the physical terminal. \<open>Attach_Client\<close> (\<open>client_attach.go\<close>): the
  handshake, the workers as interleaved events on one state, and how they end. \<open>Transport\<close>
  (\<open>attach.go\<close>, \<open>transport.go\<close>): the two ways to reach a session, and \<open>Bridge\<close>.
  \<open>Process_Terminal\<close> (\<open>terminal*.go\<close>, \<open>daemonize.go\<close>, \<open>main\<close>): the ends of a process.

  The whole. \<open>Attached_Session\<close>: the daemon's frames on the wire, read and applied by the client's
  workers; the user looks at the session. \<open>Program\<close>: \<open>defaultOperations\<close>, the operations of a
  process over the models of all components, and a session from \<open>bgx run\<close> over its daemon to
  \<open>bgx info\<close>, \<open>history\<close> and \<open>wait\<close>.

  Interfaces. \<open>chunk_backend\<close> is what the store needs of a backend, interpreted on both
  backends at once, and \<open>chunk_store\<close> extends it for the store's lemmas. \<open>fanout_contract\<close>
  is what a view of a client must keep under every critical section of the daemon; it is interpreted
  with lists of bytes (the stream tiles) and used with screens (the client agrees).
  \<open>go_sort\<close> and \<open>go_order\<close> are \<open>sort.Slice\<close>, which need not be stable, and the
  order of a map's keys, interpreted on an executable sort.

  Parameters. Code that is not in the repository is an argument: libghostty (a record of functions,
  with its chunking law as a hypothesis where it is needed), the zstd codec (decoding what was
  encoded, as a hypothesis), the JSON codecs, the xdg package, the PTY, urfave, and the operating
  system, whose calls are scripted results: a list of faults, of answers, or a field per call. A
  file system is a list of files with such faults. Cancellation is what the calls then report.

  Bounds. Loops over slices are structural or end by a measure; the drain goroutine and the writers
  of clients have step counts that suffice. Where the code
  waits, the rounds are a list: \<open>waitForSession\<close>, \<open>waitForEndedExitResult\<close> and
  \<open>ReadContext\<close> give \<open>None\<close> while they wait; a list in which the deadline has passed is
  long enough, which is proved of \<open>Start\<close> and of \<open>waitForEndedExitResult\<close>; the operations
  of a process are those with such a list.
  \<open>attachShutdown\<close> is \<open>None\<close> only while a worker runs (\<open>attachShutdown_returns\<close>).

  Composition. The daemon is proved against its client (every operation finds what it needs in the
  daemon's answer), the fanout against the wire and the client's emulated terminal, the attach loop
  against the scanner of the detach key, the errors of an attachment against its workers, attaching
  to a session that is gone from the check or the command line at the far end of a transport up to
  the code the command reports, and a whole session from its start to the exit status of
  \<open>bgx wait\<close> (in \<open>Lifecycle\<close> and \<open>Program\<close>). Some theorems state behaviour that differs from what a comment or a caller expects, among them
  \<open>Snapshot_trims_unsealed_head\<close>, \<open>dotdot_namespace_escapes\<close>, \<open>persist_drops_own_record\<close>,
  \<open>matchesMetadata_missing_key\<close>, \<open>withoutNetErrClosed_loses_context\<close>,
  \<open>unreadable_directory_has_room\<close> and \<open>socketPath_unresolved\<close>.

  Not modelled. The text of messages is a format with its arguments, not the formatted string, and
  JSON output is the printed value. What urfave makes of a command line is an argument; the
  names, aliases and flags it is given are definitions. Reading and writing standard input and output
  passes on to the operating system, and releasing libghostty's memory has no effect a caller sees. The
  bytes that \<open>Bridge\<close> copies are \<open>io.Copy\<close>'s. The rate limit between two paintings and the lengths of timeouts are not part
  of a state: a timer fires at any point. Go's memory model is not: every section under a lock is one
  step, and so is every section on state that one goroutine owns.
\<close>

end
